(* ===== verification/Prelude.thy ===== *)
theory Prelude
  imports Main "HOL-Library.Word"
begin

text \<open>
  Shared vocabulary of the development: bytes and byte strings, the C++ string operations the
  sources use (\<open>c_str\<close>, \<open>substr\<close>, \<open>find\<close>, \<open>std::to_string\<close>), and the generic lemmas on lists
  and positional numerals the component theories rest on.

  A \<open>std::string\<close>, a \<open>std::vector<unsigned char>\<close> and a \<open>uint8_t\<close> buffer are all lists of
  8-bit words. Sizes (\<open>size_t\<close>) are natural numbers; where the code lets a \<open>size_t\<close> wrap around
  the model writes the reduction modulo \<open>2 ^ 64\<close> out.
\<close>

named_theorems byte_simps \<open>evaluation of byte-string literals and of the C string helpers\<close>

type_synonym byte = "8 word"
type_synonym bytes = "8 word list"
type_synonym u32 = "32 word"
type_synonym u64 = "64 word"

text \<open>A C++ string literal as bytes.\<close>

definition bs :: "string \<Rightarrow> bytes" where
  "bs s = map of_char s"

lemma bs_simps [byte_simps]:
  "bs [] = []"
  "bs (c # cs) = of_char c # bs cs"
  by (simp_all add: bs_def)

lemma length_bs [simp]: "length (bs s) = length s"
  by (simp add: bs_def)

section \<open>C strings and \<open>std::string\<close>\<close>

text \<open>\<open>s.c_str()\<close> handed to code that stops at the first NUL.\<close>

definition c_str :: "bytes \<Rightarrow> bytes" where
  "c_str s = takeWhile (\<lambda>c. c \<noteq> 0) s"

text \<open>\<open>isspace\<close> in the C locale; a byte above 127 is not a space.\<close>

definition isspace :: "byte \<Rightarrow> bool" where
  "isspace c = (c \<in> {9, 10, 11, 12, 13, 32})"

definition tolower :: "byte \<Rightarrow> byte" where
  "tolower c = (if 65 \<le> c \<and> c \<le> 90 then c + 32 else c)"

definition toupper :: "byte \<Rightarrow> byte" where
  "toupper c = (if 97 \<le> c \<and> c \<le> 122 then c - 32 else c)"

text \<open>\<open>strchr(tab, c) - tab\<close>: the index of the first occurrence, for a \<open>c\<close> that is not NUL.\<close>

fun strchr :: "bytes \<Rightarrow> byte \<Rightarrow> nat option" where
  "strchr [] c = None"
| "strchr (x # xs) c = (if x = c then Some 0 else map_option Suc (strchr xs c))"

text \<open>\<open>s.find(pat)\<close>: the first position where \<open>pat\<close> occurs.\<close>

fun str_find :: "bytes \<Rightarrow> bytes \<Rightarrow> nat option" where
  "str_find pat [] = (if pat = [] then Some 0 else None)"
| "str_find pat (x # xs) =
     (if take (length pat) (x # xs) = pat then Some 0
      else map_option Suc (str_find pat xs))"

text \<open>\<open>std::to_string\<close> of an unsigned and of a signed integer.\<close>

fun to_string_nat :: "nat \<Rightarrow> bytes" where
  "to_string_nat n =
     (if n < 10 then [of_nat (48 + n)]
      else to_string_nat (n div 10) @ [of_nat (48 + n mod 10)])"

declare to_string_nat.simps [simp del]

definition to_string :: "int \<Rightarrow> bytes" where
  "to_string i = (if i < 0 then 45 # to_string_nat (nat (- i)) else to_string_nat (nat i))"

text \<open>\<open>size_t\<close> arithmetic that the code lets wrap.\<close>

definition size_add :: "nat \<Rightarrow> nat \<Rightarrow> nat" where
  "size_add a b = (a + b) mod 2 ^ 64"

definition size_sub :: "nat \<Rightarrow> nat \<Rightarrow> nat" where
  "size_sub a b = (a + (2 ^ 64 - b)) mod 2 ^ 64"

section \<open>Lists\<close>

lemma take_Suc_drop_nth: "i < length xs \<Longrightarrow> take (Suc n) (drop i xs) = xs ! i # take n (drop (Suc i) xs)"
  by (metis Cons_nth_drop_Suc take_Suc_Cons)

lemma takeWhile_id: "(\<And>x. x \<in> set xs \<Longrightarrow> P x) \<Longrightarrow> takeWhile P xs = xs"
  by (simp add: takeWhile_eq_all_conv)

lemma takeWhile_replicate_append:
  "P x \<Longrightarrow> takeWhile P (replicate n x @ ys) = replicate n x @ takeWhile P ys"
  by (induction n) auto

lemma dropWhile_replicate_append:
  "P x \<Longrightarrow> dropWhile P (replicate n x @ ys) = dropWhile P ys"
  by (induction n) auto

lemma takeWhile_eq_replicate: "takeWhile (\<lambda>c. c = x) xs = replicate (length (takeWhile (\<lambda>c. c = x) xs)) x"
  by (induction xs) auto

lemma replicate_dropWhile: "replicate (length (takeWhile (\<lambda>c. c = x) xs)) x @ dropWhile (\<lambda>c. c = x) xs = xs"
  by (metis takeWhile_dropWhile_id takeWhile_eq_replicate)

lemma takeWhile_eq_Nil: "takeWhile P xs = [] \<longleftrightarrow> xs = [] \<or> \<not> P (hd xs)"
  by (cases xs) auto

lemma dropWhile_id: "xs = [] \<or> \<not> P (hd xs) \<Longrightarrow> dropWhile P xs = xs"
  by (cases xs) auto

lemma strchr_Some_nth: "strchr xs c = Some k \<Longrightarrow> k < length xs \<and> xs ! k = c"
  by (induction xs arbitrary: k) (auto split: if_splits)

lemma strchr_None: "strchr xs c = None \<longleftrightarrow> c \<notin> set xs"
  by (induction xs) auto

lemma strchr_nth: "distinct xs \<Longrightarrow> k < length xs \<Longrightarrow> strchr xs (xs ! k) = Some k"
proof (induction xs arbitrary: k)
  case Nil
  then show ?case by simp
next
  case (Cons x xs)
  then show ?case by (cases k) auto
qed

lemma c_str_id: "0 \<notin> set s \<Longrightarrow> c_str s = s"
  by (auto simp: c_str_def takeWhile_eq_all_conv)

lemma not_0_in_c_str [simp]: "0 \<notin> set (c_str s)"
  by (auto simp: c_str_def dest: set_takeWhileD)

section \<open>Little-endian positional numerals\<close>

text \<open>
  The digits of every number the sources take apart (base 58, base 256, machine integers) are
  bytes, least significant first; their value is the library's \<open>horner_sum\<close>.
\<close>

locale radix =
  fixes b :: nat
  assumes radix_gt_1: "1 < b"
begin

lemma value_less: "(\<forall>d \<in> set ds. unat d < b) \<Longrightarrow> horner_sum unat b ds < b ^ length ds"
proof (induction ds)
  case Nil
  then show ?case by simp
next
  case (Cons d ds)
  then have "unat d < b" and IH: "Suc (horner_sum unat b ds) \<le> b ^ length ds" by auto
  moreover from IH have "b * Suc (horner_sum unat b ds) \<le> b * b ^ length ds"
    by (rule mult_le_mono2)
  ultimately show ?case by simp
qed

lemma value_Cons_div_mod:
  assumes "unat d < b"
  shows "horner_sum unat b (d # ds) mod b = unat d"
    and "horner_sum unat b (d # ds) div b = horner_sum unat b ds"
  using assms by (simp_all add: div_mult_self2)

lemma value_inj:
  fixes xs ys :: "'a::len word list"
  assumes "length xs = length ys" and "\<forall>d \<in> set xs. unat d < b" and "\<forall>d \<in> set ys. unat d < b"
    and "horner_sum unat b xs = horner_sum unat b ys"
  shows "xs = ys"
  using assms
proof (induction xs ys rule: list_induct2)
  case Nil
  then show ?case by simp
next
  case (Cons x xs y ys)
  then have "unat x = unat y" and "horner_sum unat b xs = horner_sum unat b ys"
    using value_Cons_div_mod [of x xs] value_Cons_div_mod [of y ys] by fastforce+
  with Cons show ?case by (simp add: word_unat_eq_iff)
qed

lemma value_replicate_0: "horner_sum unat b (replicate n 0) = 0"
  by (induction n) auto

lemma value_append_0: "horner_sum unat b (xs @ replicate n 0) = horner_sum unat b xs"
  by (simp add: horner_sum_append value_replicate_0)

lemma value_ge_last:
  assumes "xs \<noteq> []" and "last xs \<noteq> 0"
  shows "b ^ (length xs - 1) \<le> horner_sum unat b xs"
proof -
  from assms(1) have "xs = butlast xs @ [last xs]" by simp
  then have "horner_sum unat b xs
      = horner_sum unat b (butlast xs) + b ^ (length xs - 1) * unat (last xs)"
    by (metis add.right_neutral horner_sum_append horner_sum_simps length_butlast mult_zero_right)
  moreover from assms(2) have "1 \<le> unat (last xs)"
    by (simp add: Suc_leI unat_gt_0)
  then have "b ^ (length xs - 1) * 1 \<le> b ^ (length xs - 1) * unat (last xs)"
    by (rule mult_le_mono2)
  ultimately show ?thesis by linarith
qed

text \<open>A numeral without a leading zero is determined by its value.\<close>

lemma value_normal_inj:
  fixes xs ys :: "'a::len word list"
  assumes xs: "\<forall>d \<in> set xs. unat d < b" "xs = [] \<or> last xs \<noteq> 0"
    and ys: "\<forall>d \<in> set ys. unat d < b" "ys = [] \<or> last ys \<noteq> 0"
    and eq: "horner_sum unat b xs = horner_sum unat b ys"
  shows "xs = ys"
proof -
  have pow: "m \<le> n" if "b ^ (m - 1) < b ^ n" for m n
    using power_less_imp_less_exp [OF radix_gt_1 that] by linarith
  have le: "length us \<le> length vs"
    if us: "us = [] \<or> last us \<noteq> 0" and vs: "\<forall>d \<in> set vs. unat d < b"
      and e: "horner_sum unat b us = horner_sum unat b vs" for us vs :: "'a word list"
  proof (cases "us = []")
    case True
    then show ?thesis by simp
  next
    case False
    with us have "b ^ (length us - 1) \<le> horner_sum unat b us"
      by (intro value_ge_last) auto
    also have "\<dots> < b ^ length vs" using e value_less [OF vs] by simp
    finally show ?thesis by (rule pow)
  qed
  from le [OF xs(2) ys(1) eq] le [OF ys(2) xs(1) eq [symmetric]]
  have "length xs = length ys" by simp
  then show ?thesis using xs(1) ys(1) eq by (rule value_inj)
qed

end

interpretation r256: radix 256 by unfold_locales simp
interpretation r58: radix 58 by unfold_locales simp

lemma byte_less_256 [simp]: "unat (c :: byte) < 256"
  using unsigned_less [of c] by simp

lemma unat_of_nat_byte: "n < 256 \<Longrightarrow> unat (of_nat n :: byte) = n"
  by (simp add: unsigned_of_nat take_bit_eq_mod)

end
