(* ===== verification/Errors.thy ===== *)
theory Errors
  imports Prelude
begin

text \<open>
  The exceptions of the program (\<open>src/src/btc_wallet/TypedException.h\<close>,
  \<open>src/src/btc_wallet/check.h\<close>, \<open>src/src/exception/except.h\<close>) and the result type every fallible
  operation of the model returns: \<open>Inl\<close> the exception that leaves the function, \<open>Inr\<close> its value.

  The macros append \<open>". Error at file ... line ..."\<close> to a description; the model keeps the text the
  call site gives, without that suffix. Undefined behaviour of C++ (reading past an array, signed
  overflow) and a failing \<open>assert\<close> are outcomes of their own.
\<close>

section \<open>\<open>enum TypeErrors\<close>\<close>

datatype TypeErrors =
    NOT_ERROR | DONT_CREATE_FOLDER | DONT_CREATE_KEY | INCORRECT_PASSWORD | DONT_SIGN
  | INCORRECT_USER_DATA | INCORRECT_ADDRESS_OR_PUBLIC_KEY | PRIVATE_KEY_ERROR
  | INCORRECT_VALUE_OR_FEE | QR_ENCODE_ERROR | CLIENT_ERROR
  | MESSENGER_SERVER_ERROR_ADDRESS_EXIST | MESSENGER_SERVER_ERROR_SIGN_OR_ADDRESS_INVALID
  | MESSENGER_SERVER_ERROR_INCORRECT_JSON | MESSENGER_SERVER_ERROR_ADDRESS_NOT_FOUND
  | MESSENGER_SERVER_ERROR_CHANNEL_EXIST | MESSENGER_SERVER_ERROR_CHANNEL_NOT_PERMISSION
  | MESSENGER_SERVER_ERROR_CHANNEL_NOT_FOUND | MESSENGER_SERVER_ERROR_OTHER
  | WALLET_NOT_UNLOCK | WALLET_OTHER | INCOMPLETE_USER_INFO | CHANNEL_TITLE_INCORRECT
  | TRANSACTIONS_SERVER_SEND_ERROR | TRANSACTIONS_SENDED_NOT_FOUND | OTHER_ERROR

fun numError :: "TypeErrors \<Rightarrow> nat" where
  "numError NOT_ERROR = 0"
| "numError DONT_CREATE_FOLDER = 1"
| "numError DONT_CREATE_KEY = 2"
| "numError INCORRECT_PASSWORD = 3"
| "numError DONT_SIGN = 4"
| "numError INCORRECT_USER_DATA = 5"
| "numError INCORRECT_ADDRESS_OR_PUBLIC_KEY = 6"
| "numError PRIVATE_KEY_ERROR = 7"
| "numError INCORRECT_VALUE_OR_FEE = 9"
| "numError QR_ENCODE_ERROR = 8"
| "numError CLIENT_ERROR = 10"
| "numError MESSENGER_SERVER_ERROR_ADDRESS_EXIST = 100"
| "numError MESSENGER_SERVER_ERROR_SIGN_OR_ADDRESS_INVALID = 101"
| "numError MESSENGER_SERVER_ERROR_INCORRECT_JSON = 102"
| "numError MESSENGER_SERVER_ERROR_ADDRESS_NOT_FOUND = 103"
| "numError MESSENGER_SERVER_ERROR_CHANNEL_EXIST = 104"
| "numError MESSENGER_SERVER_ERROR_CHANNEL_NOT_PERMISSION = 105"
| "numError MESSENGER_SERVER_ERROR_CHANNEL_NOT_FOUND = 106"
| "numError MESSENGER_SERVER_ERROR_OTHER = 107"
| "numError WALLET_NOT_UNLOCK = 108"
| "numError WALLET_OTHER = 109"
| "numError INCOMPLETE_USER_INFO = 110"
| "numError CHANNEL_TITLE_INCORRECT = 111"
| "numError TRANSACTIONS_SERVER_SEND_ERROR = 200"
| "numError TRANSACTIONS_SENDED_NOT_FOUND = 201"
| "numError OTHER_ERROR = 1000"

text \<open>An unscoped enumeration compares by its numbers, which are pairwise different.\<close>

lemma numError_inj: "numError x = numError y \<Longrightarrow> x = y"
  by (cases x; cases y) simp_all

instantiation TypeErrors :: linorder
begin

definition less_eq_TypeErrors :: "TypeErrors \<Rightarrow> TypeErrors \<Rightarrow> bool" where
  "less_eq_TypeErrors x y \<longleftrightarrow> numError x \<le> numError y"

definition less_TypeErrors :: "TypeErrors \<Rightarrow> TypeErrors \<Rightarrow> bool" where
  "less_TypeErrors x y \<longleftrightarrow> numError x < numError y"

instance
  by intro_classes (auto simp: less_eq_TypeErrors_def less_TypeErrors_def intro: numError_inj)

end

section \<open>Exceptions and results\<close>

datatype std_exception = OutOfRange | InvalidArgument | LengthError | FilesystemError

datatype exc =
    TypedException TypeErrors bytes \<comment> \<open>\<open>throwErrTyped\<close>\<close>
  | StringException bytes           \<comment> \<open>\<open>throwErr\<close>: \<open>exception\<close> is \<open>std::string\<close>\<close>
  | InvalidParam bytes              \<comment> \<open>\<open>CHK_PRM\<close>: \<open>invalid_param\<close>\<close>
  | StdException std_exception      \<comment> \<open>thrown by the standard library\<close>
  | AssertFailed                    \<comment> \<open>\<open>assert\<close>: the process aborts\<close>
  | Undefined bytes                 \<comment> \<open>undefined behaviour, with a note on where\<close>

type_synonym 'a res = "exc + 'a"

definition rbind :: "'a res \<Rightarrow> ('a \<Rightarrow> 'b res) \<Rightarrow> 'b res" where
  "rbind m f = (case m of Inl e \<Rightarrow> Inl e | Inr x \<Rightarrow> f x)"

definition CHECK_TYPED :: "bool \<Rightarrow> TypeErrors \<Rightarrow> bytes \<Rightarrow> 'a res \<Rightarrow> 'a res" where
  "CHECK_TYPED v type s k = (if v then k else Inl (TypedException type s))"

definition CHECK :: "bool \<Rightarrow> bytes \<Rightarrow> 'a res \<Rightarrow> 'a res" where
  "CHECK v s k = (if v then k else Inl (StringException s))"

definition CHK_PRM :: "bool \<Rightarrow> bytes \<Rightarrow> 'a res \<Rightarrow> 'a res" where
  "CHK_PRM condition message k = (if condition then k else Inl (InvalidParam message))"

named_theorems res_simps \<open>computation and inversion of results\<close>

lemma rbind_simps [simp]:
  "rbind (Inl e) f = Inl e"
  "rbind (Inr x) f = f x"
  by (simp_all add: rbind_def)

lemma CHECK_simps [simp]:
  "CHECK_TYPED True type s k = k"
  "CHECK_TYPED False type s k = Inl (TypedException type s)"
  "CHECK True s k = k"
  "CHECK False s k = Inl (StringException s)"
  "CHK_PRM True s k = k"
  "CHK_PRM False s k = Inl (InvalidParam s)"
  by (simp_all add: CHECK_TYPED_def CHECK_def CHK_PRM_def)

lemma rbind_eq_Inr [res_simps]: "rbind m f = Inr y \<longleftrightarrow> (\<exists>x. m = Inr x \<and> f x = Inr y)"
  by (cases m) auto

lemma CHECK_TYPED_eq_Inr [res_simps]: "CHECK_TYPED v t s k = Inr y \<longleftrightarrow> v \<and> k = Inr y"
  by (simp add: CHECK_TYPED_def)

lemma CHECK_eq_Inr [res_simps]: "CHECK v s k = Inr y \<longleftrightarrow> v \<and> k = Inr y"
  by (simp add: CHECK_def)

lemma CHK_PRM_eq_Inr [res_simps]: "CHK_PRM v s k = Inr y \<longleftrightarrow> v \<and> k = Inr y"
  by (simp add: CHK_PRM_def)

lemma rbind_assoc: "rbind (rbind m f) g = rbind m (\<lambda>x. rbind (f x) g)"
  by (cases m) simp_all

lemma rbind_cong [fundef_cong]:
  "m = m' \<Longrightarrow> (\<And>x. m' = Inr x \<Longrightarrow> f x = f' x) \<Longrightarrow> rbind m f = rbind m' f'"
  by (cases m') simp_all

section \<open>Checked accesses of \<open>std::string\<close>\<close>

text \<open>\<open>s.substr(pos, n)\<close> and \<open>s.substr(pos)\<close> throw when \<open>pos\<close> is past the end.\<close>

definition substr :: "bytes \<Rightarrow> nat \<Rightarrow> nat \<Rightarrow> bytes res" where
  "substr s pos n = (if length s < pos then Inl (StdException OutOfRange) else Inr (take n (drop pos s)))"

definition substr_from :: "bytes \<Rightarrow> nat \<Rightarrow> bytes res" where
  "substr_from s pos = (if length s < pos then Inl (StdException OutOfRange) else Inr (drop pos s))"

text \<open>\<open>s[i]\<close> is the terminator at the end and undefined past it; \<open>v[i]\<close> is undefined past the end.\<close>

definition str_index :: "bytes \<Rightarrow> nat \<Rightarrow> byte res" where
  "str_index s i =
     (if i < length s then Inr (s ! i) else if i = length s then Inr 0
      else Inl (Undefined (bs ''string index'')))"

definition vec_index :: "'a list \<Rightarrow> nat \<Rightarrow> 'a res" where
  "vec_index v i = (if i < length v then Inr (v ! i) else Inl (Undefined (bs ''vector index'')))"

text \<open>A library reads \<open>n\<close> bytes at \<open>s.c_str ()\<close>: the terminator can be read, nothing after it.\<close>

definition read_c_str :: "nat \<Rightarrow> bytes \<Rightarrow> bytes res" where
  "read_c_str n s =
     (if length s + 1 < n then Inl (Undefined (bs ''read past a string'')) else Inr (take n (s @ [0])))"

lemma read_c_str_fits [simp]: "n \<le> length s \<Longrightarrow> read_c_str n s = Inr (take n s)"
  by (simp add: read_c_str_def)

definition at :: "'a list \<Rightarrow> nat \<Rightarrow> 'a res" where
  "at v i = (if i < length v then Inr (v ! i) else Inl (StdException OutOfRange))"

lemma substr_0 [simp]: "substr s 0 n = Inr (take n s)"
  by (simp add: substr_def)

lemma substr_eq_Inr [res_simps]: "substr s pos n = Inr t \<longleftrightarrow> pos \<le> length s \<and> t = take n (drop pos s)"
  by (auto simp: substr_def)

lemma substr_from_eq_Inr [res_simps]: "substr_from s pos = Inr t \<longleftrightarrow> pos \<le> length s \<and> t = drop pos s"
  by (auto simp: substr_from_def)

lemma vec_index_eq_Inr [res_simps]: "vec_index v i = Inr x \<longleftrightarrow> i < length v \<and> x = v ! i"
  by (auto simp: vec_index_def)

lemma at_eq_Inr [res_simps]: "at v i = Inr x \<longleftrightarrow> i < length v \<and> x = v ! i"
  by (auto simp: at_def)

end
