(* ===== verification/Utils2.thy ===== *)
theory Utils2
  imports Errors
begin

text \<open>
  \<open>src/src/ethtx/utils2.h\<close> and \<open>utils2.cpp\<close>: machine integers as little-endian buffers
  (\<open>IntegerToBuffer\<close>), Bitcoin's variable-length integers (\<open>PackInteger\<close>) and hexadecimal dumps
  (\<open>DumpToHexString\<close>, \<open>HexStringToDump\<close>).

  The encoders are prefix codes: what one writes in front of other bytes is read back without a
  separator. The interface \<open>prefix_code\<close> states that contract once; the transaction format and the
  RLP encoding are built from its instances.
\<close>

unbundle bit_operations_syntax

section \<open>Prefix codes\<close>

locale prefix_code =
  fixes enc :: "'a \<Rightarrow> bytes"
    and dec :: "bytes \<Rightarrow> ('a \<times> bytes) option"
    and valid :: "'a \<Rightarrow> bool"
  assumes dec_enc: "valid x \<Longrightarrow> dec (enc x @ rest) = Some (x, rest)"
begin

lemma enc_append_inj:
  assumes "valid x" and "valid y" and "enc x @ r = enc y @ s"
  shows "x = y \<and> r = s"
  by (metis assms dec_enc option.inject prod.inject)

lemma enc_inj: "valid x \<Longrightarrow> valid y \<Longrightarrow> enc x = enc y \<Longrightarrow> x = y"
  by (metis enc_append_inj)

fun dec_list :: "nat \<Rightarrow> bytes \<Rightarrow> ('a list \<times> bytes) option" where
  "dec_list 0 b = Some ([], b)"
| "dec_list (Suc n) b =
     (case dec b of None \<Rightarrow> None
      | Some (x, b') \<Rightarrow> map_option (\<lambda>(xs, r). (x # xs, r)) (dec_list n b'))"

lemma dec_list_concat:
  "(\<forall>x \<in> set xs. valid x) \<Longrightarrow> dec_list (length xs) (concat (map enc xs) @ rest) = Some (xs, rest)"
  by (induction xs) (simp_all add: dec_enc)

lemma concat_enc_inj:
  assumes "\<forall>x \<in> set xs. valid x" and "\<forall>y \<in> set ys. valid y" and "length xs = length ys"
    and "concat (map enc xs) @ r = concat (map enc ys) @ s"
  shows "xs = ys \<and> r = s"
  by (metis assms dec_list_concat option.inject prod.inject)

end

section \<open>\<open>IntegerToBuffer\<close>\<close>

fun integer_bytes :: "nat \<Rightarrow> 'a::len word \<Rightarrow> bytes" where
  "integer_bytes 0 value = []"
| "integer_bytes (Suc n) value = ucast (value mod 256) # integer_bytes n (value div 256)"

definition IntegerToBuffer :: "'a::len word \<Rightarrow> bytes" where
  "IntegerToBuffer val = integer_bytes (LENGTH('a) div 8) val"

lemma length_integer_bytes [simp]: "length (integer_bytes n v) = n"
  by (induction n arbitrary: v) auto

lemma unat_ucast_mod_256:
  fixes v :: "'a::len word"
  assumes "9 \<le> LENGTH('a)"
  shows "unat (ucast (v mod 256) :: byte) = unat v mod 256" and "unat (v div 256) = unat v div 256"
proof -
  have "(2::nat) ^ 9 \<le> 2 ^ LENGTH('a)" using assms by (intro power_increasing) auto
  then have *: "unat (256 :: 'a word) = 256"
    by (simp add: unsigned_numeral take_bit_eq_mod)
  then show "unat (v div 256) = unat v div 256" by (simp add: unat_div_distrib)
  from * have "unat (v mod 256) = unat v mod 256" by (simp add: unat_mod_distrib)
  then show "unat (ucast (v mod 256) :: byte) = unat v mod 256"
    by (simp add: unsigned_ucast_eq take_bit_eq_mod)
qed

lemma value_integer_bytes:
  fixes v :: "'a::len word"
  assumes "9 \<le> LENGTH('a)"
  shows "horner_sum unat 256 (integer_bytes n v) = unat v mod 256 ^ n"
proof (induction n arbitrary: v)
  case 0
  then show ?case by simp
next
  case (Suc n)
  then show ?case
    by (simp add: unat_ucast_mod_256 [OF assms] mod_mult2_eq ac_simps)
qed

lemma value_IntegerToBuffer:
  fixes v :: "'a::len word"
  assumes "9 \<le> LENGTH('a)" and "8 dvd LENGTH('a)"
  shows "horner_sum unat 256 (IntegerToBuffer v) = unat v"
proof -
  have "(256::nat) ^ (LENGTH('a) div 8) = 2 ^ (8 * (LENGTH('a) div 8))"
    by (simp add: power_mult)
  also have "\<dots> = 2 ^ LENGTH('a)" using assms(2) by simp
  finally show ?thesis
    using unsigned_less [of v] by (simp add: IntegerToBuffer_def value_integer_bytes [OF assms(1)])
qed

lemma length_IntegerToBuffer [simp]: "length (IntegerToBuffer (v :: 'a::len word)) = LENGTH('a) div 8"
  by (simp add: IntegerToBuffer_def)

text \<open>The reader of a little-endian field of the width of \<open>'a\<close>.\<close>

definition read_le :: "bytes \<Rightarrow> ('a::len word \<times> bytes) option" where
  "read_le b =
     (let n = LENGTH('a) div 8
      in if length b < n then None else Some (of_nat (horner_sum unat 256 (take n b)), drop n b))"

lemma read_le_IntegerToBuffer:
  fixes v :: "'a::len word"
  assumes "9 \<le> LENGTH('a)" and "8 dvd LENGTH('a)"
  shows "read_le (IntegerToBuffer v @ rest) = Some (v, rest)"
  by (simp add: read_le_def Let_def value_IntegerToBuffer [OF assms])

interpretation le16: prefix_code "IntegerToBuffer :: 16 word \<Rightarrow> bytes" read_le "\<lambda>_. True"
  by unfold_locales (rule read_le_IntegerToBuffer; simp)

interpretation le32: prefix_code "IntegerToBuffer :: u32 \<Rightarrow> bytes" read_le "\<lambda>_. True"
  by unfold_locales (rule read_le_IntegerToBuffer; simp)

interpretation le64: prefix_code "IntegerToBuffer :: u64 \<Rightarrow> bytes" read_le "\<lambda>_. True"
  by unfold_locales (rule read_le_IntegerToBuffer; simp)

section \<open>\<open>PackInteger\<close>\<close>

definition PackInteger :: "u64 \<Rightarrow> bytes" where
  "PackInteger value =
     (if value \<le> 252 then [ucast value]
      else if 253 \<le> value \<and> value \<le> 0xFFFF then 0xFD # IntegerToBuffer (ucast value :: 16 word)
      else if 0x10000 \<le> value \<and> value \<le> 0xFFFFFFFF then 0xFE # IntegerToBuffer (ucast value :: u32)
      else if 0x100000000 \<le> value \<and> value \<le> 0xFFFFFFFFFFFFFFFF then 0xFF # IntegerToBuffer value
      else [])"

text \<open>The reader of Bitcoin's \<open>CompactSize\<close> format.\<close>

definition read_varint :: "bytes \<Rightarrow> (u64 \<times> bytes) option" where
  "read_varint b =
     (case b of [] \<Rightarrow> None
      | t # r \<Rightarrow>
          if t = 0xFD then map_option (\<lambda>(v :: 16 word, r'). (ucast v, r')) (read_le r)
          else if t = 0xFE then map_option (\<lambda>(v :: u32, r'). (ucast v, r')) (read_le r)
          else if t = 0xFF then read_le r
          else Some (ucast t, r))"

lemma u64_max: "v \<le> (0xFFFFFFFFFFFFFFFF :: u64)"
  using unsigned_less [of v, where ?'a = nat] by (simp add: word_le_nat_alt)

lemma unat_ucast_small:
  fixes v :: "'a::len word"
  assumes "unat v < 2 ^ LENGTH('b)"
  shows "unat (ucast v :: 'b::len word) = unat v"
proof -
  have "ucast v = (of_nat (unat v) :: 'b word)" by simp
  then show ?thesis
    using assms by (simp only: unsigned_of_nat take_bit_nat_eq_self of_nat_id)
qed

lemma ucast_ucast_small:
  fixes v :: "'a::len word"
  assumes "unat v < 2 ^ LENGTH('b)"
  shows "ucast (ucast v :: 'b::len word) = v"
proof -
  have "ucast (ucast v :: 'b word) = (of_nat (unat (ucast v :: 'b word)) :: 'a word)" by simp
  also have "\<dots> = v" by (simp only: unat_ucast_small [OF assms] of_nat_unat) simp
  finally show ?thesis .
qed

lemma read_varint_PackInteger: "read_varint (PackInteger v @ rest) = Some (v, rest)"
proof -
  consider "v \<le> 252" | "252 < v" "v \<le> 0xFFFF" | "0xFFFF < v" "v \<le> 0xFFFFFFFF" | "0xFFFFFFFF < v"
    by (metis not_le)
  then show ?thesis
  proof cases
    case 1
    then have "unat v \<le> 252" by (simp add: word_le_nat_alt)
    then have "unat (ucast v :: byte) = unat v"
      by (simp add: unsigned_ucast_eq take_bit_eq_mod)
    with \<open>unat v \<le> 252\<close> have "(ucast v :: byte) \<noteq> 0xFD" "(ucast v :: byte) \<noteq> 0xFE" "(ucast v :: byte) \<noteq> 0xFF"
      by (auto simp: word_unat_eq_iff)
    moreover have "ucast (ucast v :: byte) = v"
      using \<open>unat v \<le> 252\<close> by (intro ucast_ucast_small) simp
    ultimately show ?thesis using 1 by (simp add: PackInteger_def read_varint_def)
  next
    case 2
    then have "unat v \<le> 0xFFFF" by (simp add: word_le_nat_alt)
    then have "ucast (ucast v :: 16 word) = v" by (intro ucast_ucast_small) simp
    moreover from 2 have "253 \<le> v" "\<not> v \<le> 252" by (simp_all add: word_less_nat_alt word_le_nat_alt)
    ultimately show ?thesis using 2(2) by (simp add: PackInteger_def read_varint_def le16.dec_enc)
  next
    case 3
    then have "unat v \<le> 0xFFFFFFFF" by (simp add: word_le_nat_alt)
    then have "ucast (ucast v :: u32) = v" by (intro ucast_ucast_small) simp
    moreover from 3 have "0x10000 \<le> v" "\<not> v \<le> 252" "\<not> v \<le> 0xFFFF" by (simp_all add: word_less_nat_alt word_le_nat_alt)
    ultimately show ?thesis using 3(2) by (simp add: PackInteger_def read_varint_def le32.dec_enc)
  next
    case 4
    then have "0x100000000 \<le> v" "\<not> v \<le> 252" "\<not> v \<le> 0xFFFF" "\<not> v \<le> 0xFFFFFFFF"
      by (simp_all add: word_less_nat_alt word_le_nat_alt)
    moreover have "v \<le> 0xFFFFFFFFFFFFFFFF" by (rule u64_max)
    ultimately show ?thesis by (simp add: PackInteger_def read_varint_def le64.dec_enc)
  qed
qed

interpretation varint: prefix_code PackInteger read_varint "\<lambda>_. True"
  by unfold_locales (rule read_varint_PackInteger)

lemma length_PackInteger: "length (PackInteger v) \<in> {1, 3, 5, 9}"
proof -
  have "v \<le> 0xFFFFFFFFFFFFFFFF" by (rule u64_max)
  then show ?thesis
    by (auto simp: PackInteger_def word_less_nat_alt word_le_nat_alt not_le)
qed

lemma length_PackInteger_pos [simp]: "0 < length (PackInteger v)"
  using length_PackInteger [of v] by auto

lemma length_PackInteger_le: "length (PackInteger v) \<le> 9"
  using length_PackInteger [of v] by auto

section \<open>Hexadecimal dumps\<close>

definition hex :: bytes where
  "hex = bs ''0123456789abcdef''"

text \<open>\<open>DumpToHexString(dump, dumpsize)\<close> reads a \<open>uint32_t\<close> count of bytes; the overload for strings
  passes \<open>str.size()\<close>, which is cut to 32 bits.\<close>

definition DumpToHexString_buf :: "bytes \<Rightarrow> u32 \<Rightarrow> bytes" where
  "DumpToHexString_buf dump dumpsize =
     concat (map (\<lambda>c. [hex ! unat (drop_bit 4 c), hex ! unat (c AND 15)]) (take (unat dumpsize) dump))"

definition DumpToHexString :: "bytes \<Rightarrow> bytes" where
  "DumpToHexString str = DumpToHexString_buf str (of_nat (length str))"

definition hex_nibble :: "bytes \<Rightarrow> byte \<Rightarrow> byte res" where
  "hex_nibble hexstr a =
     (if 48 \<le> a \<and> a \<le> 57 then Inr (a - 48)
      else if 97 \<le> a \<and> a \<le> 102 then Inr (a - 97 + 10)
      else if 65 \<le> a \<and> a \<le> 70 then Inr (a - 65 + 10)
      else Inl (StringException (bs ''Incorrect hex str '' @ hexstr)))"

text \<open>The loop from the last character to the first: \<open>todo\<close> is what is left, reversed; a missing
  high digit counts as \<open>'0'\<close>.\<close>

fun HexStringToDump_loop :: "bytes \<Rightarrow> bytes \<Rightarrow> bytes \<Rightarrow> bytes res" where
  "HexStringToDump_loop hexstr [] decoded = Inr decoded"
| "HexStringToDump_loop hexstr [a] decoded =
     rbind (hex_nibble hexstr a) (\<lambda>a.
     rbind (hex_nibble hexstr 48) (\<lambda>b.
     Inr ((push_bit 4 b + a) # decoded)))"
| "HexStringToDump_loop hexstr (a # b # todo) decoded =
     rbind (hex_nibble hexstr a) (\<lambda>a.
     rbind (hex_nibble hexstr b) (\<lambda>b.
     HexStringToDump_loop hexstr todo ((push_bit 4 b + a) # decoded)))"

text \<open>The index starts at \<open>(int)hexstr.size()-1\<close>: a size that does not fit a positive \<open>int\<close> is cut
  to its low 32 bits, and the smallest \<open>int\<close> minus 1 overflows.\<close>

definition HexStringToDump :: "bytes \<Rightarrow> bytes res" where
  "HexStringToDump hexstr =
     (let size = sint (of_nat (length hexstr) :: u32)
      in if size = - (2 ^ 31) then Inl (Undefined (bs ''signed overflow''))
         else HexStringToDump_loop hexstr (rev (take (nat size) hexstr)) [])"

lemma HexStringToDump_eq:
  assumes "length s < 2 ^ 31"
  shows "HexStringToDump s = HexStringToDump_loop s (rev s) []"
proof -
  have "sint (of_nat (length s) :: u32) = int (length s)"
    using assms by (simp add: signed_of_nat signed_take_bit_int_eq_self)
  then show ?thesis by (simp add: HexStringToDump_def)
qed

subsection \<open>One byte\<close>

definition is_hex :: "byte \<Rightarrow> bool" where
  "is_hex a \<longleftrightarrow> 48 \<le> a \<and> a \<le> 57 \<or> 97 \<le> a \<and> a \<le> 102 \<or> 65 \<le> a \<and> a \<le> 70"

lemma hex_nibble_cases: "(\<exists>v. hex_nibble h a = Inr v) \<longleftrightarrow> is_hex a"
  by (auto simp: hex_nibble_def is_hex_def)

lemma hex_nibble_error: "\<not> is_hex a \<Longrightarrow> hex_nibble h a = Inl (StringException (bs ''Incorrect hex str '' @ h))"
  by (auto simp: hex_nibble_def is_hex_def)

lemma less_16_cases: "n < 16 \<Longrightarrow> n \<in> {0, 1, 2, 3, 4, 5, 6, 7, 8, 9, 10, 11, 12, 13, 14, 15 :: nat}"
  by (simp, presburger)

lemma hex_nibble_hex: "n < 16 \<Longrightarrow> hex_nibble h (hex ! n) = Inr (of_nat n)"
  by (drule less_16_cases) (auto simp: hex_def byte_simps hex_nibble_def)

lemma hex_nibble_48: "hex_nibble h 48 = Inr 0"
  by (simp add: hex_nibble_def)

lemma byte_nibbles:
  fixes c :: byte
  shows "hex_nibble h (hex ! unat (drop_bit 4 c)) = Inr (drop_bit 4 c)"
    and "hex_nibble h (hex ! unat (c AND 15)) = Inr (c AND 15)"
    and "push_bit 4 (drop_bit 4 c) + (c AND 15) = c"
proof -
  have mask: "c AND 15 = take_bit 4 c"
    by (simp add: take_bit_eq_mask mask_eq_exp_minus_1)
  have "unat (drop_bit 4 c) < 16"
    by (simp only: unat_drop_bit_eq) (simp add: drop_bit_eq_div less_mult_imp_div_less)
  then have "hex_nibble h (hex ! unat (drop_bit 4 c)) = Inr (of_nat (unat (drop_bit 4 c)))"
    by (rule hex_nibble_hex)
  then show "hex_nibble h (hex ! unat (drop_bit 4 c)) = Inr (drop_bit 4 c)" by simp
  have "unat (c AND 15) < 16"
    unfolding mask by (simp only: unsigned_take_bit_eq) (simp add: take_bit_eq_mod)
  then have "hex_nibble h (hex ! unat (c AND 15)) = Inr (of_nat (unat (c AND 15)))"
    by (rule hex_nibble_hex)
  then show "hex_nibble h (hex ! unat (c AND 15)) = Inr (c AND 15)" by simp
  show "push_bit 4 (drop_bit 4 c) + (c AND 15) = c"
    unfolding mask by (rule bits_ident)
qed

lemma tolower_hex:
  assumes "hex_nibble h a = Inr v"
  shows "unat v < 16" and "hex ! unat v = tolower a"
proof -
  have "is_hex a" using assms hex_nibble_cases [of h a] by blast
  then have "unat a \<in> set ([48..<58] @ [97..<103] @ [65..<71])"
    unfolding set_append set_upt is_hex_def word_le_nat_alt by auto
  then have "of_nat (unat a) \<in> set (map of_nat ([48..<58] @ [97..<103] @ [65..<71]) :: bytes)"
    unfolding list.set_map by (rule imageI)
  then have "a \<in> set (map of_nat ([48..<58] @ [97..<103] @ [65..<71]))" by simp
  with assms show "unat v < 16" and "hex ! unat v = tolower a"
    by (auto simp: upt_rec hex_nibble_def hex_def byte_simps tolower_def)
qed

subsection \<open>Round trips\<close>

lemma DumpToHexString_eq:
  assumes "length str < 2 ^ 32"
  shows "DumpToHexString str
    = concat (map (\<lambda>c. [hex ! unat (drop_bit 4 c), hex ! unat (c AND 15)]) str)"
  using assms
  by (simp add: DumpToHexString_def DumpToHexString_buf_def unsigned_of_nat take_bit_nat_eq_self)

lemma length_DumpToHexString:
  "length str < 2 ^ 32 \<Longrightarrow> length (DumpToHexString str) = 2 * length str"
  by (simp add: DumpToHexString_eq length_concat comp_def sum_list_triv)

lemma HexStringToDump_loop_append:
  "HexStringToDump_loop h todo (xs @ ys)
     = rbind (HexStringToDump_loop h todo xs) (\<lambda>d. Inr (d @ ys))"
proof (induction h todo xs rule: HexStringToDump_loop.induct)
  case (1 h decoded)
  then show ?case by simp
next
  case (2 h a decoded)
  then show ?case by (cases "hex_nibble h a"; cases "hex_nibble h 48") simp_all
next
  case (3 h a b todo decoded)
  then show ?case
    by (cases "hex_nibble h a"; cases "hex_nibble h b") (simp_all flip: append_Cons)
qed

lemma HexStringToDump_loop_hex:
  "HexStringToDump_loop h
     (rev (concat (map (\<lambda>c. [hex ! unat (drop_bit 4 c), hex ! unat (c AND 15)]) xs)) @ todo) ys
   = HexStringToDump_loop h todo (xs @ ys)"
proof (induction xs arbitrary: todo ys)
  case Nil
  then show ?case by simp
next
  case (Cons c xs)
  then show ?case
    by (simp add: byte_nibbles)
qed

lemma HexStringToDump_DumpToHexString:
  assumes "length str < 2 ^ 30"
  shows "HexStringToDump (DumpToHexString str) = Inr str"
proof -
  have "length (DumpToHexString str) < 2 ^ 31" using assms by (simp add: length_DumpToHexString)
  then show ?thesis
    using HexStringToDump_loop_hex [of _ str "[]" "[]"] assms
    by (simp only: HexStringToDump_eq) (simp add: DumpToHexString_eq)
qed

text \<open>Which strings decode, and what a string that does not decode raises.\<close>

lemma HexStringToDump_loop_total:
  "(\<exists>d. HexStringToDump_loop h todo acc = Inr d) \<longleftrightarrow> (\<forall>c \<in> set todo. is_hex c)"
proof (induction h todo acc rule: HexStringToDump_loop.induct)
  case (3 h a b todo decoded)
  then show ?case
    using hex_nibble_cases [of h a] hex_nibble_cases [of h b]
    by (cases "hex_nibble h a"; cases "hex_nibble h b") auto
qed (auto simp: res_simps hex_nibble_48 intro: hex_nibble_cases [THEN iffD1, OF exI]
    dest: hex_nibble_cases [THEN iffD2])

lemma HexStringToDump_loop_error:
  "\<not> (\<forall>c \<in> set todo. is_hex c)
   \<Longrightarrow> HexStringToDump_loop h todo acc = Inl (StringException (bs ''Incorrect hex str '' @ h))"
proof (induction h todo acc rule: HexStringToDump_loop.induct)
  case (3 h a b todo decoded)
  show ?case
  proof (cases "is_hex a \<and> is_hex b")
    case True
    with 3 show ?thesis
      using hex_nibble_cases [of h a] hex_nibble_cases [of h b] by auto
  next
    case False
    then show ?thesis
      using hex_nibble_cases [of h a] hex_nibble_error [of a h] hex_nibble_error [of b h]
      by (cases "hex_nibble h a") auto
  qed
qed (auto simp: hex_nibble_error)

lemma HexStringToDump_Inr:
  "length s < 2 ^ 31 \<Longrightarrow> (\<exists>d. HexStringToDump s = Inr d) \<longleftrightarrow> (\<forall>c \<in> set s. is_hex c)"
  by (simp add: HexStringToDump_eq HexStringToDump_loop_total)

lemma HexStringToDump_Inl:
  "length s < 2 ^ 31 \<Longrightarrow> \<not> (\<forall>c \<in> set s. is_hex c)
   \<Longrightarrow> HexStringToDump s = Inl (StringException (bs ''Incorrect hex str '' @ s))"
  unfolding HexStringToDump_eq by (rule HexStringToDump_loop_error) simp

lemma length_HexStringToDump_loop:
  "HexStringToDump_loop h todo acc = Inr d \<Longrightarrow> length d = (length todo + 1) div 2 + length acc"
  by (induction h todo acc rule: HexStringToDump_loop.induct) (auto simp: res_simps)

lemma length_HexStringToDump:
  "length s < 2 ^ 31 \<Longrightarrow> HexStringToDump s = Inr d \<Longrightarrow> length d = (length s + 1) div 2"
  by (auto simp: HexStringToDump_eq dest: length_HexStringToDump_loop)

text \<open>Whatever the length of the text, its length as an \<open>int\<close> bounds the result.\<close>

lemma HexStringToDump_bound: "HexStringToDump s = Inr d \<Longrightarrow> length d \<le> 2 ^ 30"
proof -
  assume "HexStringToDump s = Inr d"
  then have "HexStringToDump_loop s (rev (take (nat (sint (of_nat (length s) :: u32))) s)) [] = Inr d"
    by (simp add: HexStringToDump_def Let_def split: if_split_asm)
  from length_HexStringToDump_loop [OF this]
  have "length d \<le> (nat (sint (of_nat (length s) :: u32)) + 1) div 2" by (simp add: div_le_mono)
  also have "sint (of_nat (length s) :: u32) < 2 ^ 31" using sint_lt [of "of_nat (length s) :: u32"] by simp
  then have "nat (sint (of_nat (length s) :: u32)) + 1 \<le> 2 ^ 31" by (simp add: nat_less_iff Suc_le_eq)
  then have "(nat (sint (of_nat (length s) :: u32)) + 1) div 2 \<le> 2 ^ 31 div 2" by (rule div_le_mono)
  finally show ?thesis by simp
qed

text \<open>Decoding then dumping gives the digits back in lower case.\<close>

lemma nibbles_byte:
  fixes a b :: byte
  assumes "unat a < 16" and "unat b < 16"
  shows "drop_bit 4 (push_bit 4 b + a) = b" and "(push_bit 4 b + a) AND 15 = a"
proof -
  have mask: "c AND 15 = take_bit 4 c" for c :: byte
    by (simp add: take_bit_eq_mask mask_eq_exp_minus_1)
  have *: "unat (push_bit 4 b + a) = 16 * unat b + unat a"
    using assms by (simp add: push_bit_eq_mult unat_word_ariths mult.commute)
  have "unat (drop_bit 4 (push_bit 4 b + a)) = unat b"
    using assms by (simp only: unat_drop_bit_eq *) (simp add: drop_bit_eq_div)
  then show "drop_bit 4 (push_bit 4 b + a) = b" by (rule unsigned_word_eqI)
  have "unat (take_bit 4 (push_bit 4 b + a)) = unat a"
    using assms by (simp only: unsigned_take_bit_eq *) (simp add: take_bit_eq_mod)
  then show "(push_bit 4 b + a) AND 15 = a" unfolding mask by (rule unsigned_word_eqI)
qed

lemma HexStringToDump_loop_canonical:
  assumes "HexStringToDump_loop h todo acc = Inr d" and "even (length todo)"
  shows "\<exists>e. d = e @ acc
    \<and> concat (map (\<lambda>c. [hex ! unat (drop_bit 4 c), hex ! unat (c AND 15)]) e) = map tolower (rev todo)"
  using assms
proof (induction h todo acc arbitrary: d rule: HexStringToDump_loop.induct)
  case (3 h a b todo decoded)
  from "3.prems"(1) obtain x y where xy: "hex_nibble h a = Inr x" "hex_nibble h b = Inr y"
    and rec: "HexStringToDump_loop h todo ((push_bit 4 y + x) # decoded) = Inr d"
    by (auto simp: res_simps)
  from "3.IH" [OF xy rec] "3.prems"(2) obtain e where "d = e @ (push_bit 4 y + x) # decoded"
    and "concat (map (\<lambda>c. [hex ! unat (drop_bit 4 c), hex ! unat (c AND 15)]) e) = map tolower (rev todo)"
    by auto
  then show ?case
    using tolower_hex [OF xy(1)] tolower_hex [OF xy(2)] nibbles_byte [of x y]
    by (intro exI [of _ "e @ [push_bit 4 y + x]"]) simp
qed auto

lemma DumpToHexString_HexStringToDump:
  assumes "HexStringToDump s = Inr d" and "even (length s)" and "length s < 2 ^ 31"
  shows "DumpToHexString d = map tolower s"
proof -
  have "length d < 2 ^ 32" using length_HexStringToDump [OF assms(3,1)] assms(3) by simp
  then show ?thesis
    using HexStringToDump_loop_canonical [OF assms(1) [unfolded HexStringToDump_eq [OF assms(3)]]] assms(2)
    by (simp add: DumpToHexString_eq)
qed

section \<open>Properties\<close>

text \<open>C34: \<open>PackInteger\<close> is a prefix code. Whatever follows the encoding of a 64-bit value in a
  transaction, the compact-size reader of the Bitcoin format gives the value back and leaves the
  rest untouched; and the encoding takes 1, 3, 5 or 9 bytes, the fewest its ranges allow.\<close>

theorem varint_roundtrip:
  "read_varint (PackInteger v @ rest) = Some (v, rest)
   \<and> length (PackInteger v)
       = (if v \<le> 252 then 1 else if v \<le> 0xFFFF then 3 else if v \<le> 0xFFFFFFFF then 5 else 9)"
proof
  show "read_varint (PackInteger v @ rest) = Some (v, rest)" by (rule read_varint_PackInteger)
  show "length (PackInteger v)
      = (if v \<le> 252 then 1 else if v \<le> 0xFFFF then 3 else if v \<le> 0xFFFFFFFF then 5 else 9)"
    using u64_max [of v] by (auto simp: PackInteger_def word_less_nat_alt word_le_nat_alt not_le)
qed

text \<open>a dump printed by \<open>DumpToHexString\<close> is read back by \<open>HexStringToDump\<close> unchanged, for
  every byte string whose hexadecimal form fits the \<open>int\<close> index of the reader.\<close>

theorem hex_roundtrip:
  assumes "length str < 2 ^ 30"
  shows "HexStringToDump (DumpToHexString str) = Inr str"
  using assms by (rule HexStringToDump_DumpToHexString)

theorem hex_roundtrip_witness:
  "HexStringToDump (DumpToHexString [0x00, 0x1f, 0xff]) = Inr [0x00, 0x1f, 0xff]"
  by (rule hex_roundtrip) simp

text \<open>C33: \<open>HexStringToDump\<close> decodes exactly the strings of hexadecimal digits, of either case and
  of odd length too (half the length, rounded up, is the number of bytes); the dump of what it
  decoded from an even number of digits is those digits in lower case; and any other string raises
  the error of the code, with the string in its text.\<close>

theorem hex_decode_total:
  assumes "length s < 2 ^ 31"
  shows "case HexStringToDump s of
     Inl e \<Rightarrow> e = StringException (bs ''Incorrect hex str '' @ s) \<and> \<not> list_all is_hex s
   | Inr d \<Rightarrow> list_all is_hex s \<and> length d = (length s + 1) div 2
       \<and> (even (length s) \<longrightarrow> DumpToHexString d = map tolower s)"
proof (cases "HexStringToDump s")
  case (Inl e)
  then have "\<not> list_all is_hex s" using HexStringToDump_Inr [OF assms] by (auto simp: list_all_iff)
  then show ?thesis using Inl HexStringToDump_Inl [OF assms] by (simp add: list_all_iff)
next
  case (Inr d)
  then show ?thesis
    using HexStringToDump_Inr [OF assms] length_HexStringToDump [OF assms Inr]
      DumpToHexString_HexStringToDump [OF Inr _ assms] by (auto simp: list_all_iff)
qed

theorem hex_decode_total_witness:
  "DumpToHexString [0xab, 0xcd] = bs ''abcd'' \<and> HexStringToDump (bs ''ABcd'') = Inr [0xab, 0xcd]"
proof -
  have h: "HexStringToDump (bs ''ABcd'') = Inr [0xab, 0xcd]"
    by (subst HexStringToDump_eq) (simp_all add: bs_def hex_nibble_def push_bit_eq_mult)
  show ?thesis using hex_decode_total [of "bs ''ABcd''"] unfolding h
    by (simp add: bs_def tolower_def)
qed

end
