(* ===== verification/Base58.thy ===== *)
theory Base58
  imports Utils2
begin

text \<open>
  \<open>src/src/btctx/Base58.cpp\<close>: \<open>EncodeBase58BTC\<close> and \<open>DecodeBase58\<close>.

  Both work on a buffer allocated once (\<open>size * 138 / 100 + 1\<close> and \<open>strlen * 733 / 1000 + 1\<close>
  bytes) and multiply the number in it by 256 or 58 and add a digit, byte by byte. The vectors are
  kept here least significant digit first, the order in which the code's reverse iterator walks
  them.

  The size goes into an \<open>int\<close>: it is narrowed to 32 bits here as there, and a vector of a negative size
  throws. Both arguments can be too long for it; the buffer is then too small, digits are lost without
  a word by the encoder, and the decoder's assertion can fail. So the lemmas bound the length (about
  1.5 GB for the encoder, 2 GB for the decoder). Counting \<open>zeroes\<close> up to \<open>2 ^ 31\<close> overflows. In the inner
  loop \<open>i\<close> is at most the size, and the carry is below \<open>2 ^ 17\<close> since a digit is a byte; they are natural
  numbers.

  Under the bounds the buffers are large enough, so the carry is 0 after every digit (the
  commented-out assertion of the encoder, and the one the decoder executes), and the two
  functions are inverse to each other. \<open>base58\<close> is the encoder without the \<open>int\<close>s.
\<close>

definition pszBase58 :: bytes where
  "pszBase58 = bs ''123456789ABCDEFGHJKLMNPQRSTUVWXYZabcdefghijkmnopqrstuvwxyz''"

text \<open>
  The inner loop \<open>for (it = rbegin(); (carry != 0 || i < length) && it != rend(); it++, i++)\<close>
  with body \<open>carry += m * (*it); *it = carry % b; carry /= b\<close>. It returns the buffer, the count \<open>i\<close>
  of digits it went over, and the carry it ends with.
\<close>

fun mul_add :: "nat \<Rightarrow> nat \<Rightarrow> nat \<Rightarrow> nat \<Rightarrow> nat \<Rightarrow> bytes \<Rightarrow> bytes \<times> nat \<times> nat" where
  "mul_add m b carry i len [] = ([], i, carry)"
| "mul_add m b carry i len (d # ds) =
     (if carry \<noteq> 0 \<or> i < len
      then (let c = carry + m * unat d;
                (ds', i', carry') = mul_add m b (c div b) (Suc i) len ds
            in (of_nat (c mod b) # ds', i', carry'))
      else (d # ds, i, carry))"

section \<open>\<open>base58\<close>\<close>

fun encode_bytes :: "bytes \<Rightarrow> bytes \<Rightarrow> nat \<Rightarrow> bytes \<times> nat" where
  "encode_bytes [] b58 len = (b58, len)"
| "encode_bytes (ch # rest) b58 len =
     (let (b58', i, carry) = mul_add 256 58 (unat ch) 0 len b58 in encode_bytes rest b58' i)"

text \<open>\<open>int size = n; std::vector<unsigned char> v(size)\<close>: the size of the vector.\<close>

definition buffer_size :: "nat \<Rightarrow> nat res" where
  "buffer_size n =
     (let size = sint (of_nat n :: u32)
      in if size < 0 then Inl (StdException LengthError) else Inr (nat size))"

definition EncodeBase58BTC :: "bytes \<Rightarrow> bytes res" where
  "EncodeBase58BTC p =
     (let zeroes = length (takeWhile (\<lambda>c. c = 0) p);
          body = dropWhile (\<lambda>c. c = 0) p
      in if 2 ^ 31 \<le> zeroes \<or> 2 ^ 63 \<le> length body * 138 then Inl (Undefined (bs ''signed overflow''))
         else rbind (buffer_size (length body * 138 div 100 + 1)) (\<lambda>size.
          let (b58, len) = encode_bytes body (replicate size 0) 0;
              digits = dropWhile (\<lambda>d. d = 0) (rev (take len b58))
          in Inr (replicate zeroes 49 @ map (\<lambda>d. pszBase58 ! unat d) digits)))"

text \<open>The encoder on numbers of any length.\<close>

definition base58 :: "bytes \<Rightarrow> bytes" where
  "base58 p =
     (let zeroes = length (takeWhile (\<lambda>c. c = 0) p);
          body = dropWhile (\<lambda>c. c = 0) p;
          size = length body * 138 div 100 + 1;
          (b58, len) = encode_bytes body (replicate size 0) 0;
          digits = dropWhile (\<lambda>d. d = 0) (rev (take len b58))
      in replicate zeroes 49 @ map (\<lambda>d. pszBase58 ! unat d) digits)"

lemma buffer_size_small: "n < 2 ^ 31 \<Longrightarrow> buffer_size n = Inr n"
  by (simp add: buffer_size_def signed_of_nat signed_take_bit_int_eq_self)

lemma EncodeBase58BTC_eq:
  assumes "length p * 138 div 100 + 1 < 2 ^ 31"
  shows "EncodeBase58BTC p = Inr (base58 p)"
proof -
  let ?z = "takeWhile (\<lambda>c. c = 0) p" and ?b = "dropWhile (\<lambda>c. c = 0) p"
  have len: "length ?z \<le> length p" "length ?b \<le> length p"
    by (simp_all add: length_takeWhile_le length_dropWhile_le)
  have "length ?b * 138 div 100 \<le> length p * 138 div 100" using len(2) by (intro div_le_mono mult_le_mono1)
  then have size: "length ?b * 138 div 100 + 1 < 2 ^ 31" using assms by simp
  have "\<not> 2 ^ 31 \<le> length ?z" "\<not> 2 ^ 63 \<le> length ?b * 138" using assms len by simp_all
  moreover obtain b58 len where "encode_bytes ?b (replicate (length ?b * 138 div 100 + 1) 0) 0 = (b58, len)"
    by (metis surj_pair)
  ultimately show ?thesis
    by (simp only: EncodeBase58BTC_def base58_def Let_def buffer_size_small [OF size] rbind_simps simp_thms if_False
        prod.case)
qed

section \<open>\<open>DecodeBase58\<close>\<close>

text \<open>
  The loop over the characters, up to the terminator or a space: \<open>Inr None\<close> is \<open>return false\<close> on a
  character outside the alphabet, \<open>Inl AssertFailed\<close> the assertion \<open>carry == 0\<close>.
\<close>

fun decode_chars :: "bytes \<Rightarrow> bytes \<Rightarrow> nat \<Rightarrow> (bytes \<times> nat \<times> bytes) option res" where
  "decode_chars [] b256 len = Inr (Some (b256, len, []))"
| "decode_chars (c # cs) b256 len =
     (if isspace c then Inr (Some (b256, len, c # cs))
      else case strchr pszBase58 c of
          None \<Rightarrow> Inr None
        | Some k \<Rightarrow>
            (let (b256', i, carry) = mul_add 58 256 k 0 len b256
             in if carry = 0 then decode_chars cs b256' i else Inl AssertFailed))"

definition DecodeBase58 :: "bytes \<Rightarrow> bytes option res" where
  "DecodeBase58 psz =
     (let s = dropWhile isspace psz;
          zeroes = length (takeWhile (\<lambda>c. c = 49) s);
          s = dropWhile (\<lambda>c. c = 49) s
      in if 2 ^ 31 \<le> zeroes then Inl (Undefined (bs ''signed overflow''))
         else rbind (buffer_size (length s * 733 mod 2 ^ 64 div 1000 + 1)) (\<lambda>size.
         rbind (decode_chars s (replicate size 0) 0) (\<lambda>r.
         case r of
           None \<Rightarrow> Inr None
         | Some (b256, len, rest) \<Rightarrow>
             if dropWhile isspace rest \<noteq> [] then Inr None
             else Inr (Some (replicate zeroes 0 @ dropWhile (\<lambda>d. d = 0) (rev (take len b256)))))))"

lemma DecodeBase58_eq:
  assumes "length psz < 2 ^ 31"
  shows "DecodeBase58 psz =
     (let s = dropWhile isspace psz;
          zeroes = length (takeWhile (\<lambda>c. c = 49) s);
          s = dropWhile (\<lambda>c. c = 49) s;
          size = length s * 733 div 1000 + 1
      in rbind (decode_chars s (replicate size 0) 0) (\<lambda>r.
         case r of
           None \<Rightarrow> Inr None
         | Some (b256, len, rest) \<Rightarrow>
             if dropWhile isspace rest \<noteq> [] then Inr None
             else Inr (Some (replicate zeroes 0 @ dropWhile (\<lambda>d. d = 0) (rev (take len b256))))))"
proof -
  let ?s = "dropWhile isspace psz"
  let ?z = "takeWhile (\<lambda>c. c = 49) ?s" and ?t = "dropWhile (\<lambda>c. c = 49) ?s"
  have "length ?s \<le> length psz" "length ?z \<le> length ?s" "length ?t \<le> length ?s"
    by (simp_all add: length_takeWhile_le length_dropWhile_le)
  then have len: "length ?z < 2 ^ 31" "length ?t < 2 ^ 31" using assms by linarith+
  then have "length ?t * 733 mod 2 ^ 64 = length ?t * 733" by simp
  moreover have "length ?t * 733 div 1000 + 1 < 2 ^ 31" using len(2) by simp
  moreover have "\<not> 2 ^ 31 \<le> length ?z" using len(1) by simp
  ultimately show ?thesis
    by (simp only: DecodeBase58_def Let_def buffer_size_small rbind_simps if_False)
qed

section \<open>Lengths\<close>

lemma length_mul_add: "mul_add m b carry i len ds = (ds', i', carry') \<Longrightarrow> length ds' = length ds"
  by (induction m b carry i len ds arbitrary: ds' i' carry' rule: mul_add.induct)
    (auto simp: Let_def split: if_splits prod.splits)

lemma length_encode_bytes: "encode_bytes p b58 len = (b', len') \<Longrightarrow> length b' = length b58"
  by (induction p b58 len rule: encode_bytes.induct) (auto split: prod.splits dest: length_mul_add)

lemma length_decode_chars: "decode_chars cs b256 len = Inr (Some (b', len', rest)) \<Longrightarrow> length b' = length b256"
  by (induction cs b256 len rule: decode_chars.induct)
    (auto split: if_splits option.splits prod.splits dest: length_mul_add)

lemma length_base58: "length (base58 p) \<le> length p * 138 div 100 + 1"
proof -
  let ?z = "takeWhile (\<lambda>c. c = 0) p" and ?b = "dropWhile (\<lambda>c. c = 0) p"
  let ?size = "length ?b * 138 div 100 + 1"
  obtain b len where b: "encode_bytes ?b (replicate ?size 0) 0 = (b, len)" by (metis surj_pair)
  have "length (dropWhile (\<lambda>d. d = 0) (rev (take len b))) \<le> ?size"
    using length_dropWhile_le [of "\<lambda>d. d = 0" "rev (take len b)"] length_encode_bytes [OF b] by simp
  moreover have "length (base58 p) = length ?z + length (dropWhile (\<lambda>d. d = 0) (rev (take len b)))"
    by (simp only: base58_def Let_def b prod.case length_append length_replicate length_map)
  moreover have "length p = length ?z + length ?b" using takeWhile_dropWhile_id [of "\<lambda>c. c = 0" p] by (metis length_append)
  ultimately show ?thesis by linarith
qed

lemma length_DecodeBase58:
  assumes "length s < 2 ^ 31" and "DecodeBase58 s = Inr (Some v)"
  shows "length v \<le> length s + 1"
proof -
  let ?s = "dropWhile isspace s"
  let ?z = "takeWhile (\<lambda>c. c = 49) ?s" and ?t = "dropWhile (\<lambda>c. c = 49) ?s"
  define n where "n = length ?t * 733 div 1000 + 1"
  have "\<exists>r. decode_chars ?t (replicate n 0) 0 = Inr r \<and>
    (case r of None \<Rightarrow> Inr None
         | Some (b256, len, rest) \<Rightarrow>
             if dropWhile isspace rest \<noteq> [] then Inr None
             else Inr (Some (replicate (length ?z) 0 @ dropWhile (\<lambda>d. d = 0) (rev (take len b256)))))
       = (Inr (Some v) :: bytes option res)"
    using assms(2) by (simp only: DecodeBase58_eq [OF assms(1)] Let_def rbind_eq_Inr n_def)
  then obtain r where r: "decode_chars ?t (replicate n 0) 0 = Inr r" and "(case r of None \<Rightarrow> Inr None
         | Some (b256, len, rest) \<Rightarrow>
             if dropWhile isspace rest \<noteq> [] then Inr None
             else Inr (Some (replicate (length ?z) 0 @ dropWhile (\<lambda>d. d = 0) (rev (take len b256)))))
       = (Inr (Some v) :: bytes option res)" by blast
  then obtain b len rest where "r = Some (b, len, rest)"
    and v: "v = replicate (length ?z) 0 @ dropWhile (\<lambda>d. d = 0) (rev (take len b))"
    by (cases r) (auto split: if_split_asm)
  with r have b: "decode_chars ?t (replicate n 0) 0 = Inr (Some (b, len, rest))" by simp
  have "length (dropWhile (\<lambda>d. d = 0) (rev (take len b))) \<le> length ?t * 733 div 1000 + 1"
    using length_dropWhile_le [of "\<lambda>d. d = 0" "rev (take len b)"] length_decode_chars [OF b] by (simp add: n_def)
  moreover have "length ?s = length ?z + length ?t" using takeWhile_dropWhile_id [of "\<lambda>c. c = 49" ?s] by (metis length_append)
  moreover have "length ?s \<le> length s" by (rule length_dropWhile_le)
  ultimately show ?thesis unfolding v length_append length_replicate by linarith
qed

section \<open>Digits in a byte buffer\<close>

text \<open>
  The contract of \<open>mul_add\<close> in any base that fits a byte: the positions from \<open>len\<close> on hold 0, and
  the loop multiplies the number in the buffer, with what does not fit left in the carry.
\<close>

locale byte_radix = radix b for b :: nat +
  assumes radix_le_256: "b \<le> 256"
begin

definition digits :: "bytes \<Rightarrow> nat \<Rightarrow> bool" where
  "digits ds len \<longleftrightarrow> (\<forall>d \<in> set ds. unat d < b) \<and> (\<forall>d \<in> set (drop len ds). d = 0)"

lemma unat_digit: "unat (of_nat (c mod b) :: byte) = c mod b"
proof -
  have "c mod b < 256" using radix_gt_1 radix_le_256 mod_less_divisor [of b c] by linarith
  then show ?thesis by (rule unat_of_nat_byte)
qed

lemma value_zeros: "(\<forall>d \<in> set (ds :: bytes). d = 0) \<Longrightarrow> horner_sum unat b ds = 0"
  by (induction ds) auto

lemma mul_add_spec:
  assumes "mul_add m b carry i len ds = (ds', i', carry')" and "digits ds (len - i)"
  shows "digits ds' (i' - i) \<and> i \<le> i' \<and> i' \<le> i + length ds \<and> length ds' = length ds
    \<and> horner_sum unat b ds' + b ^ length ds * carry' = carry + m * horner_sum unat b ds"
  using assms
proof (induction ds arbitrary: carry i ds' i' carry')
  case Nil
  then show ?case by (auto simp: digits_def)
next
  case (Cons d ds)
  show ?case
  proof (cases "carry \<noteq> 0 \<or> i < len")
    case True
    let ?c = "carry + m * unat d"
    obtain ds1 i1 carry1 where rec: "mul_add m b (?c div b) (Suc i) len ds = (ds1, i1, carry1)"
      by (metis prod_cases3)
    have out: "ds' = of_nat (?c mod b) # ds1" "i' = i1" "carry' = carry1"
      using Cons.prems(1) True rec by auto
    have "len - Suc i = len - i - 1" by simp
    then have "digits ds (len - Suc i)"
      using Cons.prems(2) by (cases "len - i") (auto simp: digits_def)
    from Cons.IH [OF rec this] have IH: "digits ds1 (i1 - Suc i)" "Suc i \<le> i1" "i1 \<le> Suc i + length ds"
      "length ds1 = length ds"
      "horner_sum unat b ds1 + b ^ length ds * carry1 = ?c div b + m * horner_sum unat b ds"
      by auto
    have "horner_sum unat b ds' + b ^ length (d # ds) * carry'
        = ?c mod b + b * (horner_sum unat b ds1 + b ^ length ds * carry1)"
      by (simp add: out unat_digit algebra_simps)
    also have "\<dots> = ?c mod b + b * (?c div b) + b * (m * horner_sum unat b ds)"
      by (simp only: IH(5)) (simp only: distrib_left add.assoc)
    also have "\<dots> = carry + m * horner_sum unat b (d # ds)"
      by (simp add: algebra_simps)
    finally have val: "horner_sum unat b ds' + b ^ length (d # ds) * carry' = \<dots>" .
    from IH(2) obtain k where "i1 - i = Suc k" and "i1 - Suc i = k" by (metis Suc_diff_Suc Suc_le_lessD)
    then have "digits ds' (i' - i)"
      using IH(1) radix_gt_1 by (auto simp: out digits_def unat_digit)
    with val IH show ?thesis by (auto simp: out)
  next
    case False
    then have "\<forall>x \<in> set (d # ds). x = 0" using Cons.prems(2) by (simp add: digits_def)
    then show ?thesis
      using False Cons.prems value_zeros [of "d # ds"] by (auto simp: digits_def)
  qed
qed

lemma mul_add_fits:
  assumes "mul_add m b carry 0 len ds = (ds', i', carry')" and "digits ds len"
    and fits: "carry + m * horner_sum unat b ds < b ^ length ds"
  shows "digits ds' i'" and "length ds' = length ds" and "carry' = 0"
    and "horner_sum unat b ds' = carry + m * horner_sum unat b ds"
proof -
  from mul_add_spec [OF assms(1)] assms(2)
  have "digits ds' i'" "length ds' = length ds"
    and val: "horner_sum unat b ds' + b ^ length ds * carry' = carry + m * horner_sum unat b ds"
    by auto
  then show "digits ds' i'" "length ds' = length ds" by blast+
  from val fits show "carry' = 0" by (cases carry') auto
  with val show "horner_sum unat b ds' = carry + m * horner_sum unat b ds" by simp
qed

text \<open>What both functions read out of the buffer: its number, without leading zeros.\<close>

lemma read_out:
  assumes "digits ds len"
  defines "r \<equiv> rev (dropWhile (\<lambda>d. d = 0) (rev (take len ds)))"
  shows "\<forall>d \<in> set r. unat d < b" and "r = [] \<or> last r \<noteq> 0"
    and "horner_sum unat b r = horner_sum unat b ds"
proof -
  let ?t = "rev (take len ds)"
  have split: "take len ds = r @ replicate (length (takeWhile (\<lambda>d. d = 0) ?t)) 0"
    using arg_cong [OF replicate_dropWhile [of 0 ?t], of rev] by (simp add: r_def)
  have "set r \<subseteq> set (take len ds)"
    unfolding trans [OF arg_cong [OF split, of set] set_append] by (rule Un_upper1)
  then have "set r \<subseteq> set ds" using set_take_subset [of len ds] by blast
  then show "\<forall>d \<in> set r. unat d < b" using assms(1) by (auto simp: digits_def)
  show "r = [] \<or> last r \<noteq> 0"
    using hd_dropWhile [of "\<lambda>d. d = 0" ?t] by (auto simp: r_def last_rev)
  have "horner_sum unat b ds = horner_sum unat b (take len ds @ drop len ds)" by simp
  also have "\<dots> = horner_sum unat b (take len ds)"
    unfolding horner_sum_append using assms(1) value_zeros [of "drop len ds"] by (simp add: digits_def)
  also have "\<dots> = horner_sum unat b r" by (rule trans [OF arg_cong [OF split, of "horner_sum unat b"] value_append_0])
  finally show "horner_sum unat b r = horner_sum unat b ds" by simp
qed

end

interpretation d58: byte_radix 58 by unfold_locales simp_all
interpretation d256: byte_radix 256 by unfold_locales simp_all

section \<open>The buffers are large enough\<close>

lemma power_le_power_ratio:
  fixes a b :: nat
  assumes "a ^ p \<le> b ^ q" and "0 < p" and "0 < b" and "q * n \<le> p * m"
  shows "a ^ n \<le> b ^ m"
proof -
  have "(a ^ n) ^ p = (a ^ p) ^ n" by (simp add: power_mult [symmetric] mult.commute)
  also have "\<dots> \<le> (b ^ q) ^ n" by (rule power_mono [OF assms(1)]) simp
  also have "\<dots> = b ^ (q * n)" by (simp add: power_mult)
  also have "\<dots> \<le> b ^ (p * m)" using assms(3,4) by (intro power_increasing) auto
  also have "\<dots> = (b ^ m) ^ p" by (simp add: power_mult [symmetric] mult.commute)
  finally show ?thesis using assms(2) by (simp add: power_mono_iff)
qed

lemma less_div_mult: "0 < (k::nat) \<Longrightarrow> n < (n div k + 1) * k"
  using dividend_less_div_times [of k n] by (simp add: algebra_simps)

lemma encode_capacity: "(256::nat) ^ n \<le> 58 ^ (n * 138 div 100 + 1)"
proof (rule power_le_power_ratio [where p = 8 and q = 11])
  show "11 * n \<le> 8 * (n * 138 div 100 + 1)" using less_div_mult [of 100 "n * 138"] by linarith
qed simp_all

lemma decode_capacity:
  assumes "k \<le> n"
  shows "(58::nat) ^ k \<le> 256 ^ (n * 733 div 1000 + 1)"
proof (rule power_le_power_ratio [where p = 71 and q = 52])
  show "52 * k \<le> 71 * (n * 733 div 1000 + 1)"
    using less_div_mult [of 1000 "n * 733"] assms by linarith
qed simp_all

section \<open>The alphabet\<close>

lemma pszBase58_facts:
  "length pszBase58 = 58" "distinct pszBase58" "\<forall>c \<in> set pszBase58. \<not> isspace c \<and> c \<noteq> 0"
  "pszBase58 ! 0 = 49"
  by (simp_all add: pszBase58_def byte_simps isspace_def)

definition symbol :: "byte \<Rightarrow> byte" where
  "symbol d = pszBase58 ! unat d"

definition digit :: "byte \<Rightarrow> byte" where
  "digit c = of_nat (the (strchr pszBase58 c))"

lemma strchr_symbol: "unat d < 58 \<Longrightarrow> strchr pszBase58 (symbol d) = Some (unat d)"
  unfolding symbol_def by (rule strchr_nth) (simp_all add: pszBase58_facts)

lemma digit_symbol: "unat d < 58 \<Longrightarrow> digit (symbol d) = d"
  by (simp add: digit_def strchr_symbol)

lemma symbol_in_alphabet: "unat d < 58 \<Longrightarrow> symbol d \<in> set pszBase58"
  by (simp add: symbol_def pszBase58_facts)

lemma strchr_alphabet:
  assumes "c \<in> set pszBase58"
  obtains "strchr pszBase58 c = Some (unat (digit c))" and "unat (digit c) < 58" and "symbol (digit c) = c"
proof -
  from assms obtain k where k: "strchr pszBase58 c = Some k"
    using strchr_None [of pszBase58 c] by auto
  from strchr_Some_nth [OF this] have "k < 58" "pszBase58 ! k = c" by (simp_all add: pszBase58_facts)
  moreover have "unat (digit c) = k"
    using \<open>k < 58\<close> by (simp add: digit_def k unat_of_nat_byte)
  ultimately show ?thesis using k by (intro that) (simp_all add: symbol_def)
qed

lemma symbol_digit: "c \<in> set pszBase58 \<Longrightarrow> symbol (digit c) = c"
  by (metis strchr_alphabet)

lemma digit_less: "c \<in> set pszBase58 \<Longrightarrow> unat (digit c) < 58"
  by (metis strchr_alphabet)

lemma symbol_eq_49: "unat d < 58 \<Longrightarrow> symbol d = 49 \<longleftrightarrow> d = 0"
  by (metis digit_symbol pszBase58_facts(4) symbol_def unsigned_0 zero_less_numeral)

lemma digit_eq_0: "c \<in> set pszBase58 \<Longrightarrow> digit c = 0 \<longleftrightarrow> c = 49"
  by (metis strchr_alphabet symbol_eq_49)

section \<open>What the encoder computes\<close>

lemma encode_bytes_spec:
  assumes "encode_bytes p b58 len = (b', len')" and "d58.digits b58 len"
    and "(horner_sum unat 58 b58 + 1) * 256 ^ length p \<le> 58 ^ length b58"
  shows "d58.digits b' len'
    \<and> horner_sum unat 58 b' = horner_sum unat 58 b58 * 256 ^ length p + horner_sum unat 256 (rev p)"
  using assms
proof (induction p arbitrary: b58 len)
  case Nil
  then show ?case by simp
next
  case (Cons ch p)
  let ?v = "horner_sum unat 58 b58"
  obtain b1 i c where step: "mul_add 256 58 (unat ch) 0 len b58 = (b1, i, c)" by (metis prod_cases3)
  have "unat ch + 256 * ?v + 1 \<le> (?v + 1) * 256"
    using byte_less_256 [of ch] by (simp add: algebra_simps Suc_le_eq del: byte_less_256)
  then have "(unat ch + 256 * ?v + 1) * 256 ^ length p \<le> (?v + 1) * 256 * 256 ^ length p"
    by (rule mult_le_mono1)
  then have le: "(unat ch + 256 * ?v + 1) * 256 ^ length p \<le> (?v + 1) * 256 ^ length (ch # p)"
    by (simp only: length_Cons power_Suc mult.assoc)
  have "(1::nat) \<le> 256 ^ length p" by simp
  then have "(unat ch + 256 * ?v + 1) * 1 \<le> (unat ch + 256 * ?v + 1) * 256 ^ length p"
    by (rule mult_le_mono2)
  from order_trans [OF this order_trans [OF le Cons.prems(3)]]
  have "unat ch + 256 * ?v < 58 ^ length b58"
    by (simp only: mult_1_right Suc_eq_plus1 [symmetric] Suc_le_eq)
  from d58.mul_add_fits [OF step Cons.prems(2) this]
  have b1: "d58.digits b1 i" "length b1 = length b58" "horner_sum unat 58 b1 = unat ch + 256 * ?v" by auto
  have "encode_bytes p b1 i = (b', len')" using Cons.prems(1) step by simp
  from Cons.IH [OF this b1(1), unfolded b1(2,3), OF order_trans [OF le Cons.prems(3), folded One_nat_def]]
  have "d58.digits b' len'"
    and "horner_sum unat 58 b' = (unat ch + 256 * ?v) * 256 ^ length p + horner_sum unat 256 (rev p)"
    by blast+
  moreover have "(unat ch + 256 * ?v) * 256 ^ length p + horner_sum unat 256 (rev p)
      = ?v * 256 ^ length (ch # p) + horner_sum unat 256 (rev (ch # p))"
    by (simp add: horner_sum_append distrib_left distrib_right mult.commute mult.left_commute)
  ultimately show ?case by (simp only: simp_thms)
qed

text \<open>\<open>base58\<close> writes a \<open>1\<close> per leading zero byte, then the number without leading zeros.\<close>

lemma base58_spec:
  obtains D where "base58 p = replicate (length (takeWhile (\<lambda>c. c = 0) p)) 49 @ map symbol (rev D)"
    and "\<forall>d \<in> set D. unat d < 58" and "D = [] \<or> last D \<noteq> 0"
    and "horner_sum unat 58 D = horner_sum unat 256 (rev (dropWhile (\<lambda>c. c = 0) p))"
proof -
  let ?body = "dropWhile (\<lambda>c. c = 0) p"
  let ?size = "length ?body * 138 div 100 + 1"
  obtain b58 len where enc: "encode_bytes ?body (replicate ?size 0) 0 = (b58, len)" by (metis surj_pair)
  let ?r = "rev (dropWhile (\<lambda>d. d = 0) (rev (take len b58)))"
  have zero: "d58.digits (replicate ?size 0) 0" by (auto simp: d58.digits_def)
  from encode_bytes_spec [OF enc zero] have "d58.digits b58 len"
    and val: "horner_sum unat 58 b58 = horner_sum unat 256 (rev ?body)"
    using encode_capacity [of "length ?body"] by (simp_all add: r58.value_replicate_0)
  from d58.read_out [OF this(1)] val
  have "\<forall>d \<in> set ?r. unat d < 58" "?r = [] \<or> last ?r \<noteq> 0"
    "horner_sum unat 58 ?r = horner_sum unat 256 (rev ?body)" by auto
  moreover have "base58 p = replicate (length (takeWhile (\<lambda>c. c = 0) p)) 49 @ map symbol (rev ?r)"
    using enc by (simp add: base58_def Let_def symbol_def)
  ultimately show ?thesis by (intro that)
qed

lemma base58_alphabet: "set (base58 p) \<subseteq> set pszBase58"
proof (rule base58_spec [of p])
  fix D :: "byte list"
  assume "base58 p = replicate (length (takeWhile (\<lambda>c. c = 0) p)) 49 @ map symbol (rev D)"
    and "\<forall>d \<in> set D. unat d < 58"
  moreover have "49 \<in> set pszBase58" using pszBase58_facts(1,4) by (metis nth_mem zero_less_numeral)
  ultimately show ?thesis by (auto simp: symbol_in_alphabet)
qed

lemma c_str_base58 [simp]: "c_str (base58 p) = base58 p"
  using base58_alphabet [of p] pszBase58_facts(3) by (intro c_str_id) blast

text \<open>The length and the first two characters of an encoding follow from the size of the number.\<close>

lemma base58_head:
  assumes "hd p \<noteq> 0" and "p \<noteq> []" and "58 \<le> a" and "a < 58 * 58"
    and "a * 58 ^ n \<le> horner_sum unat 256 (rev p)" and "horner_sum unat 256 (rev p) < (a + 1) * 58 ^ n"
  shows "\<exists>rest. base58 p = symbol (of_nat (a div 58)) # symbol (of_nat (a mod 58)) # rest
    \<and> length rest = n"
proof (rule base58_spec [of p])
  fix D :: "byte list"
  let ?v = "horner_sum unat 256 (rev p)"
  have p: "takeWhile (\<lambda>c. c = 0) p = []" "dropWhile (\<lambda>c. c = 0) p = p"
    using assms(1,2) by (cases p; simp)+
  assume "base58 p = replicate (length (takeWhile (\<lambda>c. c = 0) p)) 49 @ map symbol (rev D)"
    and D: "\<forall>d \<in> set D. unat d < 58" "D = [] \<or> last D \<noteq> 0"
    and "horner_sum unat 58 D = horner_sum unat 256 (rev (dropWhile (\<lambda>c. c = 0) p))"
  then have enc: "base58 p = map symbol (rev D)" and val: "horner_sum unat 58 D = ?v"
    by (simp_all add: p del: dropWhile_eq_Nil_conv)
  have "58 * 58 ^ n \<le> a * 58 ^ n" using assms(3) by (rule mult_le_mono1)
  from order_trans [OF this assms(5)] have low: "58 ^ (n + 1) \<le> ?v" by simp
  have "(a + 1) * 58 ^ n \<le> 58 * 58 * 58 ^ n" using assms(4) by (intro mult_le_mono1) simp
  from less_le_trans [OF assms(6) this] have high: "?v < 58 ^ (n + 2)" by (simp add: power_add mult.commute)
  have "D \<noteq> []" using low val by (cases D) auto
  have "58 ^ (n + 1) < (58 :: nat) ^ length D"
    using le_less_trans [OF low] r58.value_less [OF D(1)] val by simp
  then have "n + 1 < length D" by (rule power_less_imp_less_exp [rotated]) simp
  moreover have "58 ^ (length D - 1) < (58 :: nat) ^ (n + 2)"
    using r58.value_ge_last [OF \<open>D \<noteq> []\<close>] D(2) \<open>D \<noteq> []\<close> val high by simp
  then have "length D - 1 < n + 2" by (rule power_less_imp_less_exp [rotated]) simp
  ultimately have lenD: "length D = n + 2" by simp
  define D0 where "D0 = take n D"
  obtain d2 d1 where DD: "D = D0 @ [d2, d1]" and lenD0: "length D0 = n"
  proof
    have "length (drop n D) = 2" using lenD by simp
    then have "drop n D = [drop n D ! 0, drop n D ! 1]"
      by (metis (no_types, lifting) Cons_nth_drop_Suc One_nat_def Suc_1 drop0 drop_eq_Nil lessI order_refl
          zero_less_Suc)
    then show "D = D0 @ [drop n D ! 0, drop n D ! 1]" unfolding D0_def by (metis append_take_drop_id)
    show "length D0 = n" using lenD by (simp add: D0_def)
  qed
  have d: "unat d1 < 58" "unat d2 < 58" "\<forall>d \<in> set D0. unat d < 58" using D(1) DD by auto
  have v0: "horner_sum unat 58 D0 < 58 ^ n" using r58.value_less [OF d(3)] by (simp add: lenD0)
  have v: "?v = horner_sum unat 58 D0 + 58 ^ n * (unat d2 + 58 * unat d1)"
    using val by (simp add: DD horner_sum_append lenD0)
  have "?v div 58 ^ n = unat d2 + 58 * unat d1" using v0 unfolding v by simp
  moreover have "?v div 58 ^ n = a"
    using assms(5,6) by (intro div_nat_eqI) (simp_all add: mult.commute)
  ultimately have "a div 58 = unat d1" "a mod 58 = unat d2" using d by auto
  then show ?thesis by (simp add: enc DD lenD0)
qed

section \<open>What the decoder computes\<close>

definition not_space :: "byte \<Rightarrow> bool" where
  "not_space c \<longleftrightarrow> \<not> isspace c"

lemma decode_room:
  fixes v :: nat
  assumes "k < 58" and le: "(v + 1) * 58 ^ Suc n \<le> B"
  shows "(k + 58 * v + 1) * 58 ^ n \<le> B" and "k + 58 * v < B"
proof -
  have "(k + 58 * v + 1) * 58 ^ n \<le> (v + 1) * 58 * 58 ^ n"
    using assms(1) by (intro mult_le_mono1) simp
  also have "\<dots> = (v + 1) * 58 ^ Suc n" by (simp only: power_Suc mult.assoc)
  finally show 1: "(k + 58 * v + 1) * 58 ^ n \<le> B" using le by linarith
  have "(k + 58 * v + 1) * 1 \<le> (k + 58 * v + 1) * 58 ^ n" by (rule mult_le_mono2) simp
  from order_trans [OF this 1] show "k + 58 * v < B" by simp
qed

lemma decode_chars_spec:
  assumes "d256.digits b256 len"
    and "(horner_sum unat 256 b256 + 1) * 58 ^ length (takeWhile not_space cs) \<le> 256 ^ length b256"
  shows "if set (takeWhile not_space cs) \<subseteq> set pszBase58
    then \<exists>b' len'. decode_chars cs b256 len = Inr (Some (b', len', dropWhile not_space cs))
      \<and> d256.digits b' len'
      \<and> horner_sum unat 256 b' = horner_sum unat 256 b256 * 58 ^ length (takeWhile not_space cs)
          + horner_sum unat 58 (rev (map digit (takeWhile not_space cs)))
    else decode_chars cs b256 len = Inr None"
  using assms
proof (induction cs arbitrary: b256 len)
  case Nil
  then show ?case by simp
next
  case (Cons c cs)
  let ?v = "horner_sum unat 256 b256" and ?core = "takeWhile not_space cs"
  consider "isspace c" | "\<not> isspace c" "c \<notin> set pszBase58" | "\<not> isspace c" "c \<in> set pszBase58" by blast
  then show ?case
  proof cases
    case 1
    with Cons.prems show ?thesis by (simp add: not_space_def)
  next
    case 2
    then show ?thesis by (simp add: not_space_def strchr_None [THEN iffD2])
  next
    case 3
    then obtain k where k: "strchr pszBase58 c = Some k" "k < 58" "k = unat (digit c)"
      using strchr_alphabet by metis
    obtain b1 i carry where step: "mul_add 58 256 k 0 len b256 = (b1, i, carry)" by (metis prod_cases3)
    have core: "takeWhile not_space (c # cs) = c # ?core" "dropWhile not_space (c # cs) = dropWhile not_space cs"
      using 3(1) by (simp_all add: not_space_def)
    from decode_room [OF k(2) Cons.prems(2) [unfolded core, simplified length_Cons]]
    have le: "(k + 58 * ?v + 1) * 58 ^ length ?core \<le> 256 ^ length b256"
      and "k + 58 * ?v < 256 ^ length b256" .
    from d256.mul_add_fits [OF step Cons.prems(1) this(2)]
    have b1: "d256.digits b1 i" "length b1 = length b256" "carry = 0" "horner_sum unat 256 b1 = k + 58 * ?v"
      by auto
    have rec: "decode_chars (c # cs) b256 len = decode_chars cs b1 i"
      using 3(1) k(1) step b1(3) by simp
    from Cons.IH [OF b1(1), unfolded b1(2,4), OF le]
    have "if set ?core \<subseteq> set pszBase58
      then \<exists>b' len'. decode_chars cs b1 i = Inr (Some (b', len', dropWhile not_space cs))
        \<and> d256.digits b' len'
        \<and> horner_sum unat 256 b' = (k + 58 * ?v) * 58 ^ length ?core + horner_sum unat 58 (rev (map digit ?core))
      else decode_chars cs b1 i = Inr None"
      .
    moreover have "(k + 58 * ?v) * 58 ^ length ?core + horner_sum unat 58 (rev (map digit ?core))
        = ?v * 58 ^ length (c # ?core) + horner_sum unat 58 (rev (map digit (c # ?core)))"
      by (simp add: horner_sum_append k(3) algebra_simps)
    ultimately show ?thesis
      unfolding rec core using 3(2) by (simp split: if_splits)
  qed
qed

definition base58_core :: "bytes \<Rightarrow> bytes" where
  "base58_core s = takeWhile not_space (dropWhile isspace s)"

definition base58_wellformed :: "bytes \<Rightarrow> bool" where
  "base58_wellformed s \<longleftrightarrow> set (base58_core s) \<subseteq> set pszBase58
     \<and> (\<forall>c \<in> set (dropWhile not_space (dropWhile isspace s)). isspace c)"

lemma takeWhile_eq_replicate_length: "takeWhile (\<lambda>c. c = x) xs = replicate (length (takeWhile (\<lambda>c. c = x) xs)) x"
  by (induction xs) simp_all

text \<open>The text the decoder sees once the leading ones are gone, in terms of the core.\<close>

lemma base58_after_ones:
  fixes s :: "byte list"
  defines "t \<equiv> dropWhile (\<lambda>c. c = 49) (dropWhile isspace s)"
  shows "takeWhile (\<lambda>c. c = 49) (base58_core s) = takeWhile (\<lambda>c. c = 49) (dropWhile isspace s)"
    and "dropWhile (\<lambda>c. c = 49) (base58_core s) = takeWhile not_space t"
    and "base58_wellformed s \<longleftrightarrow>
      set (takeWhile not_space t) \<subseteq> set pszBase58 \<and> dropWhile isspace (dropWhile not_space t) = []"
proof -
  let ?s = "dropWhile isspace s"
  have not49: "not_space 49" by (simp add: not_space_def isspace_def)
  define n where "n = length (takeWhile (\<lambda>c. c = 49) ?s)"
  have s_split: "?s = replicate n 49 @ t"
    using replicate_dropWhile [of 49 ?s] by (simp add: n_def t_def)
  have ones: "takeWhile (\<lambda>c. c = 49) ?s = replicate n 49"
    unfolding n_def by (rule takeWhile_eq_replicate_length)
  have core: "base58_core s = replicate n 49 @ takeWhile not_space t"
    unfolding base58_core_def by (subst s_split) (simp only: takeWhile_replicate_append [where P = not_space and x = 49, OF not49])
  have rest: "dropWhile not_space ?s = dropWhile not_space t"
    by (subst s_split) (simp only: dropWhile_replicate_append [where P = not_space and x = 49, OF not49])
  have "t = [] \<or> hd t \<noteq> 49"
    using hd_dropWhile [of "\<lambda>c. c = 49" ?s] by (auto simp: t_def)
  then have "takeWhile not_space t = [] \<or> hd (takeWhile not_space t) \<noteq> 49"
    by (cases t) simp_all
  then show "takeWhile (\<lambda>c. c = 49) (base58_core s) = takeWhile (\<lambda>c. c = 49) ?s"
    and "dropWhile (\<lambda>c. c = 49) (base58_core s) = takeWhile not_space t"
    unfolding ones core
    by (simp_all add: takeWhile_replicate_append dropWhile_replicate_append takeWhile_eq_Nil dropWhile_id)
  show "base58_wellformed s \<longleftrightarrow>
      set (takeWhile not_space t) \<subseteq> set pszBase58 \<and> dropWhile isspace (dropWhile not_space t) = []"
    using pszBase58_facts(1,4) nth_mem [of 0 pszBase58]
    by (auto simp: base58_wellformed_def core rest dropWhile_eq_Nil_conv)
qed

text \<open>The buffer the decoder allocates has room for all of the digits.\<close>

lemma decode_chars_fresh:
  fixes t :: "byte list"
  defines "b \<equiv> replicate (length t * 733 div 1000 + 1) (0 :: byte)"
  shows "if set (takeWhile not_space t) \<subseteq> set pszBase58
    then \<exists>b' len'. decode_chars t b 0 = Inr (Some (b', len', dropWhile not_space t))
      \<and> d256.digits b' len'
      \<and> horner_sum unat 256 b' = horner_sum unat 58 (rev (map digit (takeWhile not_space t)))
    else decode_chars t b 0 = Inr None"
proof -
  have zero: "d256.digits b 0" by (auto simp: d256.digits_def b_def)
  have "length (takeWhile not_space t) \<le> length t" by (rule length_takeWhile_le)
  from decode_capacity [OF this]
  have "(horner_sum unat 256 b + 1) * 58 ^ length (takeWhile not_space t) \<le> 256 ^ length b"
    by (simp only: b_def r256.value_replicate_0 length_replicate) simp
  from decode_chars_spec [OF zero this] show ?thesis
    by (simp only: b_def r256.value_replicate_0 mult_zero_left add_0)
qed

lemma DecodeBase58_spec:
  assumes small: "length s < 2 ^ 31"
  defines "z \<equiv> length (takeWhile (\<lambda>c. c = 49) (base58_core s))"
  shows "\<not> base58_wellformed s \<Longrightarrow> DecodeBase58 s = Inr None"
    and "base58_wellformed s \<Longrightarrow> \<exists>E. DecodeBase58 s = Inr (Some (replicate z 0 @ rev E))
      \<and> (E = [] \<or> last E \<noteq> 0)
      \<and> horner_sum unat 256 E
          = horner_sum unat 58 (rev (map digit (dropWhile (\<lambda>c. c = 49) (base58_core s))))"
proof -
  let ?t = "dropWhile (\<lambda>c. c = 49) (dropWhile isspace s)"
  let ?b = "replicate (length ?t * 733 div 1000 + 1) (0 :: byte)"
  note spec = decode_chars_fresh [of ?t] and wf = base58_after_ones(3) [of s]
  show "DecodeBase58 s = Inr None" if "\<not> base58_wellformed s"
  proof (cases "set (takeWhile not_space ?t) \<subseteq> set pszBase58")
    case True
    with spec obtain b' len' where
      "decode_chars ?t ?b 0 = Inr (Some (b', len', dropWhile not_space ?t))" by auto
    moreover have "dropWhile isspace (dropWhile not_space ?t) \<noteq> []" using True that wf by blast
    ultimately show ?thesis by (simp only: DecodeBase58_eq [OF small] Let_def rbind_simps option.case prod.case if_True simp_thms)
  next
    case False
    with spec have "decode_chars ?t ?b 0 = Inr None" by (simp only: if_False)
    then show ?thesis by (simp only: DecodeBase58_eq [OF small] Let_def rbind_simps option.case)
  qed
  assume "base58_wellformed s"
  then obtain b' len' where dec: "decode_chars ?t ?b 0 = Inr (Some (b', len', dropWhile not_space ?t))"
    and b': "d256.digits b' len'"
      "horner_sum unat 256 b' = horner_sum unat 58 (rev (map digit (takeWhile not_space ?t)))"
    and sp: "dropWhile isspace (dropWhile not_space ?t) = []"
    using spec wf by (simp only: if_True) blast
  let ?r = "rev (dropWhile (\<lambda>d. d = 0) (rev (take len' b')))"
  have "DecodeBase58 s = Inr (Some (replicate z 0 @ rev ?r))"
    using dec sp by (simp only: DecodeBase58_eq [OF small] Let_def rbind_simps option.case prod.case if_False
        simp_thms z_def base58_after_ones(1) rev_rev_ident)
  then show "\<exists>E. DecodeBase58 s = Inr (Some (replicate z 0 @ rev E))
      \<and> (E = [] \<or> last E \<noteq> 0)
      \<and> horner_sum unat 256 E
          = horner_sum unat 58 (rev (map digit (dropWhile (\<lambda>c. c = 49) (base58_core s))))"
    using d256.read_out(2,3) [OF b'(1)] b'(2) unfolding base58_after_ones(2) by (intro exI [of _ ?r]) simp
qed

lemma DecodeBase58_not_Inl: "length s < 2 ^ 31 \<Longrightarrow> DecodeBase58 s \<noteq> Inl e"
  using DecodeBase58_spec [of s] by (cases "base58_wellformed s") auto

lemma DecodeBase58_Some_iff: "length s < 2 ^ 31 \<Longrightarrow> (\<exists>v. DecodeBase58 s = Inr (Some v)) \<longleftrightarrow> base58_wellformed s"
  using DecodeBase58_spec [of s] by (cases "base58_wellformed s") auto

section \<open>The two functions are inverse to each other\<close>

lemma takeWhile_replicate_stop: "(xs = [] \<or> hd xs \<noteq> x) \<Longrightarrow> takeWhile (\<lambda>c. c = x) (replicate n x @ xs) = replicate n x"
  by (simp add: takeWhile_replicate_append takeWhile_eq_Nil)

lemma dropWhile_replicate_stop: "(xs = [] \<or> hd xs \<noteq> x) \<Longrightarrow> dropWhile (\<lambda>c. c = x) (replicate n x @ xs) = xs"
  by (simp add: dropWhile_replicate_append dropWhile_id)

lemma base58_core_alphabet:
  assumes "set s \<subseteq> set pszBase58"
  shows "base58_core s = s" and "base58_wellformed s"
proof -
  have ns: "\<not> isspace c" if "c \<in> set s" for c using that assms pszBase58_facts(3) by blast
  then have 1: "dropWhile isspace s = s" by (cases s) auto
  have 2: "takeWhile not_space s = s" using ns by (simp add: takeWhile_eq_all_conv not_space_def)
  have 3: "dropWhile not_space s = []" using ns by (simp add: not_space_def)
  show "base58_core s = s" and "base58_wellformed s"
    unfolding base58_core_def base58_wellformed_def 1 2 3 using assms by simp_all
qed

lemma hd_map_symbol_rev:
  assumes "\<forall>d \<in> set D. unat d < 58" and "D = [] \<or> last D \<noteq> 0"
  shows "map symbol (rev D) = [] \<or> hd (map symbol (rev D)) \<noteq> 49"
proof (cases "D = []")
  case False
  then have "hd (map symbol (rev D)) = symbol (last D)" and "last D \<in> set D"
    by (simp_all add: hd_map hd_rev)
  with assms False show ?thesis using symbol_eq_49 [of "last D"] by auto
qed simp

lemma DecodeBase58_base58:
  assumes "length p * 138 div 100 + 1 < 2 ^ 31"
  shows "DecodeBase58 (base58 p) = Inr (Some p)"
proof -
  let ?n = "length (takeWhile (\<lambda>c. c = 0) p)" and ?body = "dropWhile (\<lambda>c. c = 0) p"
  obtain D where enc: "base58 p = replicate ?n 49 @ map symbol (rev D)"
    and D: "\<forall>d \<in> set D. unat d < 58" "D = [] \<or> last D \<noteq> 0"
    and val: "horner_sum unat 58 D = horner_sum unat 256 (rev ?body)"
    by (rule base58_spec)
  have "49 \<in> set pszBase58" using pszBase58_facts(1,4) nth_mem [of 0 pszBase58] by simp
  then have alpha: "set (base58 p) \<subseteq> set pszBase58"
    unfolding enc using D(1) by (auto intro: symbol_in_alphabet)
  have n: "length (takeWhile (\<lambda>c. c = 49) (base58 p)) = ?n"
    and rest: "dropWhile (\<lambda>c. c = 49) (base58 p) = map symbol (rev D)"
    unfolding enc takeWhile_replicate_stop [OF hd_map_symbol_rev [OF D]]
      dropWhile_replicate_stop [OF hd_map_symbol_rev [OF D]] by simp_all
  have small: "length (base58 p) < 2 ^ 31" using length_base58 [of p] assms by linarith
  have "map digit (map symbol (rev D)) = rev D" using D(1) by (auto simp: digit_symbol intro!: map_idI)
  with DecodeBase58_spec(2) [OF small base58_core_alphabet(2) [OF alpha]] obtain E where
    dec: "DecodeBase58 (base58 p) = Inr (Some (replicate ?n 0 @ rev E))"
    and E: "E = [] \<or> last E \<noteq> 0" "horner_sum unat 256 E = horner_sum unat 58 D"
    unfolding base58_core_alphabet(1) [OF alpha] n rest by auto
  have "E = rev ?body"
  proof (rule r256.value_normal_inj)
    show "rev ?body = [] \<or> last (rev ?body) \<noteq> 0"
      using hd_dropWhile [of "\<lambda>c. c = 0" p] by (auto simp: last_rev)
  qed (use E val in auto)
  then show ?thesis using dec replicate_dropWhile [of 0 p] by simp
qed

lemma base58_DecodeBase58:
  assumes small: "length s < 2 ^ 31" and dec: "DecodeBase58 s = Inr (Some v)"
  shows "base58 v = base58_core s"
proof -
  let ?core = "base58_core s"
  let ?n = "length (takeWhile (\<lambda>c. c = 49) ?core)" and ?t = "dropWhile (\<lambda>c. c = 49) ?core"
  have wf: "base58_wellformed s" using DecodeBase58_Some_iff [OF small] dec by blast
  then have alpha: "set ?t \<subseteq> set pszBase58"
    by (auto simp: base58_wellformed_def dest: set_dropWhileD)
  from DecodeBase58_spec(2) [OF small wf] dec obtain E where v: "v = replicate ?n 0 @ rev E"
    and E: "E = [] \<or> last E \<noteq> 0" "horner_sum unat 256 E = horner_sum unat 58 (rev (map digit ?t))"
    by auto
  have hdE: "rev E = [] \<or> hd (rev E) \<noteq> 0" using E(1) by (auto simp: hd_rev)
  have n: "length (takeWhile (\<lambda>c. c = 0) v) = ?n" and body: "dropWhile (\<lambda>c. c = 0) v = rev E"
    unfolding v takeWhile_replicate_stop [OF hdE] dropWhile_replicate_stop [OF hdE] by simp_all
  obtain D where enc: "base58 v = replicate ?n 49 @ map symbol (rev D)"
    and D: "\<forall>d \<in> set D. unat d < 58" "D = [] \<or> last D \<noteq> 0"
    and val: "horner_sum unat 58 D = horner_sum unat 256 E"
    using base58_spec [of v] unfolding n body rev_rev_ident by metis
  have "D = rev (map digit ?t)"
  proof (rule r58.value_normal_inj)
    show "\<forall>d \<in> set (rev (map digit ?t)). unat d < 58"
      using alpha by (auto intro: digit_less)
    show "rev (map digit ?t) = [] \<or> last (rev (map digit ?t)) \<noteq> 0"
    proof (cases "?t = []")
      case False
      then have "hd ?t \<in> set ?t" "hd ?t \<noteq> 49" using hd_dropWhile [of "\<lambda>c. c = 49" ?core] by simp_all
      moreover from this have "digit (hd ?t) \<noteq> 0" using alpha digit_eq_0 by blast
      ultimately show ?thesis using False by (simp add: last_rev hd_map del: dropWhile_eq_Nil_conv)
    qed simp
  qed (use D val E in auto)
  then have "map symbol (rev D) = ?t"
    using alpha by (auto simp: symbol_digit intro!: map_idI)
  then show ?thesis unfolding enc by (simp add: replicate_dropWhile)
qed

section \<open>Properties\<close>

text \<open>C29: decoding inverts encoding on every byte string, leading zero bytes included, up to the length at
  which the size of the encoder's buffer no longer fits its \<open>int\<close> (about 1.5 GB).\<close>

theorem base58_roundtrip:
  assumes "length p * 138 div 100 + 1 < 2 ^ 31"
  shows "rbind (EncodeBase58BTC p) DecodeBase58 = Inr (Some p)"
  by (simp add: EncodeBase58BTC_eq [OF assms] DecodeBase58_base58 [OF assms])

theorem base58_roundtrip_witness:
  "rbind (EncodeBase58BTC [0, 0, 1, 2, 3]) DecodeBase58 = Inr (Some [0, 0, 1, 2, 3])"
  by (rule base58_roundtrip) simp

text \<open>C37: \<open>DecodeBase58\<close> is total and exact on strings below 1 GB. Its assertion on the size of the work
  buffer never fires; it fails exactly on the strings that are not Base58 digits between optional white
  space; and what it returns re-encodes to the digits it read, so no two digit strings decode alike.\<close>

theorem base58_decode_exact:
  assumes "length s < 2 ^ 30"
  shows "case DecodeBase58 s of
     Inl e \<Rightarrow> False
   | Inr None \<Rightarrow> \<not> base58_wellformed s
   | Inr (Some p) \<Rightarrow> base58_wellformed s \<and> EncodeBase58BTC p = Inr (base58_core s)"
proof -
  have small: "length s < 2 ^ 31" using assms by simp
  have "EncodeBase58BTC p = Inr (base58_core s)" if "DecodeBase58 s = Inr (Some p)" for p
  proof -
    have "length p * 138 div 100 + 1 < 2 ^ 31" using length_DecodeBase58 [OF small that] assms by simp
    then show ?thesis using base58_DecodeBase58 [OF small that] by (simp only: EncodeBase58BTC_eq)
  qed
  then show ?thesis
    using DecodeBase58_not_Inl [OF small] DecodeBase58_Some_iff [OF small]
    by (auto split: sum.splits option.splits)
qed

theorem base58_decode_exact_witness:
  "DecodeBase58 (bs '' 1Zz '') \<noteq> Inr None \<and> DecodeBase58 (bs ''0'') = Inr None"
  using base58_decode_exact [of "bs '' 1Zz ''"] base58_decode_exact [of "bs ''0''"]
  by (auto simp: base58_wellformed_def base58_core_def not_space_def isspace_def pszBase58_def byte_simps
      split: sum.splits option.splits)

end
