(* ===== verification/Sysendian.thy ===== *)
theory Sysendian
  imports Utils2
begin

text \<open>
  \<open>src/src/ethtx/scrypt/sysendian.h\<close>: integers in and out of byte buffers, big- and little-endian.
  A decoder reads the first 4 or 8 bytes at its pointer, an encoder's result is the 4 or 8 bytes it
  writes. The decoders are shown to read base-256 numerals, so they invert the encoders.
\<close>

unbundle bit_operations_syntax

definition be32dec :: "bytes \<Rightarrow> u32" where
  "be32dec p = ucast (p ! 3) + push_bit 8 (ucast (p ! 2)) + push_bit 16 (ucast (p ! 1))
     + push_bit 24 (ucast (p ! 0))"

definition be32enc :: "u32 \<Rightarrow> bytes" where
  "be32enc x = [ucast (drop_bit 24 x AND 0xff), ucast (drop_bit 16 x AND 0xff),
     ucast (drop_bit 8 x AND 0xff), ucast (x AND 0xff)]"

definition be64dec :: "bytes \<Rightarrow> u64" where
  "be64dec p = ucast (p ! 7) + push_bit 8 (ucast (p ! 6)) + push_bit 16 (ucast (p ! 5))
     + push_bit 24 (ucast (p ! 4)) + push_bit 32 (ucast (p ! 3)) + push_bit 40 (ucast (p ! 2))
     + push_bit 48 (ucast (p ! 1)) + push_bit 56 (ucast (p ! 0))"

definition be64enc :: "u64 \<Rightarrow> bytes" where
  "be64enc x = [ucast (drop_bit 56 x AND 0xff), ucast (drop_bit 48 x AND 0xff),
     ucast (drop_bit 40 x AND 0xff), ucast (drop_bit 32 x AND 0xff),
     ucast (drop_bit 24 x AND 0xff), ucast (drop_bit 16 x AND 0xff),
     ucast (drop_bit 8 x AND 0xff), ucast (x AND 0xff)]"

definition le32dec :: "bytes \<Rightarrow> u32" where
  "le32dec p = ucast (p ! 0) + push_bit 8 (ucast (p ! 1)) + push_bit 16 (ucast (p ! 2))
     + push_bit 24 (ucast (p ! 3))"

definition le32enc :: "u32 \<Rightarrow> bytes" where
  "le32enc x = [ucast (x AND 0xff), ucast (drop_bit 8 x AND 0xff),
     ucast (drop_bit 16 x AND 0xff), ucast (drop_bit 24 x AND 0xff)]"

definition le64dec :: "bytes \<Rightarrow> u64" where
  "le64dec p = ucast (p ! 0) + push_bit 8 (ucast (p ! 1)) + push_bit 16 (ucast (p ! 2))
     + push_bit 24 (ucast (p ! 3)) + push_bit 32 (ucast (p ! 4)) + push_bit 40 (ucast (p ! 5))
     + push_bit 48 (ucast (p ! 6)) + push_bit 56 (ucast (p ! 7))"

definition le64enc :: "u64 \<Rightarrow> bytes" where
  "le64enc x = [ucast (x AND 0xff), ucast (drop_bit 8 x AND 0xff),
     ucast (drop_bit 16 x AND 0xff), ucast (drop_bit 24 x AND 0xff),
     ucast (drop_bit 32 x AND 0xff), ucast (drop_bit 40 x AND 0xff),
     ucast (drop_bit 48 x AND 0xff), ucast (drop_bit 56 x AND 0xff)]"

section \<open>Encoding and decoding\<close>

lemma length_enc [simp]:
  "length (be32enc x) = 4" "length (le32enc x) = 4" "length (be64enc y) = 8" "length (le64enc y) = 8"
  by (simp_all add: be32enc_def le32enc_def be64enc_def le64enc_def)

text \<open>The big-endian encoders write the little-endian bytes backwards.\<close>

lemma be32enc_rev: "be32enc x = rev (le32enc x)" and be64enc_rev: "be64enc y = rev (le64enc y)"
  by (simp_all add: be32enc_def le32enc_def be64enc_def le64enc_def)

lemma div_256: "(x :: 'a::len word) div 256 = drop_bit 8 x"
  by (simp add: drop_bit_eq_div)

lemma mod_256: "(x :: 'a::len word) mod 256 = x AND 0xff"
  using take_bit_eq_mask [of 8 x] by (simp add: take_bit_eq_mod mask_eq_exp_minus_1)

lemma integer_bytes_numeral:
  "integer_bytes (numeral k) v = ucast (v mod 256) # integer_bytes (pred_numeral k) (v div 256)"
  by (simp only: numeral_eq_Suc integer_bytes.simps)

text \<open>The little-endian encoders are \<open>IntegerToBuffer\<close> of their width, written without a loop.\<close>

lemma le32enc_IntegerToBuffer: "le32enc x = IntegerToBuffer x"
  by (simp add: le32enc_def IntegerToBuffer_def div_256 mod_256 integer_bytes_numeral)

lemma le64enc_IntegerToBuffer: "le64enc x = IntegerToBuffer x"
  by (simp add: le64enc_def IntegerToBuffer_def div_256 mod_256 integer_bytes_numeral)

text \<open>The decoders read a base-256 numeral.\<close>

lemma le32dec_value: "le32dec [a, b, c, d] = of_nat (horner_sum unat 256 [a, b, c, d])"
  by (simp add: le32dec_def push_bit_eq_mult algebra_simps)

lemma le64dec_value:
  "le64dec [a, b, c, d, e, f, g, h] = of_nat (horner_sum unat 256 [a, b, c, d, e, f, g, h])"
  by (simp add: le64dec_def push_bit_eq_mult algebra_simps)

lemma list_of_4: "length p = 4 \<Longrightarrow> \<exists>a b c d. p = [a, b, c, d]"
  using map_nth [of p] by (simp add: upt_rec) metis

lemma list_of_8: "length p = 8 \<Longrightarrow> \<exists>a b c d e f g h. p = [a, b, c, d, e, f, g, h]"
  using map_nth [of p] by (simp add: upt_rec) metis

lemma le32dec_le32enc: "le32dec (le32enc x) = x"
proof -
  have "le32dec (le32enc x) = of_nat (horner_sum unat 256 (le32enc x))"
    using list_of_4 [of "le32enc x"] le32dec_value by fastforce
  then show ?thesis by (simp add: le32enc_IntegerToBuffer value_IntegerToBuffer)
qed

lemma le64dec_le64enc: "le64dec (le64enc x) = x"
proof -
  have "le64dec (le64enc x) = of_nat (horner_sum unat 256 (le64enc x))"
    using list_of_8 [of "le64enc x"] le64dec_value by fastforce
  then show ?thesis by (simp add: le64enc_IntegerToBuffer value_IntegerToBuffer)
qed

lemma be32dec_rev: "length p = 4 \<Longrightarrow> be32dec p = le32dec (rev p)"
  by (auto dest!: list_of_4 simp: be32dec_def le32dec_def)

lemma be64dec_rev: "length p = 8 \<Longrightarrow> be64dec p = le64dec (rev p)"
  by (auto dest!: list_of_8 simp: be64dec_def le64dec_def)

lemma be32dec_be32enc: "be32dec (be32enc x) = x"
  by (simp add: be32dec_rev) (simp add: be32enc_rev le32dec_le32enc)

lemma be64dec_be64enc: "be64dec (be64enc x) = x"
  by (simp add: be64dec_rev) (simp add: be64enc_rev le64dec_le64enc)

text \<open>A decoder looks at its own field only.\<close>

lemma dec_append:
  "length p = 4 \<Longrightarrow> be32dec (p @ q) = be32dec p" "length p = 4 \<Longrightarrow> le32dec (p @ q) = le32dec p"
  by (auto dest!: list_of_4 simp: be32dec_def le32dec_def)

lemma dec_append64:
  "length p = 8 \<Longrightarrow> be64dec (p @ q) = be64dec p" "length p = 8 \<Longrightarrow> le64dec (p @ q) = le64dec p"
  by (auto dest!: list_of_8 simp: be64dec_def le64dec_def numeral_2_eq_2 numeral_3_eq_3)

lemma le32enc_inj: "le32enc x = le32enc y \<Longrightarrow> x = y"
  by (metis le32dec_le32enc)

lemma le32enc_le32dec: "length p = 4 \<Longrightarrow> le32enc (le32dec p) = p"
proof -
  assume p: "length p = 4"
  then have "le32dec p = of_nat (horner_sum unat 256 p)" using list_of_4 le32dec_value by fastforce
  moreover have "horner_sum unat 256 p < 2 ^ 32" using r256.value_less [of p] p by simp
  ultimately have "unat (le32dec p) = horner_sum unat 256 p"
    by (simp add: unsigned_of_nat take_bit_nat_eq_self)
  moreover have "horner_sum unat 256 (le32enc (le32dec p)) = unat (le32dec p)"
    by (simp add: le32enc_IntegerToBuffer value_IntegerToBuffer)
  ultimately show ?thesis
    using p by (intro r256.value_inj) simp_all
qed

section \<open>Properties\<close>

text \<open>the decoders of \<open>sysendian.h\<close> invert its encoders, for both byte orders and both widths,
  whatever follows the encoded bytes in the buffer.\<close>

theorem sysendian_roundtrip:
  "le32dec (le32enc x @ rest) = x \<and> be32dec (be32enc x @ rest) = x
   \<and> le64dec (le64enc y @ rest) = y \<and> be64dec (be64enc y @ rest) = y"
  by (simp add: dec_append dec_append64 length_enc le32dec_le32enc le64dec_le64enc be32dec_be32enc be64dec_be64enc)

end
