(* ===== verification/Sha256.thy ===== *)
theory Sha256
  imports Sysendian
begin

text \<open>
  \<open>src/src/ethtx/scrypt/sha256.cpp\<close>, the streaming SHA-256 the scrypt code runs on: the context
  (\<open>SHA256_CTX\<close>), the block compression with its working variables rotated by index instead of
  moved, and \<open>Init\<close>, \<open>Update\<close>, \<open>Pad\<close> and \<open>Final\<close>.

  The specification is the standard's: pad the whole message, cut it into blocks of 64 bytes, and
  fold a compression function that shifts eight registers. \<open>stream_hash\<close> is the contract of a
  streaming digest; it is shown for these functions here and for HMAC in \<open>Hmac\<close>.
\<close>

unbundle bit_operations_syntax

definition be32enc_vect :: "u32 list \<Rightarrow> bytes" where
  "be32enc_vect src = concat (map be32enc src)"

text \<open>\<open>be32dec_vect(dst, src, len)\<close> with \<open>n = len / 4\<close>.\<close>

definition be32dec_vect :: "nat \<Rightarrow> bytes \<Rightarrow> u32 list" where
  "be32dec_vect n src = map (\<lambda>i. be32dec (drop (4 * i) src)) [0..<n]"

definition Ch :: "u32 \<Rightarrow> u32 \<Rightarrow> u32 \<Rightarrow> u32" where
  "Ch x y z = (x AND (y XOR z)) XOR z"

definition Maj :: "u32 \<Rightarrow> u32 \<Rightarrow> u32 \<Rightarrow> u32" where
  "Maj x y z = (x AND (y OR z)) OR (y AND z)"

definition ROTR :: "u32 \<Rightarrow> nat \<Rightarrow> u32" where
  "ROTR x n = drop_bit n x OR push_bit (32 - n) x"

definition S0 :: "u32 \<Rightarrow> u32" where "S0 x = ROTR x 2 XOR ROTR x 13 XOR ROTR x 22"
definition S1 :: "u32 \<Rightarrow> u32" where "S1 x = ROTR x 6 XOR ROTR x 11 XOR ROTR x 25"
definition s0 :: "u32 \<Rightarrow> u32" where "s0 x = ROTR x 7 XOR ROTR x 18 XOR drop_bit 3 x"
definition s1 :: "u32 \<Rightarrow> u32" where "s1 x = ROTR x 17 XOR ROTR x 19 XOR drop_bit 10 x"

definition RNDr :: "u32 list \<Rightarrow> u32 list \<Rightarrow> nat \<Rightarrow> u32 \<Rightarrow> u32 list" where
  "RNDr S W i k =
     (let a = S ! ((64 - i) mod 8); b = S ! ((65 - i) mod 8); c = S ! ((66 - i) mod 8);
          d = S ! ((67 - i) mod 8); e = S ! ((68 - i) mod 8); f = S ! ((69 - i) mod 8);
          g = S ! ((70 - i) mod 8); h = S ! ((71 - i) mod 8);
          t0 = h + S1 e + Ch e f g + W ! i + k;
          t1 = S0 a + Maj a b c
      in S[(67 - i) mod 8 := d + t0, (71 - i) mod 8 := t0 + t1])"

definition round_constants :: "u32 list" where
  "round_constants = [
     0x428a2f98, 0x71374491, 0xb5c0fbcf, 0xe9b5dba5, 0x3956c25b, 0x59f111f1, 0x923f82a4, 0xab1c5ed5,
     0xd807aa98, 0x12835b01, 0x243185be, 0x550c7dc3, 0x72be5d74, 0x80deb1fe, 0x9bdc06a7, 0xc19bf174,
     0xe49b69c1, 0xefbe4786, 0x0fc19dc6, 0x240ca1cc, 0x2de92c6f, 0x4a7484aa, 0x5cb0a9dc, 0x76f988da,
     0x983e5152, 0xa831c66d, 0xb00327c8, 0xbf597fc7, 0xc6e00bf3, 0xd5a79147, 0x06ca6351, 0x14292967,
     0x27b70a85, 0x2e1b2138, 0x4d2c6dfc, 0x53380d13, 0x650a7354, 0x766a0abb, 0x81c2c92e, 0x92722c85,
     0xa2bfe8a1, 0xa81a664b, 0xc24b8b70, 0xc76c51a3, 0xd192e819, 0xd6990624, 0xf40e3585, 0x106aa070,
     0x19a4c116, 0x1e376c08, 0x2748774c, 0x34b0bcb5, 0x391c0cb3, 0x4ed8aa4a, 0x5b9cca4f, 0x682e6ff3,
     0x748f82ee, 0x78a5636f, 0x84c87814, 0x8cc70208, 0x90befffa, 0xa4506ceb, 0xbef9a3f7, 0xc67178f2]"

fun schedule :: "nat \<Rightarrow> u32 list \<Rightarrow> u32 list" where
  "schedule 0 W = W"
| "schedule (Suc n) W =
     (let i = length W
      in schedule n (W @ [s1 (W ! (i - 2)) + W ! (i - 7) + s0 (W ! (i - 15)) + W ! (i - 16)]))"

text \<open>The message schedule grows \<open>W\<close> from 16 to 64 words.\<close>

definition SHA256_Transform :: "u32 list \<Rightarrow> bytes \<Rightarrow> u32 list" where
  "SHA256_Transform state block =
     (let W = schedule 48 (be32dec_vect 16 block);
          S = foldl (\<lambda>S i. RNDr S W i (round_constants ! i)) state [0..<64]
      in map2 (+) state S)"

section \<open>The context and its operations\<close>

record SHA256_CTX =
  sha_state :: "u32 list"
  count0 :: u32
  count1 :: u32
  sha_buf :: bytes

definition PAD :: bytes where
  "PAD = 0x80 # replicate 63 0"

text \<open>\<open>Init\<close> leaves the buffer as it is.\<close>

definition libscrypt_SHA256_Init :: "SHA256_CTX \<Rightarrow> SHA256_CTX" where
  "libscrypt_SHA256_Init ctx = ctx\<lparr>count0 := 0, count1 := 0,
     sha_state := [0x6A09E667, 0xBB67AE85, 0x3C6EF372, 0xA54FF53A, 0x510E527F, 0x9B05688C,
       0x1F83D9AB, 0x5BE0CD19]\<rparr>"

text \<open>\<open>memcpy(&buf[r], src, n)\<close> of the whole of \<open>src\<close>.\<close>

definition memcpy_at :: "'a list \<Rightarrow> nat \<Rightarrow> 'a list \<Rightarrow> 'a list" where
  "memcpy_at buf r src = take r buf @ src @ drop (r + length src) buf"

text \<open>The loop over complete blocks: the state it reaches and what is left of \<open>src\<close>.\<close>

fun transform_blocks :: "u32 list \<Rightarrow> bytes \<Rightarrow> u32 list \<times> bytes" where
  "transform_blocks st src =
     (if 64 \<le> length src then transform_blocks (SHA256_Transform st (take 64 src)) (drop 64 src)
      else (st, src))"

declare transform_blocks.simps [simp del]

definition libscrypt_SHA256_Update :: "SHA256_CTX \<Rightarrow> bytes \<Rightarrow> SHA256_CTX" where
  "libscrypt_SHA256_Update ctx src =
     (let r = unat (drop_bit 3 (count1 ctx) AND 0x3f);
          bitlen1 = push_bit 3 (of_nat (length src));
          bitlen0 = of_nat (drop_bit 29 (length src));
          c1 = count1 ctx + bitlen1;
          c0 = (if c1 < bitlen1 then count0 ctx + 1 else count0 ctx) + bitlen0;
          ctx = ctx\<lparr>count0 := c0, count1 := c1\<rparr>
      in if length src < 64 - r then ctx\<lparr>sha_buf := memcpy_at (sha_buf ctx) r src\<rparr>
         else (let buf = memcpy_at (sha_buf ctx) r (take (64 - r) src);
                   st = SHA256_Transform (sha_state ctx) buf;
                   (st, left) = transform_blocks st (drop (64 - r) src)
               in ctx\<lparr>sha_state := st, sha_buf := memcpy_at buf 0 left\<rparr>))"

definition SHA256_Pad :: "SHA256_CTX \<Rightarrow> SHA256_CTX" where
  "SHA256_Pad ctx =
     (let len = be32enc_vect [count0 ctx, count1 ctx];
          r = unat (drop_bit 3 (count1 ctx) AND 0x3f);
          plen = (if r < 56 then 56 - r else 120 - r);
          ctx = libscrypt_SHA256_Update ctx (take plen PAD)
      in libscrypt_SHA256_Update ctx len)"

text \<open>The digest, and the context cleared by \<open>memset\<close>.\<close>

definition libscrypt_SHA256_Final :: "SHA256_CTX \<Rightarrow> bytes \<times> SHA256_CTX" where
  "libscrypt_SHA256_Final ctx =
     (let ctx = SHA256_Pad ctx
      in (be32enc_vect (sha_state ctx),
          \<lparr>sha_state = replicate 8 0, count0 = 0, count1 = 0, sha_buf = replicate 64 0\<rparr>))"

section \<open>The standard\<close>

text \<open>Eight registers \<open>a\<close> to \<open>h\<close> that move by one place in every round.\<close>

fun fips_round :: "u32 list \<Rightarrow> u32 \<Rightarrow> u32 list" where
  "fips_round [a, b, c, d, e, f, g, h] kw =
     (let t1 = h + S1 e + Ch e f g + kw; t2 = S0 a + Maj a b c
      in [t1 + t2, a, b, c, d + t1, e, f, g])"
| "fips_round S kw = S"

definition fips_compress :: "u32 list \<Rightarrow> bytes \<Rightarrow> u32 list" where
  "fips_compress H block =
     (let W = schedule 48 (be32dec_vect 16 block)
      in map2 (+) H (foldl fips_round H (map (\<lambda>i. W ! i + round_constants ! i) [0..<64])))"

definition fips_pad :: "bytes \<Rightarrow> bytes" where
  "fips_pad m = m @ 0x80 # replicate ((119 - length m mod 64) mod 64) 0 @ be64enc (of_nat (8 * length m))"

definition fips_IV :: "u32 list" where
  "fips_IV = [0x6A09E667, 0xBB67AE85, 0x3C6EF372, 0xA54FF53A, 0x510E527F, 0x9B05688C, 0x1F83D9AB,
     0x5BE0CD19]"

definition sha256 :: "bytes \<Rightarrow> bytes" where
  "sha256 m = be32enc_vect
     (foldl (\<lambda>H i. fips_compress H (take 64 (drop (64 * i) (fips_pad m)))) fips_IV
       [0..<length (fips_pad m) div 64])"

section \<open>The contract of a streaming digest\<close>

locale stream_hash =
  fixes init :: "'c \<Rightarrow> 'c"
    and update :: "'c \<Rightarrow> bytes \<Rightarrow> 'c"
    and final :: "'c \<Rightarrow> bytes \<times> 'c"
    and wf :: "'c \<Rightarrow> bool"
    and holds :: "'c \<Rightarrow> bytes \<Rightarrow> bool"
    and hash :: "bytes \<Rightarrow> bytes"
  assumes holds_init: "wf c \<Longrightarrow> holds (init c) []"
    and holds_update: "holds c m \<Longrightarrow> holds (update c x) (m @ x)"
    and final_hash: "holds c m \<Longrightarrow> fst (final c) = hash m"
    and wf_final: "holds c m \<Longrightarrow> wf (snd (final c))"
    and holds_wf: "holds c m \<Longrightarrow> wf c"
begin

lemma holds_updates: "holds c m \<Longrightarrow> holds (foldl update c xs) (m @ concat xs)"
proof (induction xs arbitrary: c m)
  case Nil
  then show ?case by simp
next
  case (Cons x xs)
  from Cons.IH [OF holds_update [OF Cons.prems, of x]] show ?case by simp
qed

lemma hash_updates: "wf c \<Longrightarrow> fst (final (foldl update (init c) xs)) = hash (concat xs)"
  using final_hash [OF holds_updates [OF holds_init]] by fastforce

lemma hash_one: "wf c \<Longrightarrow> fst (final (update (init c) x)) = hash x"
  using hash_updates [of c "[x]"] by simp

lemma hash_two: "wf c \<Longrightarrow> fst (final (update (update (init c) x) y)) = hash (x @ y)"
  using hash_updates [of c "[x, y]"] by simp

end

section \<open>Rotating indices and shifting registers\<close>

text \<open>The register file that the \<open>i\<close>-th round sees: register \<open>a\<close> is at \<open>(64 - i) % 8\<close>.\<close>

definition registers :: "u32 list \<Rightarrow> nat \<Rightarrow> u32 list" where
  "registers S i = map (\<lambda>j. S ! ((64 + j - i) mod 8)) [0..<8]"

lemma length_RNDr [simp]: "length (RNDr S W i k) = length S"
  by (simp add: RNDr_def Let_def)

lemma less_8_cases: "a < 8 \<Longrightarrow> a \<in> {0, 1, 2, 3, 4, 5, 6, 7 :: nat}"
  by (simp, presburger)

lemma rotate_index:
  fixes i :: nat
  assumes "i \<le> 64"
  shows "(64 + j - i) mod 8 = ((64 - i) mod 8 + j) mod 8"
proof -
  have "64 + j - i = (64 - i) + j" using assms by simp
  then show ?thesis by presburger
qed

lemma upt_8: "[0..<8] = [0, 1, 2, 3, 4, 5, 6, 7]"
  by (simp add: upt_rec)

lemma registers_RNDr:
  assumes "length S = 8" and "i < 64"
  shows "registers (RNDr S W i k) (Suc i) = fips_round (registers S i) (W ! i + k)"
proof -
  define a where "a = (64 - i) mod 8"
  obtain x0 x1 x2 x3 x4 x5 x6 x7 where S: "S = [x0, x1, x2, x3, x4, x5, x6, x7]"
    using list_of_8 [OF assms(1)] by blast
  have idx: "(64 + j - i) mod 8 = (a + j) mod 8" for j
    using rotate_index [of i j] assms(2) by (simp add: a_def)
  have idx0: "(64 - i) mod 8 = a" by (simp add: a_def)
  have sidx: "(64 + j - Suc i) mod 8 = (a + (j + 7)) mod 8" for j
  proof -
    have "64 + (j + 7) - i = (64 + j - Suc i) + 8" using assms(2) by simp
    then show ?thesis using idx [of "j + 7"] by (metis mod_add_self2)
  qed
  have e1: "(65 - i) mod 8 = (a + 1) mod 8" using idx [of 1] by simp
  have e2: "(66 - i) mod 8 = (a + 2) mod 8" using idx [of 2] by simp
  have e3: "(67 - i) mod 8 = (a + 3) mod 8" using idx [of 3] by simp
  have e4: "(68 - i) mod 8 = (a + 4) mod 8" using idx [of 4] by simp
  have e5: "(69 - i) mod 8 = (a + 5) mod 8" using idx [of 5] by simp
  have e6: "(70 - i) mod 8 = (a + 6) mod 8" using idx [of 6] by simp
  have e7: "(71 - i) mod 8 = (a + 7) mod 8" using idx [of 7] by simp
  have "a < 8" by (simp add: a_def)
  then have "a = 0 \<or> a = 1 \<or> a = 2 \<or> a = 3 \<or> a = 4 \<or> a = 5 \<or> a = 6 \<or> a = 7"
    using less_8_cases by blast
  then show ?thesis
    unfolding registers_def RNDr_def Let_def upt_8 list.map idx sidx e1 e2 e3 e4 e5 e6 e7 idx0 S
    by (elim disjE) (simp_all add: add.assoc)
qed

lemma foldl_registers:
  assumes "length S = 8" and "n \<le> 64"
  shows "registers (foldl (\<lambda>S i. RNDr S W i (round_constants ! i)) S [0..<n]) n
      = foldl fips_round (registers S 0) (map (\<lambda>i. W ! i + round_constants ! i) [0..<n])
    \<and> length (foldl (\<lambda>S i. RNDr S W i (round_constants ! i)) S [0..<n]) = 8"
  using assms(2) by (induction n) (simp_all add: assms(1) registers_RNDr)

lemma registers_aligned:
  assumes "length S = 8" and "i = 0 \<or> i = 64"
  shows "registers S i = S"
proof -
  obtain x0 x1 x2 x3 x4 x5 x6 x7 where "S = [x0, x1, x2, x3, x4, x5, x6, x7]"
    using list_of_8 [OF assms(1)] by blast
  then show ?thesis using assms(2) by (auto simp: registers_def upt_rec)
qed

lemma SHA256_Transform_fips:
  assumes "length state = 8"
  shows "SHA256_Transform state block = fips_compress state block"
proof -
  define W where "W = schedule 48 (be32dec_vect 16 block)"
  note reg = foldl_registers [OF assms order_refl, of W, unfolded registers_aligned [OF assms disjI1 [OF refl]]]
  note reg [THEN conjunct1, unfolded registers_aligned [OF reg [THEN conjunct2] disjI2 [OF refl]]]
  then show ?thesis by (simp only: SHA256_Transform_def fips_compress_def Let_def W_def)
qed

lemma length_SHA256_Transform:
  assumes "length state = 8"
  shows "length (SHA256_Transform state block) = 8"
  using foldl_registers [OF assms, of 64 "schedule 48 (be32dec_vect 16 block)"]
  by (simp add: SHA256_Transform_def Let_def assms del: upt_rec_numeral)

lemma length_fips_compress: "length state = 8 \<Longrightarrow> length (fips_compress state block) = 8"
  by (metis SHA256_Transform_fips length_SHA256_Transform)

section \<open>Blocks\<close>

lemma transform_blocks_short [simp]: "length src < 64 \<Longrightarrow> transform_blocks st src = (st, src)"
  by (subst transform_blocks.simps) simp

lemma transform_blocks_step:
  "64 \<le> length src
   \<Longrightarrow> transform_blocks st src = transform_blocks (SHA256_Transform st (take 64 src)) (drop 64 src)"
  by (subst transform_blocks.simps) simp

lemma transform_blocks_left: "snd (transform_blocks st src) = drop (64 * (length src div 64)) src"
proof (induction st src rule: transform_blocks.induct)
  case (1 st src)
  show ?case
  proof (cases "64 \<le> length src")
    case True
    then have "64 * (length src div 64) = 64 * ((length src - 64) div 64) + 64"
      using le_div_geq [of 64 "length src"] by simp
    with True 1 show ?thesis by (simp add: transform_blocks_step)
  qed simp
qed

lemma length_transform_blocks_left: "length (snd (transform_blocks st src)) = length src mod 64"
  by (simp add: transform_blocks_left minus_mult_div_eq_mod)

lemma transform_blocks_append:
  "transform_blocks st (src @ x)
   = transform_blocks (fst (transform_blocks st src)) (snd (transform_blocks st src) @ x)"
proof (induction st src rule: transform_blocks.induct)
  case (1 st src)
  then show ?case by (cases "64 \<le> length src") (simp_all add: transform_blocks_step)
qed

lemma length_transform_blocks: "length st = 8 \<Longrightarrow> length (fst (transform_blocks st src)) = 8"
proof (induction st src rule: transform_blocks.induct)
  case (1 st src)
  then show ?case
    by (cases "64 \<le> length src") (simp_all add: transform_blocks_step length_SHA256_Transform)
qed

lemma transform_blocks_fold:
  assumes "length st = 8" and "length p = 64 * n"
  shows "fst (transform_blocks st p) = foldl (\<lambda>H i. fips_compress H (take 64 (drop (64 * i) p))) st [0..<n]"
  using assms
proof (induction n arbitrary: st p)
  case 0
  then show ?case by simp
next
  case (Suc n)
  have shift: "foldl (\<lambda>H i. fips_compress H (take 64 (drop (64 * i) p))) st' [Suc 0..<Suc n]
      = foldl (\<lambda>H i. fips_compress H (take 64 (drop (64 * i) (drop 64 p)))) st' [0..<n]" for st'
    by (simp add: map_Suc_upt [symmetric] foldl_map add.commute del: upt_Suc)
  have "[0..<Suc n] = 0 # [Suc 0..<Suc n]" by (simp add: upt_rec del: upt_Suc)
  with Suc show ?case
    by (simp add: transform_blocks_step shift SHA256_Transform_fips length_fips_compress del: upt_Suc)
qed

section \<open>What a context has absorbed\<close>

definition sha_wf :: "SHA256_CTX \<Rightarrow> bool" where
  "sha_wf c \<longleftrightarrow> length (sha_state c) = 8 \<and> length (sha_buf c) = 64"

definition sha_holds :: "SHA256_CTX \<Rightarrow> bytes \<Rightarrow> bool" where
  "sha_holds c m \<longleftrightarrow> sha_wf c
     \<and> sha_state c = fst (transform_blocks fips_IV m)
     \<and> take (length m mod 64) (sha_buf c) = snd (transform_blocks fips_IV m)
     \<and> count1 c = of_nat (8 * length m) \<and> count0 c = of_nat (8 * length m div 2 ^ 32)"

lemma length_memcpy_at [simp]: "r + length src \<le> length buf \<Longrightarrow> length (memcpy_at buf r src) = length buf"
  by (simp add: memcpy_at_def)

lemma take_memcpy_at: "r \<le> length buf \<Longrightarrow> take (r + length src) (memcpy_at buf r src) = take r buf @ src"
  by (simp add: memcpy_at_def)

lemma memcpy_at_full: "r + length src = length buf \<Longrightarrow> memcpy_at buf r src = take r buf @ src"
  by (simp add: memcpy_at_def)

text \<open>The byte count modulo 64 is in the low word of the bit count.\<close>

lemma mask_6: "(w :: u32) AND 0x3f = take_bit 6 w"
  by (simp add: take_bit_eq_mask mask_eq_exp_minus_1)

lemma unat_take_drop: "unat (take_bit 6 (drop_bit 3 (w :: u32))) = unat w div 8 mod 64"
  apply (simp only: unsigned_take_bit_eq unat_drop_bit_eq)
  apply (simp only: take_bit_eq_mod drop_bit_eq_div)
  apply simp
  done

lemma unat_shift_mask: "unat (drop_bit 3 (w :: u32) AND 0x3f) = unat w div 8 mod 64"
  by (simp only: mask_6 unat_take_drop)

lemma buffered: "unat (drop_bit 3 (of_nat (8 * n) :: u32) AND 0x3f) = n mod 64"
proof -
  have "unat (of_nat (8 * n) :: u32) = 8 * n mod (8 * 2 ^ 29)"
    by (simp only: unsigned_of_nat take_bit_eq_mod) simp
  also have "\<dots> = 8 * (n mod 2 ^ 29)" by (rule mult_mod_right [symmetric])
  finally have "unat (of_nat (8 * n) :: u32) div 8 = n mod 2 ^ 29" by simp
  moreover have "n mod 2 ^ 29 mod 64 = n mod (64 :: nat)" by (rule mod_mod_cancel) (simp add: dvd_def)
  ultimately show ?thesis by (simp only: unat_shift_mask)
qed

text \<open>Adding to the two words of the bit count is addition with the carry passed on.\<close>

lemma div_add_carry:
  fixes q :: nat
  assumes "0 < q"
  shows "(a + b) div q = a div q + b div q + (if (a + b) mod q < b mod q then 1 else 0)"
proof (cases "a mod q + b mod q < q")
  case True
  then have "(a + b) mod q = a mod q + b mod q" by (metis mod_add_eq mod_less)
  then show ?thesis using True by (subst div_add1_eq) simp
next
  case False
  have lt: "a mod q < q" "b mod q < q" using assms by simp_all
  then have less: "a mod q + b mod q < q + q" by (rule add_strict_mono)
  then have "(a mod q + b mod q - q) mod q = a mod q + b mod q - q" using False by (intro mod_less) linarith
  with False have "(a + b) mod q = a mod q + b mod q - q"
    by (metis le_mod_geq linorder_not_less mod_add_eq)
  moreover have "(a mod q + b mod q) div q = 1"
    using False less by (intro div_nat_eqI) simp_all
  moreover have "a mod q + b mod q - q < b mod q" using False lt by linarith
  ultimately show ?thesis by (subst div_add1_eq) simp
qed

lemma unat_u32_of_nat: "unat (of_nat n :: u32) = n mod 2 ^ 32"
  by (simp add: unsigned_of_nat take_bit_eq_mod)

lemma count_add:
  fixes a b :: nat
  shows "(if (of_nat a + of_nat b :: u32) < of_nat b then of_nat (a div 2 ^ 32) + 1 else of_nat (a div 2 ^ 32))
       + of_nat (b div 2 ^ 32) = (of_nat ((a + b) div 2 ^ 32) :: u32)"
proof -
  have "(of_nat a + of_nat b :: u32) < of_nat b \<longleftrightarrow> (a + b) mod 2 ^ 32 < b mod 2 ^ 32"
    by (simp only: word_less_nat_alt of_nat_add [symmetric] unat_u32_of_nat)
  then show ?thesis
    by (simp only: div_add_carry [of "2 ^ 32" a b] zero_less_power zero_less_numeral of_nat_add)
       (simp only: split: if_splits, simp)
qed

lemma sha_holds_Init:
  assumes "sha_wf c"
  shows "sha_holds (libscrypt_SHA256_Init c) []"
  using assms by (simp add: sha_holds_def sha_wf_def libscrypt_SHA256_Init_def fips_IV_def)

text \<open>The bit count in two words of 32 bits.\<close>

lemma count_after:
  fixes c :: SHA256_CTX
  assumes "count1 c = of_nat (8 * m)" and "count0 c = of_nat (8 * m div 2 ^ 32)"
  defines "b1 \<equiv> \<lambda>n. push_bit 3 (of_nat n :: u32)"
  shows "count1 c + b1 n = of_nat (8 * (m + n))"
    and "(if count1 c + b1 n < b1 n then count0 c + 1 else count0 c) + of_nat (drop_bit 29 n)
      = of_nat (8 * (m + n) div 2 ^ 32)"
proof -
  have b1: "b1 n = of_nat (8 * n)" by (simp add: b1_def push_bit_eq_mult)
  then show "count1 c + b1 n = of_nat (8 * (m + n))" by (simp add: assms(1) algebra_simps)
  have "drop_bit 29 n = 8 * n div 2 ^ 32"
    using div_mult_mult1 [of "8 :: nat" n "2 ^ 29"] by (simp add: drop_bit_eq_div)
  then show "(if count1 c + b1 n < b1 n then count0 c + 1 else count0 c) + of_nat (drop_bit 29 n)
      = of_nat (8 * (m + n) div 2 ^ 32)"
    using count_add [of "8 * m" "8 * n"] unfolding assms(1,2) b1 by (simp only: distrib_left)
qed

lemma sha_holds_Update:
  assumes "sha_holds c m"
  shows "sha_holds (libscrypt_SHA256_Update c x) (m @ x)"
proof -
  define r where "r = length m mod 64"
  define st where "st = fst (transform_blocks fips_IV m)"
  define left where "left = snd (transform_blocks fips_IV m)"
  have c: "length (sha_state c) = 8" "length (sha_buf c) = 64" "sha_state c = st" "take r (sha_buf c) = left"
    and cnt: "count1 c = of_nat (8 * length m)" "count0 c = of_nat (8 * length m div 2 ^ 32)"
    using assms unfolding sha_holds_def sha_wf_def r_def st_def left_def by blast+
  have left: "length left = r" "r < 64" by (simp_all add: left_def r_def length_transform_blocks_left)
  have whole: "transform_blocks fips_IV (m @ x) = transform_blocks st (left @ x)"
    by (simp add: transform_blocks_append [of _ m] st_def left_def)
  define b1 :: u32 where "b1 = push_bit 3 (of_nat (length x))"
  define c1 where "c1 = count1 c + b1"
  define c0 where "c0 = (if c1 < b1 then count0 c + 1 else count0 c) + of_nat (drop_bit 29 (length x))"
  note count = count_after [OF cnt, of "length x", folded b1_def, folded c1_def, folded c0_def length_append]
  have upd: "libscrypt_SHA256_Update c x =
     (if length x < 64 - r then c\<lparr>count0 := c0, count1 := c1, sha_buf := memcpy_at (sha_buf c) r x\<rparr>
      else (let buf = memcpy_at (sha_buf c) r (take (64 - r) x);
                (st', left') = transform_blocks (SHA256_Transform (sha_state c) buf) (drop (64 - r) x)
            in c\<lparr>count0 := c0, count1 := c1, sha_state := st', sha_buf := memcpy_at buf 0 left'\<rparr>))"
    unfolding libscrypt_SHA256_Update_def Let_def c0_def c1_def b1_def cnt(1) buffered r_def
    by (simp split: prod.split)
  show ?thesis
  proof (cases "length x < 64 - r")
    case True
    have "(length m + length x) mod 64 = r + length x"
      using True left(2) by (simp add: r_def mod_add_left_eq [symmetric, of "length m" "length x"])
    then show ?thesis
      using True left c take_memcpy_at [of r "sha_buf c" x] count
      by (simp add: sha_holds_def sha_wf_def upd whole)
  next
    case False
    define buf where "buf = memcpy_at (sha_buf c) r (take (64 - r) x)"
    have buf: "buf = left @ take (64 - r) x"
      unfolding buf_def using False left c by (subst memcpy_at_full) simp_all
    obtain st' left' where tb: "transform_blocks (SHA256_Transform st buf) (drop (64 - r) x) = (st', left')"
      by (meson surj_pair)
    have tb': "transform_blocks fips_IV (m @ x) = (st', left')"
      using False left tb by (simp add: whole transform_blocks_step buf)
    have len: "length left' = length (m @ x) mod 64"
      using length_transform_blocks_left [of fips_IV "m @ x"] tb' by simp
    have "length st' = 8"
      using length_transform_blocks [of fips_IV "m @ x"] tb' by (simp add: fips_IV_def)
    moreover have "length buf = 64" using False left by (simp add: buf)
    moreover have "length left' \<le> 64" by (simp add: len)
    ultimately show ?thesis
      using False c tb tb' len count buf take_memcpy_at [of 0 buf left']
      by (simp add: sha_holds_def sha_wf_def upd buf_def [symmetric])
  qed
qed

text \<open>Padding is two more updates, and what they add is the standard's padding.\<close>

lemma fips_pad_eq:
  "fips_pad m = m @ take (if length m mod 64 < 56 then 56 - length m mod 64 else 120 - length m mod 64) PAD
     @ be64enc (of_nat (8 * length m))"
proof -
  define r where "r = length m mod 64"
  have "r < 64" by (simp add: r_def)
  define plen where "plen = (if r < 56 then 56 - r else 120 - r)"
  have "(119 - r) mod 64 = plen - 1" "plen \<noteq> 0" "plen \<le> 64"
    using \<open>r < 64\<close> by (auto simp: plen_def mod_if)
  moreover have "take plen PAD = 0x80 # replicate (plen - 1) 0"
    using \<open>plen \<noteq> 0\<close> \<open>plen \<le> 64\<close> by (cases plen) (simp_all add: PAD_def min_def)
  ultimately show ?thesis unfolding fips_pad_def r_def [symmetric] plen_def [symmetric] by simp
qed

lemma be32enc_be64enc:
  "be32enc (of_nat (n div 2 ^ 32)) @ be32enc (of_nat n) = be64enc (of_nat n)"
proof -
  let ?hi = "IntegerToBuffer (of_nat (n div 2 ^ 32) :: u32)" and ?lo = "IntegerToBuffer (of_nat n :: u32)"
  have val: "horner_sum unat 256 (IntegerToBuffer (of_nat k :: u32)) = k mod 2 ^ 32" for k
    by (subst value_IntegerToBuffer) (simp_all only: unat_u32_of_nat, simp_all)
  have "horner_sum unat 256 (?lo @ ?hi) = n mod 2 ^ 32 + 2 ^ 32 * (n div 2 ^ 32 mod 2 ^ 32)"
    by (simp only: horner_sum_append val length_IntegerToBuffer) simp
  also have "\<dots> = n mod (2 ^ 32 * 2 ^ 32)" by (simp only: mod_mult2_eq add.commute)
  also have "\<dots> = unat (of_nat n :: u64)" by (simp only: unsigned_of_nat take_bit_eq_mod) simp
  finally have "?lo @ ?hi = IntegerToBuffer (of_nat n :: u64)"
    by (intro r256.value_inj) (simp_all add: value_IntegerToBuffer)
  from arg_cong [OF this, of rev] show ?thesis
    by (simp add: be32enc_rev be64enc_rev le32enc_IntegerToBuffer le64enc_IntegerToBuffer)
qed

lemma length_fips_pad: "length (fips_pad m) = 64 * (length (fips_pad m) div 64)"
proof -
  define r q where "r = length m mod 64" and "q = length m div 64"
  have "length m = 64 * q + r" "r < 64" by (simp_all add: r_def q_def)
  then have "length (fips_pad m) = 64 * (if r < 56 then q + 1 else q + 2)"
    unfolding fips_pad_eq r_def [symmetric] by (auto simp: PAD_def)
  then show ?thesis by simp
qed

lemma sha_holds_Pad:
  assumes "sha_holds c m"
  shows "sha_holds (SHA256_Pad c) (fips_pad m)"
proof -
  have cnt: "count1 c = of_nat (8 * length m)" "count0 c = of_nat (8 * length m div 2 ^ 32)"
    using assms unfolding sha_holds_def by blast+
  show ?thesis
    unfolding SHA256_Pad_def Let_def cnt buffered fips_pad_eq append_assoc [symmetric]
      be32enc_vect_def list.map concat.simps append_Nil2 be32enc_be64enc
    by (intro sha_holds_Update assms)
qed

lemma sha_Final:
  assumes "sha_holds c m"
  shows "fst (libscrypt_SHA256_Final c) = sha256 m" and "sha_wf (snd (libscrypt_SHA256_Final c))"
proof -
  have "sha_state (SHA256_Pad c) = fst (transform_blocks fips_IV (fips_pad m))"
    using sha_holds_Pad [OF assms] by (simp add: sha_holds_def)
  also have "\<dots> = foldl (\<lambda>H i. fips_compress H (take 64 (drop (64 * i) (fips_pad m)))) fips_IV
      [0..<length (fips_pad m) div 64]"
    by (rule transform_blocks_fold) (simp add: fips_IV_def, rule length_fips_pad)
  finally show "fst (libscrypt_SHA256_Final c) = sha256 m"
    by (simp only: libscrypt_SHA256_Final_def sha256_def Let_def fst_conv)
  show "sha_wf (snd (libscrypt_SHA256_Final c))"
    by (simp add: libscrypt_SHA256_Final_def sha_wf_def)
qed

interpretation sha: stream_hash libscrypt_SHA256_Init libscrypt_SHA256_Update libscrypt_SHA256_Final
  sha_wf sha_holds sha256
proof unfold_locales
  show "sha_holds c m \<Longrightarrow> sha_wf c" for c m by (simp add: sha_holds_def)
qed (auto intro: sha_holds_Init sha_holds_Update sha_Final)

lemma length_be32enc_vect [simp]: "length (be32enc_vect ws) = 4 * length ws"
  by (induction ws) (simp_all add: be32enc_vect_def)

lemma length_sha256 [simp]: "length (sha256 m) = 32"
proof -
  have "length (foldl (\<lambda>H i. fips_compress H (f i)) st is) = 8" if "length st = 8" for f :: "nat \<Rightarrow> bytes" and st "is"
    using that by (induction "is" arbitrary: st) (simp_all add: length_fips_compress)
  then show ?thesis by (simp add: sha256_def fips_IV_def)
qed

section \<open>Properties\<close>

text \<open>The compression function, whose rounds leave the eight working variables in place and
  rotate the indices they are used under, is the standard's, whose rounds shift eight registers.\<close>

theorem sha256_transform_refines:
  assumes "length state = 8"
  shows "SHA256_Transform state block = fips_compress state block"
  using assms by (rule SHA256_Transform_fips)

theorem sha256_transform_refines_witness:
  "SHA256_Transform fips_IV (replicate 64 0) = fips_compress fips_IV (replicate 64 0)"
  by (rule sha256_transform_refines) (simp add: fips_IV_def)

text \<open>C20: however a message is cut into \<open>Update\<close> calls, \<open>Init\<close>, those updates and \<open>Final\<close> give
  the SHA-256 digest of the whole message: the partial block kept in the context, the block loop,
  the two-word bit count with its carry and the padding are the standard's. The context \<open>Init\<close>
  starts from can be any one (the eight state words and the 64-byte buffer of the struct).\<close>

theorem sha256_streaming:
  assumes "length (sha_state ctx) = 8" and "length (sha_buf ctx) = 64"
  shows "fst (libscrypt_SHA256_Final
     (foldl libscrypt_SHA256_Update (libscrypt_SHA256_Init ctx) parts)) = sha256 (concat parts)"
  using assms by (intro sha.hash_updates) (simp add: sha_wf_def)

text \<open>A context as a function may find it on its stack.\<close>

definition stale_ctx :: SHA256_CTX where
  "stale_ctx = \<lparr>sha_state = replicate 8 7, count0 = 5, count1 = 3, sha_buf = replicate 64 9\<rparr>"

lemma sha_wf_stale_ctx: "sha_wf stale_ctx"
  by (simp add: stale_ctx_def sha_wf_def)

theorem sha256_streaming_witness:
  "fst (libscrypt_SHA256_Final
     (foldl libscrypt_SHA256_Update
       (libscrypt_SHA256_Init stale_ctx)
       [[97], [], [98, 99]])) = sha256 [97, 98, 99]"
  using sha256_streaming [of stale_ctx "[[97], [], [98, 99]]"] by (simp add: stale_ctx_def)

end
