(* ===== verification/Hmac.thy ===== *)
theory Hmac
  imports Sha256
begin

text \<open>
  \<open>src/src/ethtx/scrypt/sha256.cpp\<close>, from \<open>libscrypt_HMAC_SHA256_Init\<close> on: HMAC over the streaming
  digest of \<open>Sha256\<close>, and PBKDF2 over HMAC. The specifications are RFC 2104 and RFC 2898 over
  \<open>sha256\<close>. HMAC meets the same contract \<open>stream_hash\<close> as the digest it is built from.
\<close>

unbundle bit_operations_syntax

section \<open>HMAC\<close>

record HMAC_SHA256_CTX =
  ictx :: SHA256_CTX
  octx :: SHA256_CTX

text \<open>\<open>for (i = 0; i < Klen; i++) pad[i] ^= K[i]\<close>\<close>

definition xor_into :: "bytes \<Rightarrow> bytes \<Rightarrow> bytes" where
  "xor_into pad K = map2 (XOR) (take (length K) pad) K @ drop (length K) pad"

definition libscrypt_HMAC_SHA256_Init :: "HMAC_SHA256_CTX \<Rightarrow> bytes \<Rightarrow> HMAC_SHA256_CTX" where
  "libscrypt_HMAC_SHA256_Init ctx K =
     (let (K, ctx) =
           (if 64 < length K
            then (let c = libscrypt_SHA256_Update (libscrypt_SHA256_Init (ictx ctx)) K;
                      (khash, c) = libscrypt_SHA256_Final c
                  in (khash, ctx\<lparr>ictx := c\<rparr>))
            else (K, ctx));
          ctx = ctx\<lparr>ictx := libscrypt_SHA256_Init (ictx ctx)\<rparr>;
          ctx = ctx\<lparr>ictx := libscrypt_SHA256_Update (ictx ctx) (xor_into (replicate 64 0x36) K)\<rparr>;
          ctx = ctx\<lparr>octx := libscrypt_SHA256_Init (octx ctx)\<rparr>
      in ctx\<lparr>octx := libscrypt_SHA256_Update (octx ctx) (xor_into (replicate 64 0x5c) K)\<rparr>)"

definition libscrypt_HMAC_SHA256_Update :: "HMAC_SHA256_CTX \<Rightarrow> bytes \<Rightarrow> HMAC_SHA256_CTX" where
  "libscrypt_HMAC_SHA256_Update ctx src = ctx\<lparr>ictx := libscrypt_SHA256_Update (ictx ctx) src\<rparr>"

definition libscrypt_HMAC_SHA256_Final :: "HMAC_SHA256_CTX \<Rightarrow> bytes \<times> HMAC_SHA256_CTX" where
  "libscrypt_HMAC_SHA256_Final ctx =
     (let (ihash, i) = libscrypt_SHA256_Final (ictx ctx);
          outer = libscrypt_SHA256_Update (octx ctx) ihash;
          (digest, outer) = libscrypt_SHA256_Final outer
      in (digest, ctx\<lparr>ictx := i, octx := outer\<rparr>))"

section \<open>PBKDF2\<close>

text \<open>
  The loop \<open>for (j = 2; j <= c; j++)\<close> runs \<open>c - 1\<close> times, here counted down (for
  \<open>c = UINT64_MAX\<close> the code's loop would not end; the sources only pass 1).
\<close>

fun PBKDF2_inner :: "bytes \<Rightarrow> nat \<Rightarrow> HMAC_SHA256_CTX \<Rightarrow> bytes \<Rightarrow> bytes \<Rightarrow> bytes" where
  "PBKDF2_inner passwd 0 hctx U T = T"
| "PBKDF2_inner passwd (Suc n) hctx U T =
     (let hctx = libscrypt_HMAC_SHA256_Init hctx passwd;
          hctx = libscrypt_HMAC_SHA256_Update hctx U;
          (U, hctx) = libscrypt_HMAC_SHA256_Final hctx
      in PBKDF2_inner passwd n hctx U (map2 (XOR) T U))"

definition PBKDF2_block :: "HMAC_SHA256_CTX \<Rightarrow> bytes \<Rightarrow> u64 \<Rightarrow> nat \<Rightarrow> bytes" where
  "PBKDF2_block PShctx passwd c i =
     (let ivec = be32enc (of_nat (i + 1));
          hctx = libscrypt_HMAC_SHA256_Update PShctx ivec;
          (U, hctx) = libscrypt_HMAC_SHA256_Final hctx
      in PBKDF2_inner passwd (unat c - 1) hctx U U)"

text \<open>The bytes written to \<open>buf\<close>, from block \<open>i\<close> on.\<close>

function PBKDF2_loop :: "HMAC_SHA256_CTX \<Rightarrow> bytes \<Rightarrow> u64 \<Rightarrow> nat \<Rightarrow> nat \<Rightarrow> bytes" where
  "PBKDF2_loop PShctx passwd c dkLen i =
     (if i * 32 < dkLen
      then (let T = PBKDF2_block PShctx passwd c i;
                clen = dkLen - i * 32;
                clen = (if 32 < clen then 32 else clen)
            in take clen T @ PBKDF2_loop PShctx passwd c dkLen (Suc i))
      else [])"
  by pat_completeness auto
termination by (relation "measure (\<lambda>(_, _, _, dkLen, i). dkLen - i * 32)") auto

declare PBKDF2_loop.simps [simp del]

text \<open>The local \<open>HMAC_SHA256_CTX\<close> starts with whatever is on the stack.\<close>

definition libscrypt_PBKDF2_SHA256 ::
    "HMAC_SHA256_CTX \<Rightarrow> bytes \<Rightarrow> bytes \<Rightarrow> u64 \<Rightarrow> nat \<Rightarrow> bytes" where
  "libscrypt_PBKDF2_SHA256 stack passwd salt c dkLen =
     (let PShctx = libscrypt_HMAC_SHA256_Init stack passwd;
          PShctx = libscrypt_HMAC_SHA256_Update PShctx salt
      in PBKDF2_loop PShctx passwd c dkLen 0)"

section \<open>The standards\<close>

definition hmac_key :: "bytes \<Rightarrow> bytes" where
  "hmac_key K = (let k = (if 64 < length K then sha256 K else K) in k @ replicate (64 - length k) 0)"

definition hmac :: "bytes \<Rightarrow> bytes \<Rightarrow> bytes" where
  "hmac K m = sha256 (map (\<lambda>b. b XOR 0x5c) (hmac_key K)
     @ sha256 (map (\<lambda>b. b XOR 0x36) (hmac_key K) @ m))"

fun pbkdf2_U :: "bytes \<Rightarrow> bytes \<Rightarrow> u32 \<Rightarrow> nat \<Rightarrow> bytes" where
  "pbkdf2_U P S i 0 = hmac P (S @ be32enc i)"
| "pbkdf2_U P S i (Suc j) = hmac P (pbkdf2_U P S i j)"

definition pbkdf2_F :: "bytes \<Rightarrow> bytes \<Rightarrow> nat \<Rightarrow> u32 \<Rightarrow> bytes" where
  "pbkdf2_F P S c i = foldl (map2 (XOR)) (pbkdf2_U P S i 0) (map (pbkdf2_U P S i) [1..<c])"

definition pbkdf2 :: "bytes \<Rightarrow> bytes \<Rightarrow> nat \<Rightarrow> nat \<Rightarrow> bytes" where
  "pbkdf2 P S c dkLen =
     take dkLen (concat (map (\<lambda>i. pbkdf2_F P S c (of_nat (i + 1))) [0..<(dkLen + 31) div 32]))"

section \<open>HMAC meets the contract of a streaming digest\<close>

lemma xor_into_replicate:
  assumes "length K \<le> n"
  shows "xor_into (replicate n p) K = map (\<lambda>b. b XOR p) (K @ replicate (n - length K) 0)"
proof -
  have "map2 (XOR) (replicate (length K) p) K = map (\<lambda>b. b XOR p) K"
    by (induction K) (simp_all add: xor.commute)
  with assms show ?thesis by (simp add: xor_into_def min_def)
qed

definition hmac_wf :: "HMAC_SHA256_CTX \<Rightarrow> bool" where
  "hmac_wf c \<longleftrightarrow> sha_wf (ictx c) \<and> sha_wf (octx c)"

definition hmac_holds :: "bytes \<Rightarrow> HMAC_SHA256_CTX \<Rightarrow> bytes \<Rightarrow> bool" where
  "hmac_holds K c m \<longleftrightarrow> sha_holds (ictx c) (map (\<lambda>b. b XOR 0x36) (hmac_key K) @ m)
     \<and> sha_holds (octx c) (map (\<lambda>b. b XOR 0x5c) (hmac_key K))"

lemma sha_holds_start: "sha_wf c \<Longrightarrow> sha_holds (libscrypt_SHA256_Update (libscrypt_SHA256_Init c) x) x"
  using sha_holds_Update [OF sha_holds_Init, of c x] by simp

lemma hmac_holds_Init:
  assumes "hmac_wf c"
  shows "hmac_holds K (libscrypt_HMAC_SHA256_Init c K) []"
proof (cases "64 < length K")
  case False
  then show ?thesis
    using assms
    by (simp add: hmac_holds_def hmac_wf_def libscrypt_HMAC_SHA256_Init_def hmac_key_def
        xor_into_replicate sha_holds_start)
next
  case True
  obtain khash c' where fin: "libscrypt_SHA256_Final
      (libscrypt_SHA256_Update (libscrypt_SHA256_Init (ictx c)) K) = (khash, c')"
    by (meson surj_pair)
  have "sha_holds (libscrypt_SHA256_Update (libscrypt_SHA256_Init (ictx c)) K) K"
    using assms by (simp add: hmac_wf_def sha_holds_start)
  from sha_Final [OF this] fin have "khash = sha256 K" "sha_wf c'" by simp_all
  with True assms fin show ?thesis
    by (simp add: hmac_holds_def hmac_wf_def libscrypt_HMAC_SHA256_Init_def hmac_key_def
        xor_into_replicate sha_holds_start)
qed

lemma hmac_holds_Update:
  "hmac_holds K c m \<Longrightarrow> hmac_holds K (libscrypt_HMAC_SHA256_Update c x) (m @ x)"
  using sha_holds_Update [of "ictx c" "map (\<lambda>b. b XOR 0x36) (hmac_key K) @ m" x]
  by (simp add: hmac_holds_def libscrypt_HMAC_SHA256_Update_def)

lemma hmac_Final:
  assumes "hmac_holds K c m"
  shows "fst (libscrypt_HMAC_SHA256_Final c) = hmac K m"
    and "hmac_wf (snd (libscrypt_HMAC_SHA256_Final c))"
proof -
  obtain ihash i where fin: "libscrypt_SHA256_Final (ictx c) = (ihash, i)" by (meson surj_pair)
  from assms have inner: "sha_holds (ictx c) (map (\<lambda>b. b XOR 0x36) (hmac_key K) @ m)"
    and outer: "sha_holds (octx c) (map (\<lambda>b. b XOR 0x5c) (hmac_key K))"
    by (simp_all add: hmac_holds_def)
  obtain digest outer' where fin': "libscrypt_SHA256_Final (libscrypt_SHA256_Update (octx c) ihash)
      = (digest, outer')" by (meson surj_pair)
  show "fst (libscrypt_HMAC_SHA256_Final c) = hmac K m"
    using sha_Final [OF inner] sha_Final [OF sha_holds_Update [OF outer, of ihash]] fin fin'
    by (simp add: libscrypt_HMAC_SHA256_Final_def hmac_def)
  show "hmac_wf (snd (libscrypt_HMAC_SHA256_Final c))"
    using sha_Final [OF inner] sha_Final [OF sha_holds_Update [OF outer, of ihash]] fin fin'
    by (simp add: libscrypt_HMAC_SHA256_Final_def hmac_wf_def)
qed

interpretation hmac: stream_hash "\<lambda>c. libscrypt_HMAC_SHA256_Init c K" libscrypt_HMAC_SHA256_Update
  libscrypt_HMAC_SHA256_Final hmac_wf "hmac_holds K" "hmac K" for K
proof unfold_locales
  show "hmac_holds K c m \<Longrightarrow> hmac_wf c" for c m by (simp add: hmac_holds_def hmac_wf_def sha_holds_def)
qed (auto intro: hmac_holds_Init hmac_holds_Update hmac_Final)

lemma length_hmac [simp]: "length (hmac K m) = 32"
  by (simp add: hmac_def)

section \<open>PBKDF2 meets its standard\<close>

lemma PBKDF2_inner_eq:
  assumes "hmac_wf hctx"
  shows "PBKDF2_inner P n hctx (pbkdf2_U P S i k) T
    = foldl (map2 (XOR)) T (map (pbkdf2_U P S i) [Suc k..<Suc k + n])"
  using assms
proof (induction n arbitrary: hctx k T)
  case 0
  then show ?case by simp
next
  case (Suc n)
  define c where "c = libscrypt_HMAC_SHA256_Update (libscrypt_HMAC_SHA256_Init hctx P) (pbkdf2_U P S i k)"
  obtain U hctx' where fin: "libscrypt_HMAC_SHA256_Final c = (U, hctx')" by (meson surj_pair)
  have "hmac_holds P c (pbkdf2_U P S i k)"
    unfolding c_def using hmac_holds_Update [OF hmac_holds_Init [OF Suc.prems], of P] by simp
  from hmac_Final [OF this] fin have "U = pbkdf2_U P S i (Suc k)" "hmac_wf hctx'" by simp_all
  with Suc.IH [of hctx' "Suc k"] fin show ?case
    by (simp add: c_def upt_conv_Cons del: upt_Suc)
qed

lemma PBKDF2_block_eq:
  assumes "hmac_holds P c S"
  shows "PBKDF2_block c P n i = pbkdf2_F P S (unat n) (of_nat (i + 1))"
proof -
  define h where "h = libscrypt_HMAC_SHA256_Update c (be32enc (of_nat (i + 1)))"
  obtain U hctx where fin: "libscrypt_HMAC_SHA256_Final h = (U, hctx)" by (meson surj_pair)
  have "hmac_holds P h (S @ be32enc (of_nat (i + 1)))"
    unfolding h_def using assms by (rule hmac_holds_Update)
  from hmac_Final [OF this] fin have U: "U = pbkdf2_U P S (of_nat (i + 1)) 0" and wf: "hmac_wf hctx"
    by simp_all
  have "[1..<1 + (unat n - 1)] = [1..<unat n]" by (cases "unat n") simp_all
  with PBKDF2_inner_eq [OF wf, of P "unat n - 1" S "of_nat (i + 1)" 0 U] fin show ?thesis
    unfolding PBKDF2_block_def pbkdf2_F_def Let_def h_def [symmetric] U by simp
qed

lemma length_pbkdf2_U [simp]: "length (pbkdf2_U P S i j) = 32"
  by (cases j) simp_all

lemma length_pbkdf2_F [simp]: "length (pbkdf2_F P S c i) = 32"
proof -
  have "length (foldl (map2 (XOR)) T (map (pbkdf2_U P S i) js)) = 32" if "length T = 32" for T js
    using that by (induction js arbitrary: T) simp_all
  then show ?thesis by (simp add: pbkdf2_F_def)
qed

lemma PBKDF2_loop_eq:
  assumes "hmac_holds P c S"
  shows "PBKDF2_loop c P n dkLen i = take (dkLen - i * 32)
    (concat (map (\<lambda>i. pbkdf2_F P S (unat n) (of_nat (i + 1))) [i..<(dkLen + 31) div 32]))"
  using assms
proof (induction c P n dkLen i rule: PBKDF2_loop.induct)
  case (1 c P n dkLen i)
  show ?case
  proof (cases "i * 32 < dkLen")
    case False
    then show ?thesis by (subst PBKDF2_loop.simps) simp
  next
    case True
    then have "i < (dkLen + 31) div 32" by linarith
    then have "[i..<(dkLen + 31) div 32] = i # [Suc i..<(dkLen + 31) div 32]" by (rule upt_conv_Cons)
    moreover have "dkLen - Suc i * 32 = dkLen - i * 32 - 32" by simp
    ultimately show ?thesis
      using 1 True
      by (subst PBKDF2_loop.simps) (simp add: PBKDF2_block_eq [OF 1(2)] Let_def del: mult_Suc)
  qed
qed

lemma libscrypt_PBKDF2_SHA256_eq:
  assumes "hmac_wf stack"
  shows "libscrypt_PBKDF2_SHA256 stack P S c dkLen = pbkdf2 P S (unat c) dkLen"
proof -
  have "hmac_holds P (libscrypt_HMAC_SHA256_Update (libscrypt_HMAC_SHA256_Init stack P) S) S"
    using hmac_holds_Update [OF hmac_holds_Init [OF assms], of P] by simp
  from PBKDF2_loop_eq [OF this] show ?thesis
    by (simp add: libscrypt_PBKDF2_SHA256_def pbkdf2_def)
qed

lemma length_pbkdf2 [simp]: "length (pbkdf2 P S c dkLen) = dkLen"
proof -
  have "length (concat (map (\<lambda>i. pbkdf2_F P S c (of_nat (i + 1))) [0..<n])) = 32 * n" for n
    by (induction n) simp_all
  then show ?thesis unfolding pbkdf2_def by simp
qed

section \<open>Properties\<close>

text \<open>C22: HMAC computed through \<open>Init\<close>, any number of \<open>Update\<close> calls and \<open>Final\<close> is RFC 2104's
  HMAC-SHA-256 of the concatenated data, for keys shorter and longer than a block, whatever the
  context held before.\<close>

theorem hmac_streaming:
  assumes "hmac_wf ctx"
  shows "fst (libscrypt_HMAC_SHA256_Final
     (foldl libscrypt_HMAC_SHA256_Update (libscrypt_HMAC_SHA256_Init ctx K) parts)) = hmac K (concat parts)"
  using assms by (rule hmac.hash_updates)

theorem hmac_streaming_witness:
  "fst (libscrypt_HMAC_SHA256_Final (foldl libscrypt_HMAC_SHA256_Update
     (libscrypt_HMAC_SHA256_Init \<lparr>ictx = stale_ctx, octx = stale_ctx\<rparr> [1, 2, 3]) [[97], [98, 99]]))
   = hmac [1, 2, 3] [97, 98, 99]"
  using hmac_streaming [of "\<lparr>ictx = stale_ctx, octx = stale_ctx\<rparr>" "[1, 2, 3]" "[[97], [98, 99]]"]
  by (simp add: hmac_wf_def sha_wf_stale_ctx)

text \<open>C21: \<open>libscrypt_PBKDF2_SHA256\<close>, which keeps the HMAC state after the password and the salt and
  copies it for every block, writes the first \<open>dkLen\<close> bytes of RFC 2898's key derivation, for every
  password, salt, length and every iteration count the code's loop can count past; what its stack
  held before does not matter.\<close>

theorem pbkdf2_refines:
  assumes "hmac_wf stack" and "c < 0xFFFFFFFFFFFFFFFF"
  shows "libscrypt_PBKDF2_SHA256 stack passwd salt c dkLen = pbkdf2 passwd salt (unat c) dkLen
     \<and> length (libscrypt_PBKDF2_SHA256 stack passwd salt c dkLen) = dkLen"
  using libscrypt_PBKDF2_SHA256_eq [OF assms(1)] by simp

theorem pbkdf2_refines_witness:
  "libscrypt_PBKDF2_SHA256 \<lparr>ictx = stale_ctx, octx = stale_ctx\<rparr> [112] [115] 2 40 = pbkdf2 [112] [115] 2 40"
  using pbkdf2_refines [of "\<lparr>ictx = stale_ctx, octx = stale_ctx\<rparr>" 2 "[112]" "[115]" 40]
  by (simp add: hmac_wf_def sha_wf_stale_ctx)

end
