(* ===== verification/Scrypt.thy ===== *)
theory Scrypt
  imports Hmac
begin

text \<open>
  \<open>src/src/ethtx/scrypt/crypto_scrypt-nosse.cpp\<close>: the Salsa20/8 core on a word array, the block mix
  that writes even and odd blocks to the two halves of its output, \<open>smix\<close> with its two buffers used
  in turn, and \<open>libscrypt_scrypt\<close> with its parameter checks and 32-bit size computations.

  A word array is a list of 32-bit words. The specification is RFC 7914: the Salsa20 core as double
  rounds of quarter rounds, \<open>scryptBlockMix\<close>, \<open>scryptROMix\<close> with its table of all intermediate
  values, and the two calls of PBKDF2 around them.
\<close>

unbundle bit_operations_syntax

section \<open>Block operations\<close>

text \<open>Copying and xoring go by \<open>size_t\<close>, that is by two words at a time: \<open>len\<close> is in bytes.\<close>

definition blkcpy :: "u32 list \<Rightarrow> u32 list \<Rightarrow> nat \<Rightarrow> u32 list" where
  "blkcpy D S len = (let n = len div 8 * 2 in take n S @ drop n D)"

definition blkxor :: "u32 list \<Rightarrow> u32 list \<Rightarrow> nat \<Rightarrow> u32 list" where
  "blkxor D S len = (let n = len div 8 * 2 in map2 (XOR) (take n D) (take n S) @ drop n D)"

text \<open>An operation on the array that starts at \<open>&D[k]\<close>.\<close>

definition at_offset :: "nat \<Rightarrow> ('a list \<Rightarrow> 'a list) \<Rightarrow> 'a list \<Rightarrow> 'a list" where
  "at_offset k f D = take k D @ f (drop k D)"

section \<open>Salsa20/8\<close>

definition R :: "u32 \<Rightarrow> nat \<Rightarrow> u32" where
  "R a b = push_bit b a OR drop_bit (32 - b) a"

text \<open>\<open>x[t] ^= R(x[a]+x[b], k)\<close>\<close>

fun salsa_op :: "u32 list \<Rightarrow> nat \<times> nat \<times> nat \<times> nat \<Rightarrow> u32 list" where
  "salsa_op x (t, a, b, k) = x[t := x ! t XOR R (x ! a + x ! b) k]"

definition column_ops :: "(nat \<times> nat \<times> nat \<times> nat) list" where
  "column_ops = [
     (4, 0, 12, 7), (8, 4, 0, 9), (12, 8, 4, 13), (0, 12, 8, 18),
     (9, 5, 1, 7), (13, 9, 5, 9), (1, 13, 9, 13), (5, 1, 13, 18),
     (14, 10, 6, 7), (2, 14, 10, 9), (6, 2, 14, 13), (10, 6, 2, 18),
     (3, 15, 11, 7), (7, 3, 15, 9), (11, 7, 3, 13), (15, 11, 7, 18)]"

definition row_ops :: "(nat \<times> nat \<times> nat \<times> nat) list" where
  "row_ops = [
     (1, 0, 3, 7), (2, 1, 0, 9), (3, 2, 1, 13), (0, 3, 2, 18),
     (6, 5, 4, 7), (7, 6, 5, 9), (4, 7, 6, 13), (5, 4, 7, 18),
     (11, 10, 9, 7), (8, 11, 10, 9), (9, 8, 11, 13), (10, 9, 8, 18),
     (12, 15, 14, 7), (13, 12, 15, 9), (14, 13, 12, 13), (15, 14, 13, 18)]"

definition salsa20_8 :: "u32 list \<Rightarrow> u32 list" where
  "salsa20_8 B =
     (let x = blkcpy (replicate 16 0) B 64;
          x = foldl (\<lambda>x i. foldl salsa_op (foldl salsa_op x column_ops) row_ops) x [0, 2, 4, 6 :: nat]
      in map2 (+) B x)"

section \<open>Block mix\<close>

text \<open>One turn of the loop, for the even \<open>i\<close>; the result is \<open>X\<close> and \<open>Bout\<close>.\<close>

definition blockmix_step :: "u32 list \<Rightarrow> nat \<Rightarrow> u32 list \<times> u32 list \<Rightarrow> nat \<Rightarrow> u32 list \<times> u32 list" where
  "blockmix_step Bin r XB i =
     (let (X, Bout) = XB;
          X = salsa20_8 (blkxor X (drop (i * 16) Bin) 64);
          Bout = at_offset (i * 8) (\<lambda>d. blkcpy d X 64) Bout;
          X = salsa20_8 (blkxor X (drop (i * 16 + 16) Bin) 64);
          Bout = at_offset (i * 8 + r * 16) (\<lambda>d. blkcpy d X 64) Bout
      in (X, Bout))"

text \<open>\<open>for (i = 0; i < 2 * r; i += 2)\<close> takes the values \<open>2 * k\<close> for \<open>k < r\<close>. The result is the
  output block and the temporary \<open>X\<close>.\<close>

definition blockmix_salsa8 :: "u32 list \<Rightarrow> u32 list \<Rightarrow> u32 list \<Rightarrow> nat \<Rightarrow> u32 list \<times> u32 list" where
  "blockmix_salsa8 Bin Bout X r =
     (let X = blkcpy X (drop ((2 * r - 1) * 16) Bin) 64;
          (X, Bout) = foldl (\<lambda>XB k. blockmix_step Bin r XB (2 * k)) (X, Bout) [0..<r]
      in (Bout, X))"

section \<open>\<open>smix\<close>\<close>

definition integerify :: "u32 list \<Rightarrow> nat \<Rightarrow> u64" where
  "integerify B r = (let X = drop ((2 * r - 1) * 16) B in push_bit 32 (ucast (X ! 1)) + ucast (X ! 0))"

type_synonym smix_mem = "u32 list \<times> u32 list \<times> u32 list \<times> u32 list"
  \<comment> \<open>\<open>V\<close>, and the parts \<open>X\<close>, \<open>Y\<close>, \<open>Z\<close> of \<open>XY\<close>\<close>

definition smix_fill :: "nat \<Rightarrow> smix_mem \<Rightarrow> nat \<Rightarrow> smix_mem" where
  "smix_fill r m i =
     (let (V, X, Y, Z) = m;
          V = at_offset (i * (32 * r)) (\<lambda>d. blkcpy d X (128 * r)) V;
          (Y, Z) = blockmix_salsa8 X Y Z r;
          V = at_offset ((i + 1) * (32 * r)) (\<lambda>d. blkcpy d Y (128 * r)) V;
          (X, Z) = blockmix_salsa8 Y X Z r
      in (V, X, Y, Z))"

definition smix_mix :: "nat \<Rightarrow> u64 \<Rightarrow> smix_mem \<Rightarrow> nat \<Rightarrow> smix_mem" where
  "smix_mix r N m i =
     (let (V, X, Y, Z) = m;
          j = integerify X r AND (N - 1);
          X = blkxor X (drop (unat j * (32 * r)) V) (128 * r);
          (Y, Z) = blockmix_salsa8 X Y Z r;
          j = integerify Y r AND (N - 1);
          Y = blkxor Y (drop (unat j * (32 * r)) V) (128 * r);
          (X, Z) = blockmix_salsa8 Y X Z r
      in (V, X, Y, Z))"

text \<open>Both loops are \<open>for (i = 0; i < N; i += 2)\<close>.\<close>

definition smix :: "bytes \<Rightarrow> nat \<Rightarrow> u64 \<Rightarrow> smix_mem \<Rightarrow> bytes \<times> smix_mem" where
  "smix B r N m =
     (let (V, X, Y, Z) = m;
          X = map (\<lambda>k. le32dec (drop (4 * k) B)) [0..<32 * r];
          steps = map (\<lambda>k. 2 * k) [0..<(unat N + 1) div 2];
          m = foldl (smix_fill r) (V, X, Y, Z) steps;
          m = foldl (smix_mix r N) m steps;
          (V, X, Y, Z) = m
      in (concat (map le32enc (take (32 * r) X)) @ drop (128 * r) B, m))"

section \<open>\<open>libscrypt_scrypt\<close>\<close>

text \<open>What the system gives: whether the allocations and the final \<open>munmap\<close> succeed, the contents of
  the fresh scratch space \<open>XY\<close>, and what is on the stack of the two calls of PBKDF2.\<close>

record scrypt_env =
  malloc_B :: bool
  malloc_XY :: bool
  mmap_V :: bool
  munmap_V :: bool
  XY_init :: "u32 list \<times> u32 list \<times> u32 list"
  pbkdf2_stack :: HMAC_SHA256_CTX

text \<open>\<open>smix(&B[i * 128 * r], r, N, V, XY)\<close>, the index computed in 32 bits.\<close>

definition smix_at :: "u32 \<Rightarrow> u64 \<Rightarrow> bytes \<times> smix_mem \<Rightarrow> nat \<Rightarrow> bytes \<times> smix_mem" where
  "smix_at r N Bm i =
     (let (B, m) = Bm;
          off = unat (of_nat i * 128 * r :: u32);
          (b, m) = smix (drop off B) (unat r) N m
      in (take off B @ b, m))"

text \<open>
  The result is the return value and, if the function got that far, what it wrote to \<open>buf\<close>.
  The sizes \<open>128 * r * p\<close> and \<open>256 * r + 64\<close> passed to \<open>malloc\<close> are 32-bit products: when they
  wrap around, the buffers are too small and the code writes past their end.
\<close>

definition libscrypt_scrypt ::
    "scrypt_env \<Rightarrow> bytes \<Rightarrow> bytes \<Rightarrow> u64 \<Rightarrow> u32 \<Rightarrow> u32 \<Rightarrow> nat \<Rightarrow> (int \<times> bytes option) res" where
  "libscrypt_scrypt env passwd salt N r p buflen =
     (if (2 ^ 32 - 1) * 32 < buflen then Inr (- 1, None)
      else if 2 ^ 30 \<le> (ucast r * ucast p :: u64) then Inr (- 1, None)
      else if r = 0 \<or> p = 0 then Inr (- 1, None)
      else if N AND (N - 1) \<noteq> 0 \<or> N < 2 then Inr (- 1, None)
      else if (2 ^ 64 - 1) div 128 div unat p < unat r \<or> (2 ^ 64 - 1) div 128 div unat r < unat N
        then Inr (- 1, None)
      else if \<not> malloc_B env then Inr (- 1, None)
      else if \<not> malloc_XY env then Inr (- 1, None)
      else if \<not> mmap_V env then Inr (- 1, None)
      else if 2 ^ 32 \<le> 128 * unat r * unat p \<or> 2 ^ 32 \<le> 256 * unat r + 64
        then Inl (Undefined (bs ''scrypt: buffer overflow''))
      else (let B = libscrypt_PBKDF2_SHA256 (pbkdf2_stack env) passwd salt 1 (unat (p * 128 * r));
                V = replicate (32 * unat r * unat N) 0;
                (B, m) = foldl (smix_at r N) (B, (V, XY_init env)) [0..<unat p];
                buf = libscrypt_PBKDF2_SHA256 (pbkdf2_stack env) passwd B 1 buflen
            in if munmap_V env then Inr (0, Some buf) else Inr (- 1, Some buf)))"

section \<open>RFC 7914\<close>

definition quarterround :: "u32 \<Rightarrow> u32 \<Rightarrow> u32 \<Rightarrow> u32 \<Rightarrow> u32 list" where
  "quarterround y0 y1 y2 y3 =
     (let z1 = y1 XOR word_rotl 7 (y0 + y3);
          z2 = y2 XOR word_rotl 9 (z1 + y0);
          z3 = y3 XOR word_rotl 13 (z2 + z1);
          z0 = y0 XOR word_rotl 18 (z3 + z2)
      in [z0, z1, z2, z3])"

text \<open>The quarter round on the places \<open>(p0, p1, p2, p3)\<close> of a state.\<close>

definition quarter_at :: "nat \<Rightarrow> nat \<Rightarrow> nat \<Rightarrow> nat \<Rightarrow> u32 list \<Rightarrow> u32 list" where
  "quarter_at p0 p1 p2 p3 y =
     (let z = quarterround (y ! p0) (y ! p1) (y ! p2) (y ! p3)
      in y[p0 := z ! 0, p1 := z ! 1, p2 := z ! 2, p3 := z ! 3])"

definition columnround :: "u32 list \<Rightarrow> u32 list" where
  "columnround y = quarter_at 15 3 7 11 (quarter_at 10 14 2 6 (quarter_at 5 9 13 1 (quarter_at 0 4 8 12 y)))"

definition rowround :: "u32 list \<Rightarrow> u32 list" where
  "rowround y = quarter_at 15 12 13 14 (quarter_at 10 11 8 9 (quarter_at 5 6 7 4 (quarter_at 0 1 2 3 y)))"

definition salsa20_8_core :: "u32 list \<Rightarrow> u32 list" where
  "salsa20_8_core x = map2 (+) x (((\<lambda>x. rowround (columnround x)) ^^ 4) x)"

text \<open>\<open>scryptBlockMix\<close> on the list of \<open>2 * r\<close> blocks.\<close>

fun blockmix_Y :: "u32 list \<Rightarrow> u32 list list \<Rightarrow> u32 list list" where
  "blockmix_Y X [] = []"
| "blockmix_Y X (B # Bs) = (let X = salsa20_8_core (map2 (XOR) X B) in X # blockmix_Y X Bs)"

definition blocks :: "nat \<Rightarrow> 'a list \<Rightarrow> 'a list list" where
  "blocks r B = map (\<lambda>i. take 16 (drop (i * 16) B)) [0..<2 * r]"

definition scryptBlockMix :: "nat \<Rightarrow> u32 list \<Rightarrow> u32 list" where
  "scryptBlockMix r B =
     (let Y = blockmix_Y (last (blocks r B)) (blocks r B)
      in concat (map (\<lambda>i. Y ! (2 * i)) [0..<r]) @ concat (map (\<lambda>i. Y ! (2 * i + 1)) [0..<r]))"

text \<open>The last block as a little-endian number.\<close>

definition Integerify :: "nat \<Rightarrow> u32 list \<Rightarrow> nat" where
  "Integerify r X = horner_sum unat (2 ^ 32) (last (blocks r X))"

definition scryptROMix :: "nat \<Rightarrow> nat \<Rightarrow> u32 list \<Rightarrow> u32 list" where
  "scryptROMix r N B =
     (let V = map (\<lambda>i. (scryptBlockMix r ^^ i) B) [0..<N]
      in ((\<lambda>X. scryptBlockMix r (map2 (XOR) X (V ! (Integerify r X mod N)))) ^^ N)
           ((scryptBlockMix r ^^ N) B))"

definition words_of :: "bytes \<Rightarrow> u32 list" where
  "words_of B = map (\<lambda>k. le32dec (drop (4 * k) B)) [0..<length B div 4]"

definition scrypt :: "bytes \<Rightarrow> bytes \<Rightarrow> nat \<Rightarrow> nat \<Rightarrow> nat \<Rightarrow> nat \<Rightarrow> bytes" where
  "scrypt P S N r p dkLen =
     (let B = pbkdf2 P S 1 (p * 128 * r);
          Bs = map (\<lambda>i. take (128 * r) (drop (i * (128 * r)) B)) [0..<p];
          B' = concat (map (\<lambda>b. concat (map le32enc (scryptROMix r N (words_of b)))) Bs)
      in pbkdf2 P B' 1 dkLen)"

section \<open>The Salsa20/8 core\<close>

lemma R_rotl:
  assumes "0 < n" and "n < 32"
  shows "R a n = word_rotl n a"
proof (rule bit_word_eqI)
  fix i :: nat
  assume i: "i < LENGTH(32)"
  show "bit (R a n) i \<longleftrightarrow> bit (word_rotl n a) i"
  proof (cases "n \<le> i")
    case True
    then have "(i + (32 - n)) mod 32 = i - n" using i assms by (simp add: mod_if)
    moreover have "\<not> bit a (32 - n + i)" using True assms by (auto dest: bit_imp_le_length)
    ultimately show ?thesis
      using True i assms by (simp add: R_def bit_or_iff bit_push_bit_iff bit_drop_bit_eq bit_word_rotl_iff)
  next
    case False
    then have "(i + (32 - n)) mod 32 = 32 - n + i" using i assms by simp
    then show ?thesis
      using False i assms by (simp add: R_def bit_or_iff bit_push_bit_iff bit_drop_bit_eq bit_word_rotl_iff)
  qed
qed

lemma quarter_ops:
  assumes "distinct [p0, p1, p2, p3]"
    and "p0 < length x" and "p1 < length x" and "p2 < length x" and "p3 < length x"
  shows "foldl salsa_op x [(p1, p0, p3, 7), (p2, p1, p0, 9), (p3, p2, p1, 13), (p0, p3, p2, 18)]
      = quarter_at p0 p1 p2 p3 x"
  using assms
  by (simp add: quarter_at_def quarterround_def R_rotl Let_def nth_list_update list_update_swap)

lemma column_quarters:
  "column_ops = [(4, 0, 12, 7), (8, 4, 0, 9), (12, 8, 4, 13), (0, 12, 8, 18)]
    @ [(9, 5, 1, 7), (13, 9, 5, 9), (1, 13, 9, 13), (5, 1, 13, 18)]
    @ [(14, 10, 6, 7), (2, 14, 10, 9), (6, 2, 14, 13), (10, 6, 2, 18)]
    @ [(3, 15, 11, 7), (7, 3, 15, 9), (11, 7, 3, 13), (15, 11, 7, 18)]"
  by (simp add: column_ops_def)

lemma row_quarters:
  "row_ops = [(1, 0, 3, 7), (2, 1, 0, 9), (3, 2, 1, 13), (0, 3, 2, 18)]
    @ [(6, 5, 4, 7), (7, 6, 5, 9), (4, 7, 6, 13), (5, 4, 7, 18)]
    @ [(11, 10, 9, 7), (8, 11, 10, 9), (9, 8, 11, 13), (10, 9, 8, 18)]
    @ [(12, 15, 14, 7), (13, 12, 15, 9), (14, 13, 12, 13), (15, 14, 13, 18)]"
  by (simp add: row_ops_def)

lemma length_quarter_at [simp]: "length (quarter_at p0 p1 p2 p3 x) = length x"
  by (simp add: quarter_at_def Let_def)

lemma length_rounds [simp]: "length (columnround x) = length x" "length (rowround x) = length x"
  by (simp_all add: columnround_def rowround_def)

lemma salsa_columns: "length x = 16 \<Longrightarrow> foldl salsa_op x column_ops = columnround x"
  unfolding columnround_def column_quarters foldl_append by (simp add: quarter_ops del: foldl_Cons salsa_op.simps)

lemma salsa_rows: "length x = 16 \<Longrightarrow> foldl salsa_op x row_ops = rowround x"
  unfolding rowround_def row_quarters foldl_append by (simp add: quarter_ops del: foldl_Cons salsa_op.simps)

lemma foldl_funpow: "foldl (\<lambda>x i. f x) x xs = (f ^^ length xs) x"
  by (induction xs arbitrary: x) (simp_all add: funpow_swap1)

lemma length_double_rounds [simp]: "length (((\<lambda>x. rowround (columnround x)) ^^ n) x) = length x"
  by (induction n) simp_all

lemma salsa20_8_eq:
  assumes "length B = 16"
  shows "salsa20_8 B = salsa20_8_core B"
proof -
  let ?f = "\<lambda>x. foldl salsa_op (foldl salsa_op x column_ops) row_ops"
  have "(?f ^^ n) B = ((\<lambda>x. rowround (columnround x)) ^^ n) B" for n
    by (induction n) (simp_all add: salsa_columns salsa_rows assms)
  then have "foldl (\<lambda>x i. ?f x) B [0, 2, 4, 6 :: nat] = ((\<lambda>x. rowround (columnround x)) ^^ 4) B"
    by (simp only: foldl_funpow) (simp add: eval_nat_numeral)
  moreover have "blkcpy (replicate 16 0) B 64 = B" using assms by (simp add: blkcpy_def)
  ultimately show ?thesis by (simp only: salsa20_8_def salsa20_8_core_def Let_def)
qed

lemma length_salsa20_8_core [simp]: "length (salsa20_8_core x) = length x"
  by (simp add: salsa20_8_core_def)

section \<open>The block mix\<close>

lemma length_blockmix_Y [simp]: "length (blockmix_Y X Bs) = length Bs"
  by (induction Bs arbitrary: X) (simp_all add: Let_def)

lemma blockmix_Y_append:
  "blockmix_Y X (Bs @ Cs) = blockmix_Y X Bs @ blockmix_Y (last (X # blockmix_Y X Bs)) Cs"
  by (induction Bs arbitrary: X) (simp_all add: Let_def)

lemma blockmix_Y_blocks:
  "\<lbrakk>length X = 16; \<forall>B \<in> set Bs. length B = 16; Y \<in> set (blockmix_Y X Bs)\<rbrakk> \<Longrightarrow> length Y = 16"
proof (induction Bs arbitrary: X)
  case (Cons B Bs)
  then show ?case using Cons.IH [of "salsa20_8_core (map2 (XOR) X B)"] by (auto simp: Let_def)
qed simp

lemma blkcpy_block: "16 \<le> length D \<Longrightarrow> blkcpy D X 64 = take 16 X @ drop 16 D"
  by (simp add: blkcpy_def)

lemma at_offset_write:
  "length w = n \<Longrightarrow> at_offset (length a) (\<lambda>d. w @ drop n d) (a @ b) = a @ w @ drop n b"
  by (simp add: at_offset_def)

text \<open>After \<open>k\<close> turns the two halves of the output hold the even and the odd blocks so far.\<close>

definition evens :: "'a list list \<Rightarrow> nat \<Rightarrow> 'a list" where
  "evens Y k = concat (map (\<lambda>i. Y ! (2 * i)) [0..<k])"

definition odds :: "'a list list \<Rightarrow> nat \<Rightarrow> 'a list" where
  "odds Y k = concat (map (\<lambda>i. Y ! (2 * i + 1)) [0..<k])"

lemma evens_odds_Suc [simp]:
  "evens Y 0 = []" "evens Y (Suc k) = evens Y k @ Y ! (2 * k)"
  "odds Y 0 = []" "odds Y (Suc k) = odds Y k @ Y ! (2 * k + 1)"
  by (simp_all add: evens_def odds_def)

lemma length_evens_odds:
  assumes "\<forall>y \<in> set Y. length y = 16" and "2 * k \<le> length Y"
  shows "length (evens Y k) = 16 * k" and "length (odds Y k) = 16 * k"
  using assms by (induction k) simp_all

lemma length_blocks [simp]: "length (blocks r B) = 2 * r"
  by (simp add: blocks_def)

lemma nth_blocks: "i < 2 * r \<Longrightarrow> blocks r B ! i = take 16 (drop (i * 16) B)"
  by (simp add: blocks_def)

lemma length_in_blocks:
  assumes "length B = 32 * r"
  shows "\<forall>b \<in> set (blocks r B). length b = 16"
proof
  fix b assume "b \<in> set (blocks r B)"
  then obtain i where "i < 2 * r" "b = take 16 (drop (i * 16) B)" by (auto simp: blocks_def)
  moreover from this have "i * 16 + 16 \<le> length B" using assms by simp
  ultimately show "length b = 16" by simp
qed

lemma nth_blockmix_Y:
  "i < length Bs \<Longrightarrow> blockmix_Y X Bs ! i = salsa20_8_core (map2 (XOR) ((X # blockmix_Y X Bs) ! i) (Bs ! i))"
proof (induction Bs arbitrary: X i)
  case (Cons B Bs)
  then show ?case by (cases i) (simp_all add: Let_def)
qed simp

lemma blkxor_block: "length X = 16 \<Longrightarrow> blkxor X S 64 = map2 (XOR) X (take 16 S)"
  by (simp add: blkxor_def)

lemma at_offset_blkcpy:
  assumes "length a = k" and "16 \<le> length b" and "length X = 16"
  shows "at_offset k (\<lambda>d. blkcpy d X 64) (a @ b) = a @ X @ drop 16 b"
  using assms by (simp add: at_offset_def blkcpy_def)

lemma blockmix_loop:
  assumes len: "length Bin = 32 * r" "length Bout = 32 * r" "length X0 = 16" and "k \<le> r"
  defines "Y \<equiv> blockmix_Y X0 (blocks r Bin)"
  shows "foldl (\<lambda>XB k. blockmix_step Bin r XB (2 * k)) (X0, Bout) [0..<k]
    = ((X0 # Y) ! (2 * k),
       evens Y k @ take (16 * r - 16 * k) (drop (16 * k) Bout) @ odds Y k @ drop (16 * r + 16 * k) Bout)"
  using assms(4)
proof (induction k)
  case 0
  then show ?case by (metis (no_types) append_Nil append_take_drop_id diff_zero drop0 evens_odds_Suc(1,3)
        foldl_Nil mult_0_right nth_Cons_0 plus_nat.add_0 add.right_neutral upt_0)
next
  case (Suc k)
  have lenY: "length Y = 2 * r" and Y16: "\<forall>y \<in> set Y. length y = 16"
    using length_in_blocks [OF len(1)] blockmix_Y_blocks [OF len(3)] by (auto simp: Y_def)
  have prev: "length ((X0 # Y) ! (2 * k)) = 16"
    using Suc.prems lenY Y16 len(3) by (cases k) auto
  have step: "salsa20_8 (blkxor X (drop (i * 16) Bin) 64) = Y ! i"
    if "X = (X0 # Y) ! i" "length X = 16" "i < 2 * r" for X i
  proof -
    have "length (blocks r Bin ! i) = 16" using that length_in_blocks [OF len(1)] by simp
    then show ?thesis
      using that nth_blockmix_Y [of i "blocks r Bin" X0]
      by (simp add: blkxor_block nth_blocks [symmetric] salsa20_8_eq Y_def [symmetric])
  qed
  define a where "a = evens Y k"
  define b where "b = take (16 * r - 16 * k) (drop (16 * k) Bout)"
  define c where "c = odds Y k"
  define d where "d = drop (16 * r + 16 * k) Bout"
  have la: "length a = 2 * k * 8" and lc: "length c = 16 * k"
    using length_evens_odds [OF Y16, of k] Suc.prems lenY by (simp_all add: a_def c_def)
  have lb: "16 \<le> length b" "length (drop 16 b) = 16 * r - 16 * k - 16" and ld: "16 \<le> length d"
    using Suc.prems len(2) by (simp_all add: b_def d_def)
  have i: "2 * k < 2 * r" "2 * k + 1 < 2 * r" using Suc.prems by simp_all
  have X1: "salsa20_8 (blkxor ((X0 # Y) ! (2 * k)) (drop (2 * k * 16) Bin) 64) = Y ! (2 * k)"
    using step [OF refl prev i(1)] .
  have l1: "length (Y ! (2 * k)) = 16" "length (Y ! (2 * k + 1)) = 16" using Y16 i lenY by simp_all
  have X2: "salsa20_8 (blkxor (Y ! (2 * k)) (drop (2 * k * 16 + 16) Bin) 64) = Y ! (2 * k + 1)"
    using step [of "Y ! (2 * k)" "2 * k + 1"] l1 i by (simp add: algebra_simps)
  have w1: "at_offset (2 * k * 8) (\<lambda>e. blkcpy e (Y ! (2 * k)) 64) (a @ b @ c @ d)
      = (a @ Y ! (2 * k) @ drop 16 b @ c) @ d"
    using at_offset_blkcpy [OF la, of "b @ c @ d"] lb(1) l1 by simp
  have "length (a @ Y ! (2 * k) @ drop 16 b @ c) = 2 * k * 8 + r * 16"
    using la lc lb l1 Suc.prems by simp
  from at_offset_blkcpy [OF this ld l1(2)]
  have w2: "at_offset (2 * k * 8 + r * 16) (\<lambda>e. blkcpy e (Y ! (2 * k + 1)) 64)
      ((a @ Y ! (2 * k) @ drop 16 b @ c) @ d) = a @ Y ! (2 * k) @ drop 16 b @ c @ Y ! (2 * k + 1) @ drop 16 d"
    by simp
  have "blockmix_step Bin r ((X0 # Y) ! (2 * k), a @ b @ c @ d) (2 * k)
      = (Y ! (2 * k + 1), a @ Y ! (2 * k) @ drop 16 b @ c @ Y ! (2 * k + 1) @ drop 16 d)"
    unfolding blockmix_step_def Let_def prod.case X1 w1 X2 w2 ..
  moreover have "drop 16 b = take (16 * r - 16 * Suc k) (drop (16 * Suc k) Bout)"
    by (simp add: b_def drop_take add.commute)
  moreover have "drop 16 d = drop (16 * r + 16 * Suc k) Bout" by (simp add: d_def algebra_simps)
  ultimately show ?case
    using Suc by (simp add: a_def b_def c_def d_def)
qed

lemma last_blocks: "0 < r \<Longrightarrow> last (blocks r B) = take 16 (drop ((2 * r - 1) * 16) B)"
  by (subst last_conv_nth) (simp_all add: nth_blocks flip: length_greater_0_conv)

lemma blockmix_salsa8_eq:
  assumes len: "length Bin = 32 * r" "length Bout = 32 * r" "length X = 16" and "0 < r"
  shows "fst (blockmix_salsa8 Bin Bout X r) = scryptBlockMix r Bin"
    and "length (snd (blockmix_salsa8 Bin Bout X r)) = 16"
    and "length (scryptBlockMix r Bin) = 32 * r"
proof -
  define X0 where "X0 = last (blocks r Bin)"
  define Y where "Y = blockmix_Y X0 (blocks r Bin)"
  have X0: "blkcpy X (drop ((2 * r - 1) * 16) Bin) 64 = X0"
    using assms by (simp add: blkcpy_block X0_def last_blocks)
  have "X0 \<in> set (blocks r Bin)"
    unfolding X0_def using \<open>0 < r\<close> by (intro last_in_set) (simp flip: length_greater_0_conv)
  then have len0: "length X0 = 16" using length_in_blocks [OF len(1)] by blast
  have lenY: "length Y = 2 * r" and Y16: "\<forall>y \<in> set Y. length y = 16"
    using length_in_blocks [OF len(1)] blockmix_Y_blocks [OF len0] by (auto simp: Y_def)
  have mix: "scryptBlockMix r Bin = evens Y r @ odds Y r"
    by (simp add: scryptBlockMix_def evens_def odds_def Y_def X0_def Let_def)
  have res: "blockmix_salsa8 Bin Bout X r = (evens Y r @ odds Y r, (X0 # Y) ! (2 * r))"
    using blockmix_loop [OF len(1,2) len0 order_refl] len(2)
    unfolding blockmix_salsa8_def Let_def X0 Y_def by simp
  show "fst (blockmix_salsa8 Bin Bout X r) = scryptBlockMix r Bin" by (simp add: res mix)
  show "length (snd (blockmix_salsa8 Bin Bout X r)) = 16"
    using \<open>0 < r\<close> Y16 lenY unfolding res snd_conv by (cases r) simp_all
  show "length (scryptBlockMix r Bin) = 32 * r"
    using length_evens_odds [OF Y16, of r] lenY by (simp add: mix)
qed

lemma blockmix_salsa8_pair:
  assumes "length Bin = 32 * r" and "length Bout = 32 * r" and "length X = 16" and "0 < r"
  obtains X' where "blockmix_salsa8 Bin Bout X r = (scryptBlockMix r Bin, X')" and "length X' = 16"
  using blockmix_salsa8_eq [OF assms] by (metis prod.collapse)

lemma length_scryptBlockMix: "length X = 32 * r \<Longrightarrow> 0 < r \<Longrightarrow> length (scryptBlockMix r X) = 32 * r"
  by (rule blockmix_salsa8_eq(3) [of X r X "replicate 16 0"]) simp_all

lemma length_scryptBlockMix_funpow:
  "length X = 32 * r \<Longrightarrow> 0 < r \<Longrightarrow> length ((scryptBlockMix r ^^ n) X) = 32 * r"
  by (induction n) (simp_all add: length_scryptBlockMix)

section \<open>\<open>smix\<close> computes \<open>scryptROMix\<close>\<close>

lemma blkcpy_whole: "length X = 32 * r \<Longrightarrow> blkcpy D X (128 * r) = X @ drop (32 * r) D"
proof -
  have "128 * r div 8 * 2 = 32 * r" by simp
  then show "length X = 32 * r \<Longrightarrow> ?thesis" by (simp only: blkcpy_def Let_def) simp
qed

lemma blkxor_whole: "length X = 32 * r \<Longrightarrow> blkxor X S (128 * r) = map2 (XOR) X (take (32 * r) S)"
proof -
  have "128 * r div 8 * 2 = 32 * r" by simp
  then show "length X = 32 * r \<Longrightarrow> ?thesis" by (simp only: blkxor_def Let_def) simp
qed

lemma length_concat_equal: "\<forall>x \<in> set xs. length x = n \<Longrightarrow> length (concat xs) = length xs * n"
  by (induction xs) simp_all

lemma slice_concat:
  "\<lbrakk>\<forall>x \<in> set xs. length x = n; j < length xs\<rbrakk> \<Longrightarrow> take n (drop (j * n) (concat xs @ ys)) = xs ! j"
proof (induction xs arbitrary: j)
  case (Cons x xs)
  then show ?case by (cases j) (simp_all add: algebra_simps)
qed simp

text \<open>After \<open>k\<close> turns of the first loop the first \<open>2 * k\<close> parts of \<open>V\<close> are filled.\<close>

lemma smix_fill_loop:
  assumes "0 < r" and X: "length X = 32 * r" and Y: "length Y = 32 * r" and Z: "length Z = 16"
    and "64 * r * k \<le> length V"
  defines "Vi \<equiv> \<lambda>i. (scryptBlockMix r ^^ i) X"
  shows "\<exists>Y' Z'. foldl (smix_fill r) (V, X, Y, Z) (map (\<lambda>k. 2 * k) [0..<k])
      = (concat (map Vi [0..<2 * k]) @ drop (64 * r * k) V, Vi (2 * k), Y', Z')
    \<and> length Y' = 32 * r \<and> length Z' = 16"
  using assms(5)
proof (induction k)
  case 0
  then show ?case using Y Z by (simp add: Vi_def)
next
  case (Suc k)
  have len: "length (Vi i) = 32 * r" for i
    unfolding Vi_def using X \<open>0 < r\<close> by (rule length_scryptBlockMix_funpow)
  from Suc obtain Y' Z' where IH: "foldl (smix_fill r) (V, X, Y, Z) (map (\<lambda>k. 2 * k) [0..<k])
      = (concat (map Vi [0..<2 * k]) @ drop (64 * r * k) V, Vi (2 * k), Y', Z')"
    and Y': "length Y' = 32 * r" and Z': "length Z' = 16" by auto
  obtain Z1 where b1: "blockmix_salsa8 (Vi (2 * k)) Y' Z' r = (Vi (Suc (2 * k)), Z1)" and "length Z1 = 16"
    using blockmix_salsa8_pair [OF len Y' Z' \<open>0 < r\<close>] by (auto simp: Vi_def)
  then obtain Z2 where b2: "blockmix_salsa8 (Vi (Suc (2 * k))) (Vi (2 * k)) Z1 r = (Vi (Suc (Suc (2 * k))), Z2)"
      and "length Z2 = 16"
    using blockmix_salsa8_pair [OF len len _ \<open>0 < r\<close>] by (metis Vi_def funpow.simps(2) o_apply)
  have l: "length (concat (map Vi [0..<n])) = n * (32 * r)" for n
    using length_concat_equal [of "map Vi [0..<n]" "32 * r"] len by simp
  have w: "at_offset (n * (32 * r)) (\<lambda>d. blkcpy d (Vi n) (128 * r)) (concat (map Vi [0..<n]) @ ys)
      = concat (map Vi [0..<Suc n]) @ drop (32 * r) ys" for n ys
    unfolding at_offset_def by (simp add: l len blkcpy_whole)
  have "drop (32 * r) (drop (32 * r) (drop (64 * r * k) V)) = drop (64 * r * Suc k) V"
    by (simp add: algebra_simps)
  then have "smix_fill r (concat (map Vi [0..<2 * k]) @ drop (64 * r * k) V, Vi (2 * k), Y', Z') (2 * k)
      = (concat (map Vi [0..<Suc (Suc (2 * k))]) @ drop (64 * r * Suc k) V, Vi (Suc (Suc (2 * k))),
         Vi (Suc (2 * k)), Z2)"
    unfolding smix_fill_def Let_def prod.case w b1 Suc_eq_plus1 [symmetric] b2 by simp
  then show ?case using IH \<open>length Z2 = 16\<close> len by simp
qed

subsection \<open>The index into the table\<close>

lemma power_of_two_nat:
  fixes n :: nat
  assumes "0 < n" and "n AND (n - 1) = 0"
  shows "\<exists>k. n = 2 ^ k"
  using assms
proof (induction n rule: less_induct)
  case (less n)
  show ?case
  proof (cases "even n")
    case True
    then obtain m where m: "n = 2 * m" "0 < m" using less.prems(1) by (auto elim: evenE)
    then have "n - 1 = 1 + 2 * (m - 1)" by simp
    then have "n AND (n - 1) = 2 * (m AND (m - 1))"
      using m by (subst and_rec) simp
    then obtain k where "m = 2 ^ k" using less.IH [of m] less.prems m by auto
    with m show ?thesis by (metis power_Suc)
  next
    case False
    then obtain m where m: "n = 2 * m + 1" by (rule oddE)
    have "n AND (n - 1) = 2 * m" unfolding m by (subst and_rec) simp
    with less.prems m have "n = 2 ^ 0" by simp
    then show ?thesis by blast
  qed
qed

lemma power_of_two_word:
  fixes N :: u64
  assumes "N AND (N - 1) = 0" and "2 \<le> N"
  obtains k where "unat N = 2 ^ k" and "0 < k" and "k < 64" and "\<And>x. x AND (N - 1) = take_bit k x"
proof -
  have N2: "2 \<le> unat N" using assms(2) by (simp add: word_le_nat_alt)
  then have "N \<noteq> 0" by auto
  then have "unat (N - 1) = unat N - 1" by (rule unat_minus_one)
  then have "unat N AND (unat N - 1) = 0" using assms(1) by (metis unsigned_0 unsigned_and_eq)
  with N2 obtain k where k: "unat N = 2 ^ k" using power_of_two_nat [of "unat N"] by auto
  have "unat N < 2 ^ 64" using unsigned_less [of N, where ?'a = nat] by simp
  then have "(2 :: nat) ^ k < 2 ^ 64" by (simp only: k)
  then have "k < 64" by (rule power_less_imp_less_exp [rotated]) simp
  have "0 < k" using N2 k by (cases k) auto
  have "N = of_nat (unat N)" by simp
  then have "N = 2 ^ k" unfolding k by simp
  then have "N - 1 = mask k" by (simp add: mask_eq_exp_minus_1)
  then have "x AND (N - 1) = take_bit k x" for x by (simp add: take_bit_eq_mask)
  with k \<open>0 < k\<close> \<open>k < 64\<close> show thesis by (rule that)
qed

lemma unat_integerify:
  fixes a b :: u32
  shows "unat (push_bit 32 (ucast b :: u64) + ucast a :: u64) = unat a + 2 ^ 32 * unat b"
proof -
  have "unat a + 2 ^ 32 * unat b < 2 ^ 64"
    using unsigned_less [of a, where ?'a = nat] unsigned_less [of b, where ?'a = nat] by simp
  moreover have "push_bit 32 (ucast b :: u64) + ucast a = of_nat (unat a + 2 ^ 32 * unat b)"
    by (simp add: push_bit_eq_mult)
  moreover have "take_bit 64 n = n" if "n < 2 ^ 64" for n :: nat
    using that by (rule take_bit_nat_eq_self)
  ultimately show ?thesis by (simp only: unsigned_of_nat) simp
qed

lemma integerify_eq:
  assumes "length X = 32 * r" and "0 < r" and "unat N = 2 ^ k" and "k < 64"
    and "\<And>x :: u64. x AND (N - 1) = take_bit k x"
  shows "unat (integerify X r AND (N - 1)) = Integerify r X mod unat N"
proof -
  define L where "L = last (blocks r X)"
  have "length L = 16"
    using last_blocks [OF assms(2), of X] assms(1,2) by (simp add: L_def)
  then obtain a b rest where L: "L = a # b # rest"
    by (metis Suc_length_conv numeral_nat(2) numeral_eq_Suc)
  have dr: "drop ((2 * r - 1) * 16) X ! 0 = a" "drop ((2 * r - 1) * 16) X ! 1 = b"
    using L last_blocks [OF assms(2), of X] unfolding L_def [symmetric]
    by (metis nth_Cons_0 nth_take zero_less_numeral, metis nth_Cons_0 nth_Cons_Suc One_nat_def nth_take
        one_less_numeral_iff semiring_norm(76))
  have "unat (integerify X r AND (N - 1)) = take_bit k (unat a + 2 ^ 32 * unat b)"
    unfolding integerify_def Let_def dr assms(5) unsigned_take_bit_eq unat_integerify ..
  also have "\<dots> = (unat a + 2 ^ 32 * unat b) mod 2 ^ k" by (simp add: take_bit_eq_mod)
  also have "\<dots> = (unat a + 2 ^ 32 * unat b + 2 ^ 64 * horner_sum unat (2 ^ 32) rest) mod 2 ^ k"
  proof -
    have "(2 :: nat) ^ 64 = 2 ^ k * 2 ^ (64 - k)" using assms(4) by (simp flip: power_add)
    then show ?thesis by (metis (no_types, lifting) mod_mult_self2 mult.assoc)
  qed
  also have "\<dots> = Integerify r X mod unat N"
    unfolding Integerify_def L_def [symmetric] L assms(3) by (simp add: algebra_simps)
  finally show ?thesis .
qed

subsection \<open>The second loop\<close>

definition mix_step :: "nat \<Rightarrow> nat \<Rightarrow> u32 list list \<Rightarrow> u32 list \<Rightarrow> u32 list" where
  "mix_step r N V X = scryptBlockMix r (map2 (XOR) X (V ! (Integerify r X mod N)))"

lemma length_mix_step:
  assumes "length X = 32 * r" and "\<forall>v \<in> set V. length v = 32 * r" and "length V = N" and "0 < N" and "0 < r"
  shows "length (mix_step r N V X) = 32 * r"
proof -
  have "length (V ! (Integerify r X mod N)) = 32 * r" using assms by simp
  then show ?thesis using assms by (simp add: mix_step_def length_scryptBlockMix)
qed

lemma smix_mix_loop:
  assumes "0 < r" and len: "length X = 32 * r" "length Y = 32 * r" "length Z = 16"
    and V: "\<forall>v \<in> set V. length v = 32 * r" "length V = unat N"
    and pow: "N AND (N - 1) = 0" "2 \<le> N"
  defines "Xi \<equiv> \<lambda>i. (mix_step r (unat N) V ^^ i) X"
  shows "\<exists>Y' Z'. foldl (smix_mix r N) (concat V @ W, X, Y, Z) (map (\<lambda>k. 2 * k) [0..<k])
      = (concat V @ W, Xi (2 * k), Y', Z') \<and> length Y' = 32 * r \<and> length Z' = 16"
proof (induction k)
  case 0
  then show ?case using len by (simp add: Xi_def)
next
  case (Suc k)
  obtain e where e: "unat N = 2 ^ e" "e < 64" "\<And>x. x AND (N - 1) = take_bit e x"
    using power_of_two_word [OF pow] by metis
  have N: "0 < unat N" by (simp add: e)
  have lenX: "length (Xi i) = 32 * r" for i
    using len(1) length_mix_step [OF _ V N \<open>0 < r\<close>] by (induction i) (simp_all add: Xi_def)
  have xored: "blkxor (Xi i) (drop (unat (integerify (Xi i) r AND (N - 1)) * (32 * r)) (concat V @ W)) (128 * r)
      = map2 (XOR) (Xi i) (V ! (Integerify r (Xi i) mod unat N))" for i
    unfolding blkxor_whole [OF lenX] integerify_eq [OF lenX \<open>0 < r\<close> e]
    by (subst slice_concat [OF V(1)]) (simp_all add: V(2) N)
  have lenV: "length (map2 (XOR) (Xi i) (V ! (Integerify r (Xi i) mod unat N))) = 32 * r" for i
    using V N lenX by simp
  have nxt: "scryptBlockMix r (map2 (XOR) (Xi i) (V ! (Integerify r (Xi i) mod unat N))) = Xi (Suc i)" for i
    by (simp add: Xi_def mix_step_def)
  from Suc obtain Y' Z' where IH: "foldl (smix_mix r N) (concat V @ W, X, Y, Z) (map (\<lambda>k. 2 * k) [0..<k])
      = (concat V @ W, Xi (2 * k), Y', Z')" and Y': "length Y' = 32 * r" and Z': "length Z' = 16" by blast
  obtain Z1 where b1: "blockmix_salsa8 (map2 (XOR) (Xi (2 * k)) (V ! (Integerify r (Xi (2 * k)) mod unat N)))
      Y' Z' r = (Xi (Suc (2 * k)), Z1)" and Z1: "length Z1 = 16"
    using blockmix_salsa8_pair [OF lenV Y' Z' \<open>0 < r\<close>] unfolding nxt by metis
  obtain Z2 where b2: "blockmix_salsa8
      (map2 (XOR) (Xi (Suc (2 * k))) (V ! (Integerify r (Xi (Suc (2 * k))) mod unat N)))
      (map2 (XOR) (Xi (2 * k)) (V ! (Integerify r (Xi (2 * k)) mod unat N))) Z1 r
      = (Xi (Suc (Suc (2 * k))), Z2)" and Z2: "length Z2 = 16"
    using blockmix_salsa8_pair [OF lenV lenV Z1 \<open>0 < r\<close>] unfolding nxt by metis
  have "smix_mix r N (concat V @ W, Xi (2 * k), Y', Z') (2 * k)
      = (concat V @ W, Xi (Suc (Suc (2 * k))),
         map2 (XOR) (Xi (Suc (2 * k))) (V ! (Integerify r (Xi (Suc (2 * k))) mod unat N)), Z2)"
    unfolding smix_mix_def Let_def prod.case xored b1 b2 ..
  then show ?case using IH Z2 lenV [of "Suc (2 * k)"] by simp
qed

lemma le32dec_take: "le32dec (take 4 p) = le32dec p"
  by (simp add: le32dec_def)

definition smix_mem_ok :: "nat \<Rightarrow> u64 \<Rightarrow> smix_mem \<Rightarrow> bool" where
  "smix_mem_ok r N m =
     (case m of (V, X, Y, Z) \<Rightarrow>
        length V = 32 * r * unat N \<and> length X = 32 * r \<and> length Y = 32 * r \<and> length Z = 16)"

lemma smix_eq:
  assumes "0 < r" and "128 * r \<le> length B" and m: "smix_mem_ok r N m"
    and pow: "N AND (N - 1) = 0" "2 \<le> N"
  obtains m' where "smix B r N m
      = (concat (map le32enc (scryptROMix r (unat N) (words_of (take (128 * r) B)))) @ drop (128 * r) B, m')"
    and "smix_mem_ok r N m'" and "length (scryptROMix r (unat N) (words_of (take (128 * r) B))) = 32 * r"
proof -
  obtain V X Y Z where mem: "m = (V, X, Y, Z)" by (metis surj_pair)
  with m have len: "length V = 32 * r * unat N" "length Y = 32 * r" "length Z = 16"
    by (simp_all add: smix_mem_ok_def)
  define X0 where "X0 = map (\<lambda>k. le32dec (drop (4 * k) B)) [0..<32 * r]"
  have lenX: "length X0 = 32 * r" by (simp add: X0_def)
  have words: "X0 = words_of (take (128 * r) B)"
  proof -
    have "le32dec (drop (4 * k) B) = le32dec (drop (4 * k) (take (128 * r) B))" if "k < 32 * r" for k
    proof -
      have "4 * k + 4 \<le> 128 * r" using that by simp
      then have "take 4 (drop (4 * k) (take (128 * r) B)) = take 4 (drop (4 * k) B)"
        by (simp add: drop_take min_def)
      then show ?thesis by (metis le32dec_take)
    qed
    then show ?thesis using assms(2) by (simp add: X0_def words_of_def)
  qed
  obtain e where e: "unat N = 2 ^ e" "0 < e" using power_of_two_word [OF pow] by metis
  define n where "n = (unat N + 1) div 2"
  have n: "2 * n = unat N" using e by (cases e) (simp_all add: n_def)
  define Vi where "Vi = map (\<lambda>i. (scryptBlockMix r ^^ i) X0) [0..<unat N]"
  have Vi: "\<forall>v \<in> set Vi. length v = 32 * r" "length Vi = unat N"
    using lenX \<open>0 < r\<close> by (auto simp: Vi_def length_scryptBlockMix_funpow)
  have "64 * r * n = length V" using n len(1) by simp
  then obtain Y' Z' where fill: "foldl (smix_fill r) (V, X0, Y, Z) (map (\<lambda>k. 2 * k) [0..<n])
      = (concat Vi @ [], (scryptBlockMix r ^^ unat N) X0, Y', Z')" "length Y' = 32 * r" "length Z' = 16"
    using smix_fill_loop [OF \<open>0 < r\<close> lenX len(2,3), of n V] n by (auto simp: Vi_def)
  have lenN: "length ((scryptBlockMix r ^^ unat N) X0) = 32 * r"
    using lenX \<open>0 < r\<close> by (rule length_scryptBlockMix_funpow)
  obtain Y2 Z2 where mix: "foldl (smix_mix r N) (concat Vi @ [], (scryptBlockMix r ^^ unat N) X0, Y', Z')
      (map (\<lambda>k. 2 * k) [0..<n])
      = (concat Vi @ [], (mix_step r (unat N) Vi ^^ unat N) ((scryptBlockMix r ^^ unat N) X0), Y2, Z2)"
    and len2: "length Y2 = 32 * r" "length Z2 = 16"
    using smix_mix_loop [OF \<open>0 < r\<close> lenN fill(2,3) Vi pow, where k = n and W = "[]"]
    unfolding n by metis
  define Xn where "Xn = (mix_step r (unat N) Vi ^^ unat N) ((scryptBlockMix r ^^ unat N) X0)"
  have "length ((mix_step r (unat N) Vi ^^ i) ((scryptBlockMix r ^^ unat N) X0)) = 32 * r" for i
    using length_mix_step [OF _ Vi _ \<open>0 < r\<close>] e lenX \<open>0 < r\<close>
    by (induction i) (simp_all add: length_scryptBlockMix_funpow)
  then have lenXn: "length Xn = 32 * r" by (simp add: Xn_def)
  have rom: "scryptROMix r (unat N) X0 = Xn"
    by (simp add: scryptROMix_def Xn_def Vi_def mix_step_def [abs_def] Let_def)
  have "smix B r N m = (concat (map le32enc Xn) @ drop (128 * r) B, concat Vi, Xn, Y2, Z2)"
    unfolding smix_def mem Let_def prod.case X0_def [symmetric] n_def [symmetric] fill(1) mix
      Xn_def [symmetric] by (simp add: lenXn)
  moreover have "smix_mem_ok r N (concat Vi, Xn, Y2, Z2)"
    using length_concat_equal [OF Vi(1)] Vi(2) lenXn len2 by (simp add: smix_mem_ok_def)
  ultimately show thesis using that lenXn unfolding words [symmetric] rom by blast
qed

section \<open>\<open>libscrypt_scrypt\<close>\<close>

lemma foldl_smix_at:
  assumes "r \<noteq> 0" and "128 * unat r * p < 2 ^ 32" and "length B = 128 * unat r * p"
    and m: "smix_mem_ok (unat r) N m" and pow: "N AND (N - 1) = 0" "2 \<le> N" and "k \<le> p"
  defines "mixed \<equiv> \<lambda>i. concat (map le32enc (scryptROMix (unat r) (unat N)
      (words_of (take (128 * unat r) (drop (i * (128 * unat r)) B)))))"
  shows "\<exists>m'. foldl (smix_at r N) (B, m) [0..<k]
      = (concat (map mixed [0..<k]) @ drop (k * (128 * unat r)) B, m') \<and> smix_mem_ok (unat r) N m'
    \<and> length (concat (map mixed [0..<k])) = k * (128 * unat r)"
  using assms(7)
proof (induction k)
  case 0
  then show ?case using m by simp
next
  case (Suc k)
  then obtain m' where IH: "foldl (smix_at r N) (B, m) [0..<k]
      = (concat (map mixed [0..<k]) @ drop (k * (128 * unat r)) B, m')" and m': "smix_mem_ok (unat r) N m'"
    and len: "length (concat (map mixed [0..<k])) = k * (128 * unat r)" by auto
  have "0 < unat r" using assms(1) by (simp add: unat_gt_0)
  have bound: "Suc k * (128 * unat r) \<le> 128 * unat r * p" 
    using mult_le_mono1 [OF Suc.prems, of "128 * unat r"] by (simp only: mult.commute)
  have off: "unat (of_nat k * 128 * r :: u32) = k * (128 * unat r)"
  proof -
    have "of_nat k * 128 * r = (of_nat (k * (128 * unat r)) :: u32)" by simp
    moreover have "k * (128 * unat r) < 2 ^ 32"
      by (rule le_less_trans [OF le_trans [OF _ bound] assms(2)]) simp
    ultimately show ?thesis by (simp only: unat_u32_of_nat mod_less)
  qed
  have long: "128 * unat r \<le> length (drop (k * (128 * unat r)) B)" using bound assms(3) by simp
  have dropped: "drop (128 * unat r) (drop (k * (128 * unat r)) B) = drop (Suc k * (128 * unat r)) B" by simp
  obtain m'' where sm: "smix (drop (k * (128 * unat r)) B) (unat r) N m'
      = (mixed k @ drop (Suc k * (128 * unat r)) B, m'')" and m'': "smix_mem_ok (unat r) N m''"
    and lenR: "length (scryptROMix (unat r) (unat N)
        (words_of (take (128 * unat r) (drop (k * (128 * unat r)) B)))) = 32 * unat r"
    using smix_eq [OF \<open>0 < unat r\<close> long m' pow, unfolded dropped] unfolding mixed_def by metis
  have "length (concat (map le32enc ws)) = 4 * length ws" for ws by (induction ws) simp_all
  then have lenM: "length (mixed k) = 128 * unat r" unfolding mixed_def by (simp add: lenR)
  have "smix_at r N (concat (map mixed [0..<k]) @ drop (k * (128 * unat r)) B, m') k
      = ((concat (map mixed [0..<k]) @ mixed k) @ drop (Suc k * (128 * unat r)) B, m'')"
    unfolding smix_at_def Let_def prod.case off by (simp add: len sm)
  then show ?case using IH m'' lenM len by simp
qed

lemma libscrypt_scrypt_body:
  fixes P S :: bytes
  assumes "r \<noteq> 0" and "128 * unat r * unat p < 2 ^ 32"
    and XY: "smix_mem_ok (unat r) N (replicate (32 * unat r * unat N) 0, XY)"
    and pow: "N AND (N - 1) = 0" "2 \<le> N" and wf: "hmac_wf stack"
  defines "B \<equiv> libscrypt_PBKDF2_SHA256 stack P S 1 (unat (p * 128 * r))"
  shows "libscrypt_PBKDF2_SHA256 stack P
      (fst (foldl (smix_at r N) (B, replicate (32 * unat r * unat N) 0, XY) [0..<unat p])) 1 dkLen
    = scrypt P S (unat N) (unat r) (unat p) dkLen"
proof -
  have "unat (p * 128 * r) = 128 * unat r * unat p"
  proof -
    have "p * 128 * r = of_nat (128 * unat r * unat p)" by simp
    then show ?thesis using assms(2) by (simp only: unat_u32_of_nat mod_less)
  qed
  then have B: "B = pbkdf2 P S 1 (unat p * 128 * unat r)" and len: "length B = 128 * unat r * unat p"
    by (simp_all add: B_def libscrypt_PBKDF2_SHA256_eq [OF wf] algebra_simps)
  define mixed where "mixed = (\<lambda>i. concat (map le32enc (scryptROMix (unat r) (unat N)
      (words_of (take (128 * unat r) (drop (i * (128 * unat r)) B))))))"
  obtain m' where fold: "foldl (smix_at r N) (B, replicate (32 * unat r * unat N) 0, XY) [0..<unat p]
      = (concat (map mixed [0..<unat p]) @ drop (unat p * (128 * unat r)) B, m')"
    using foldl_smix_at [OF assms(1,2) len XY pow order_refl] unfolding mixed_def by blast
  have "drop (unat p * (128 * unat r)) B = []" by (simp add: len mult.commute)
  then have B': "fst (foldl (smix_at r N) (B, replicate (32 * unat r * unat N) 0, XY) [0..<unat p])
      = concat (map mixed [0..<unat p])"
    by (simp only: fold fst_conv append_Nil2)
  have "scrypt P S (unat N) (unat r) (unat p) dkLen = pbkdf2 P (concat (map mixed [0..<unat p])) 1 dkLen"
    unfolding scrypt_def Let_def B [symmetric] map_map comp_def mixed_def ..
  then show ?thesis unfolding B' libscrypt_PBKDF2_SHA256_eq [OF wf] by simp
qed

text \<open>The checks, in terms of the numbers.\<close>

lemma power_of_two_check: "N AND (N - 1) = 0 \<and> 2 \<le> N \<longleftrightarrow> (\<exists>k. 0 < k \<and> unat N = 2 ^ k)" for N :: u64
proof
  assume "N AND (N - 1) = 0 \<and> 2 \<le> N"
  then show "\<exists>k. 0 < k \<and> unat N = 2 ^ k" using power_of_two_word [of N] by metis
next
  assume "\<exists>k. 0 < k \<and> unat N = 2 ^ k"
  then obtain k where k: "0 < k" "unat N = 2 ^ k" by blast
  have "N = of_nat (unat N)" by simp
  then have N: "N = 2 ^ k" unfolding k by simp
  have "unat N < 2 ^ 64" using unsigned_less [of N, where ?'a = nat] by simp
  then have "(2 :: nat) ^ k < 2 ^ 64" by (simp only: k)
  then have "k < 64" by (rule power_less_imp_less_exp [rotated]) simp
  have "N - 1 = mask k" by (simp add: N mask_eq_exp_minus_1)
  then have "N AND (N - 1) = take_bit k N" by (simp add: take_bit_eq_mask)
  also have "\<dots> = 0" unfolding N by (rule bit_word_eqI) (auto simp: bit_take_bit_iff bit_exp_iff)
  moreover have "2 \<le> unat N" using k(1) unfolding k(2) by (cases k) simp_all
  ultimately show "N AND (N - 1) = 0 \<and> 2 \<le> N" by (simp add: word_le_nat_alt)
qed

lemma unat_product: "unat (ucast r * ucast p :: u64) = unat r * unat p" for r p :: u32
proof -
  have "unat r < 2 ^ 32" "unat p < 2 ^ 32"
    using unsigned_less [of r, where ?'a = nat] unsigned_less [of p, where ?'a = nat] by simp_all
  then have "unat r * unat p < 2 ^ 32 * 2 ^ 32" by (intro mult_strict_mono) simp_all
  then have "unat r * unat p < 2 ^ 64" by (simp only: power_add [symmetric]) simp
  moreover have "take_bit 64 n = n" if "n < 2 ^ 64" for n :: nat
    using that by (rule take_bit_nat_eq_self)
  moreover have "(ucast r * ucast p :: u64) = of_nat (unat r * unat p)" by simp
  ultimately show ?thesis by (simp only: unsigned_of_nat) simp
qed

lemma product_check: "2 ^ 30 \<le> (ucast r * ucast p :: u64) \<longleftrightarrow> 2 ^ 30 \<le> unat r * unat p" for r p :: u32
  unfolding word_le_nat_alt unat_product by simp

text \<open>What the parameters have to satisfy, as the comment over the function says it, and for the
  memory it asks for to be addressable.\<close>

definition scrypt_params :: "u64 \<Rightarrow> u32 \<Rightarrow> u32 \<Rightarrow> nat \<Rightarrow> bool" where
  "scrypt_params N r p dkLen \<longleftrightarrow> dkLen \<le> (2 ^ 32 - 1) * 32 \<and> unat r * unat p < 2 ^ 30
     \<and> r \<noteq> 0 \<and> p \<noteq> 0 \<and> (\<exists>k. 0 < k \<and> unat N = 2 ^ k) \<and> 128 * unat r * unat N < 2 ^ 64"

lemma div_div_le_iff:
  fixes a b m n :: nat
  assumes "0 < a" and "0 < b"
  shows "m div a div b < n \<longleftrightarrow> m < a * b * n"
  using assms by (simp add: div_mult2_eq [symmetric] div_less_iff_less_mult ac_simps)

lemma libscrypt_scrypt_checks:
  "libscrypt_scrypt env P S N r p dkLen =
     (if \<not> (scrypt_params N r p dkLen \<and> malloc_B env \<and> malloc_XY env \<and> mmap_V env) then Inr (- 1, None)
      else if 2 ^ 32 \<le> 128 * unat r * unat p \<or> 2 ^ 32 \<le> 256 * unat r + 64
        then Inl (Undefined (bs ''scrypt: buffer overflow''))
      else (let B = libscrypt_PBKDF2_SHA256 (pbkdf2_stack env) P S 1 (unat (p * 128 * r));
                buf = libscrypt_PBKDF2_SHA256 (pbkdf2_stack env) P
                  (fst (foldl (smix_at r N) (B, replicate (32 * unat r * unat N) 0, XY_init env) [0..<unat p]))
                  1 dkLen
            in if munmap_V env then Inr (0, Some buf) else Inr (- 1, Some buf)))"
proof -
  have big: "(2 :: nat) ^ 64 - 1 < x \<longleftrightarrow> 2 ^ 64 \<le> x" for x by auto
  have "((2 :: nat) ^ 64 - 1) div 128 div unat r < unat N \<longleftrightarrow> 2 ^ 64 \<le> 128 * unat r * unat N" if "r \<noteq> 0"
    using that by (subst div_div_le_iff) (simp_all only: unat_gt_0 big, simp)
  moreover have "((2 :: nat) ^ 64 - 1) div 128 div unat p < unat r \<longleftrightarrow> 2 ^ 64 \<le> 128 * (unat r * unat p)" if "p \<noteq> 0"
    using that by (subst div_div_le_iff) (simp_all only: unat_gt_0 big ac_simps, simp)
  ultimately show ?thesis
    unfolding libscrypt_scrypt_def Let_def product_check scrypt_params_def power_of_two_check [symmetric]
    by (auto simp: not_less mult.commute [of "unat p" "unat r"] split: prod.splits)
qed

text \<open>What a call gives when nothing fails; the key derivations of the program are instances.\<close>

lemma libscrypt_scrypt_result:
  assumes "scrypt_params N r p dkLen" and "malloc_B env \<and> malloc_XY env \<and> mmap_V env \<and> munmap_V env"
    and "128 * unat r * unat p < 2 ^ 32" and "256 * unat r + 64 < 2 ^ 32"
    and "smix_mem_ok (unat r) N (replicate (32 * unat r * unat N) 0, XY_init env)"
    and "hmac_wf (pbkdf2_stack env)"
  shows "libscrypt_scrypt env P S N r p dkLen = Inr (0, Some (scrypt P S (unat N) (unat r) (unat p) dkLen))"
proof -
  have pow: "N AND (N - 1) = 0" "2 \<le> N" "r \<noteq> 0"
    using assms(1) power_of_two_check [of N] by (auto simp: scrypt_params_def)
  show ?thesis
    using assms(1-4) libscrypt_scrypt_body [OF pow(3) assms(3,5) pow(1,2) assms(6)]
    by (simp add: libscrypt_scrypt_checks Let_def del: power_numeral)
qed

section \<open>Properties\<close>

text \<open>The Salsa20/8 core written as 32 assignments to places of an array, four times over, is
  the double round of columns and rows of quarter rounds, added to the input.\<close>

theorem salsa20_8_refines:
  assumes "length B = 16"
  shows "salsa20_8 B = salsa20_8_core B"
  using assms by (rule salsa20_8_eq)

theorem salsa20_8_refines_witness: "salsa20_8 (replicate 16 1) = salsa20_8_core (replicate 16 1)"
  by (rule salsa20_8_refines) simp

text \<open>C23: \<open>smix\<close>, which works on two buffers in turn, keeps its table in one array and finds the
  table's index by masking the low words of the last block, computes RFC 7914's \<open>scryptROMix\<close> of the
  \<open>128 * r\<close> bytes at its pointer, leaves what follows them alone, and leaves scratch memory of the
  same sizes for the next call. This is for a cost \<open>N\<close> that is a power of two above 1.\<close>

theorem smix_refines:
  assumes "0 < r" and "128 * r \<le> length B" and "smix_mem_ok r N m" and "0 < k" and "unat N = 2 ^ k"
  shows "fst (smix B r N m)
      = concat (map le32enc (scryptROMix r (unat N) (words_of (take (128 * r) B)))) @ drop (128 * r) B
    \<and> smix_mem_ok r N (snd (smix B r N m))"
proof -
  have pow: "N AND (N - 1) = 0" "2 \<le> N" using power_of_two_check [of N] assms(4,5) by blast+
  show ?thesis using smix_eq [OF assms(1-3) pow] by (metis fst_conv snd_conv)
qed

theorem smix_refines_witness:
  "fst (smix (replicate 129 3) 1 2 (replicate 64 0, replicate 32 9, replicate 32 9, replicate 16 9))
   = concat (map le32enc (scryptROMix 1 2 (words_of (replicate 128 3)))) @ [3]"
  using smix_refines [of 1 "replicate 129 3" 2 "(replicate 64 0, replicate 32 9, replicate 32 9, replicate 16 9)" 1]
  by (simp add: smix_mem_ok_def)

text \<open>C6: for parameters the function accepts, when no allocation fails and the 32-bit size
  computations do not wrap around, \<open>libscrypt_scrypt\<close> returns 0 and \<open>buf\<close> holds RFC 7914's scrypt of
  the password and the salt, whatever was in the memory it got.\<close>

theorem scrypt_refines:
  assumes "scrypt_params N r p dkLen" and "malloc_B env \<and> malloc_XY env \<and> mmap_V env \<and> munmap_V env"
    and "128 * unat r * unat p < 2 ^ 32" and "256 * unat r + 64 < 2 ^ 32"
    and "smix_mem_ok (unat r) N (replicate (32 * unat r * unat N) 0, XY_init env)"
    and "hmac_wf (pbkdf2_stack env)"
  shows "libscrypt_scrypt env P S N r p dkLen = Inr (0, Some (scrypt P S (unat N) (unat r) (unat p) dkLen))"
  using assms by (rule libscrypt_scrypt_result)

definition example_env :: scrypt_env where
  "example_env = \<lparr>malloc_B = True, malloc_XY = True, mmap_V = True, munmap_V = True,
     XY_init = (replicate 32 7, replicate 32 7, replicate 16 7),
     pbkdf2_stack = \<lparr>ictx = stale_ctx, octx = stale_ctx\<rparr>\<rparr>"

lemma scrypt_params_example: "scrypt_params 2 1 1 64"
proof -
  have "unat (2 :: u64) = 2 ^ 1" by simp
  then have "\<exists>k. 0 < k \<and> unat (2 :: u64) = 2 ^ k" by (metis zero_less_one)
  then show ?thesis by (simp only: scrypt_params_def) simp
qed

theorem scrypt_refines_witness:
  "libscrypt_scrypt example_env [1] [2] 2 1 1 64 = Inr (0, Some (scrypt [1] [2] 2 1 1 64))"
  using scrypt_refines [OF scrypt_params_example, of example_env "[1]" "[2]"]
  by (simp add: example_env_def smix_mem_ok_def hmac_wf_def sha_wf_stale_ctx)

text \<open>Every call that breaks a documented requirement (the length of the key, \<open>r * p < 2^30\<close>,
  neither factor 0, \<open>N\<close> a power of two above 1) or asks for more memory than can be addressed is
  refused: it returns -1 and writes nothing to \<open>buf\<close>.\<close>

theorem scrypt_rejects:
  assumes "\<not> scrypt_params N r p dkLen"
  shows "libscrypt_scrypt env P S N r p dkLen = Inr (- 1, None)"
  using assms by (simp add: libscrypt_scrypt_checks)

theorem scrypt_rejects_witness: "libscrypt_scrypt example_env [1] [2] 2 0 1 64 = Inr (- 1, None)"
  by (rule scrypt_rejects) (simp add: scrypt_params_def)

text \<open>The documented requirements do not keep the 32-bit sizes from wrapping: \<open>r = 1\<close> and
  \<open>p = 2^25\<close> satisfy them, and \<open>128 * r * p\<close> is 0.\<close>

lemma scrypt_size_wrap:
  "scrypt_params 2 1 0x2000000 64 \<and> (128 * 1 * 0x2000000 :: u32) = 0
   \<and> libscrypt_scrypt example_env P S 2 1 0x2000000 64 = Inl (Undefined (bs ''scrypt: buffer overflow''))"
proof -
  have p: "scrypt_params 2 1 0x2000000 64"
    using scrypt_params_example by (simp add: scrypt_params_def)
  then show ?thesis by (simp add: libscrypt_scrypt_checks example_env_def)
qed

end
