(* ===== verification/Wif.thy ===== *)
theory Wif
  imports Base58 Scrypt
begin

text \<open>
  \<open>src/src/btctx/wif.cpp\<close>: keys in wallet import format, addresses, the output script of an address,
  and the password encryption of keys (BIP 38 without EC multiplication).

  CryptoPP and secp256k1 are parameters, one record of functions; \<open>crypto_ok\<close> says what their
  documentation promises of the lengths and of AES decryption. The scrypt the code links is its own
  and is the model of \<open>Scrypt\<close>.
\<close>

unbundle bit_operations_syntax

section \<open>The libraries\<close>

record crypto =
  sha256_digest :: "bytes \<Rightarrow> bytes"                  \<comment> \<open>\<open>CryptoPP::SHA256\<close>\<close>
  ripemd160 :: "bytes \<Rightarrow> bytes"                      \<comment> \<open>\<open>CryptoPP::RIPEMD160\<close>\<close>
  ec_pubkey_create :: "bytes \<Rightarrow> bytes option"        \<comment> \<open>\<open>secp256k1_ec_pubkey_create\<close>\<close>
  ec_pubkey_serialize :: "bool \<Rightarrow> bytes \<Rightarrow> bytes"    \<comment> \<open>compressed or not\<close>
  aes_cbc_encrypt :: "bytes \<Rightarrow> bytes \<Rightarrow> bytes \<Rightarrow> bytes"  \<comment> \<open>key, IV, plaintext; no padding\<close>
  aes_cbc_decrypt :: "bytes \<Rightarrow> bytes \<Rightarrow> bytes \<Rightarrow> bytes"
  ecdsa_sign :: "bytes \<Rightarrow> bytes \<Rightarrow> bytes option"     \<comment> \<open>\<open>secp256k1_ecdsa_sign\<close>: hash, key\<close>
  serialize_der :: "bytes \<Rightarrow> bytes option"           \<comment> \<open>\<open>secp256k1_ecdsa_signature_serialize_der\<close>\<close>

definition crypto_ok :: "crypto \<Rightarrow> bool" where
  "crypto_ok K \<longleftrightarrow> (\<forall>m. length (sha256_digest K m) = 32) \<and> (\<forall>m. length (ripemd160 K m) = 20)
     \<and> (\<forall>sk pk. ec_pubkey_create K sk = Some pk \<longrightarrow>
          length (ec_pubkey_serialize K False pk) = 65 \<and> hd (ec_pubkey_serialize K False pk) = 4
          \<and> length (ec_pubkey_serialize K True pk) = 33 \<and> hd (ec_pubkey_serialize K True pk) \<in> {2, 3})
     \<and> (\<forall>k iv m. length m = 16 \<longrightarrow> length (aes_cbc_encrypt K k iv m) = 16
          \<and> length (aes_cbc_decrypt K k iv m) = 16
          \<and> aes_cbc_decrypt K k iv (aes_cbc_encrypt K k iv m) = m)
     \<and> (\<forall>sig d. serialize_der K sig = Some d \<longrightarrow> length d \<le> 72)"

section \<open>Keys\<close>

definition EC_KEY_LENGTH :: nat where "EC_KEY_LENGTH = 32"
definition EC_PUB_KEY_LENGTH :: nat where "EC_PUB_KEY_LENGTH = 65"

text \<open>The result is the raw key and the out parameter \<open>isCompressed\<close>.\<close>

definition WIFToPrivkey :: "bytes \<Rightarrow> (bytes \<times> bool) res" where
  "WIFToPrivkey wif =
     rbind (DecodeBase58 (c_str wif)) (\<lambda>res.
     case res of
       None \<Rightarrow> Inl (TypedException PRIVATE_KEY_ERROR (bs ''dont decode wif key''))
     | Some decoded \<Rightarrow>
         (let isCompressed = (length decoded = 38 \<and> decoded ! 33 = 1)
          in CHECK_TYPED (33 \<le> length decoded) PRIVATE_KEY_ERROR (bs ''dont decode wif key'')
               (Inr (take 32 (drop 1 decoded), isCompressed))))"

text \<open>The library reads 32 bytes of the key.\<close>

definition seckey :: "bytes \<Rightarrow> bytes res" where
  "seckey rawprivkey = read_c_str 32 rawprivkey"

definition PrivKeyToPubKey :: "crypto \<Rightarrow> bytes \<Rightarrow> bytes res" where
  "PrivKeyToPubKey K rawprivkey =
     rbind (seckey rawprivkey) (\<lambda>sk.
     case ec_pubkey_create K sk of
       None \<Rightarrow> Inl (TypedException PRIVATE_KEY_ERROR (bs ''dont create pubkey''))
     | Some pubkey \<Rightarrow> Inr (ec_pubkey_serialize K False pubkey))"

definition PrivKeyToCompressedPubKey :: "crypto \<Rightarrow> bytes \<Rightarrow> bytes res" where
  "PrivKeyToCompressedPubKey K rawprivkey =
     rbind (seckey rawprivkey) (\<lambda>sk.
     case ec_pubkey_create K sk of
       None \<Rightarrow> Inl (TypedException PRIVATE_KEY_ERROR (bs ''dont create compressed pubkey''))
     | Some pubkey \<Rightarrow> Inr (ec_pubkey_serialize K True pubkey))"

definition doubleHash :: "crypto \<Rightarrow> bytes \<Rightarrow> bytes" where
  "doubleHash K str = sha256_digest K (sha256_digest K str)"

section \<open>Addresses\<close>

definition PubkeyToAddress :: "crypto \<Rightarrow> bytes \<Rightarrow> bool \<Rightarrow> bytes res" where
  "PubkeyToAddress K rawpubkey testnet =
     CHECK_TYPED (length rawpubkey = EC_PUB_KEY_LENGTH) INCORRECT_ADDRESS_OR_PUBLIC_KEY (bs ''Incorrect pub key'')
     (CHECK_TYPED (rawpubkey ! 0 = 4) INCORRECT_ADDRESS_OR_PUBLIC_KEY (bs ''incorrect pub key'')
     (let sha256hash = sha256_digest K rawpubkey;
          address = (if testnet then 0x6F else 0) # ripemd160 K sha256hash;
          finalhash = doubleHash K address
      in Inr (address @ take 4 finalhash)))"

definition CompressedPubkeyToAddress :: "crypto \<Rightarrow> bytes \<Rightarrow> bool \<Rightarrow> bytes res" where
  "CompressedPubkeyToAddress K rawpubkey testnet =
     CHECK_TYPED (length rawpubkey = EC_KEY_LENGTH + 1) INCORRECT_ADDRESS_OR_PUBLIC_KEY (bs ''Incorrect pub key'')
     (CHECK_TYPED (rawpubkey ! 0 = 3 \<or> rawpubkey ! 0 = 2) INCORRECT_ADDRESS_OR_PUBLIC_KEY (bs ''Incorrect pub key'')
     (let sha256hash = sha256_digest K rawpubkey;
          address = (if testnet then 0x6F else 0) # ripemd160 K sha256hash;
          finalhash = doubleHash K address
      in Inr (address @ take 4 finalhash)))"

definition incorrect_address :: "bytes \<Rightarrow> exc" where
  "incorrect_address address = TypedException INCORRECT_ADDRESS_OR_PUBLIC_KEY (bs ''Incorrect address '' @ address)"

definition AddressToPubkeyScript :: "bytes \<Rightarrow> bool \<Rightarrow> bytes res" where
  "AddressToPubkeyScript address isDecode =
     rbind (if isDecode
            then rbind (DecodeBase58 (c_str address)) (\<lambda>res.
              case res of None \<Rightarrow> Inl (incorrect_address address) | Some addr \<Rightarrow> Inr addr)
            else Inr address) (\<lambda>addr.
     if length addr \<noteq> 25 then Inl (incorrect_address address)
     else if addr ! 0 = 111 \<or> addr ! 0 = 0 then
       rbind (HexStringToDump (bs ''76a914'')) (\<lambda>prefix.
       rbind (HexStringToDump (bs ''88ac'')) (\<lambda>suffix.
       Inr (prefix @ take 20 (drop 1 addr) @ suffix)))
     else if addr ! 0 = 5 \<or> addr ! 0 = 5 then
       rbind (HexStringToDump (bs ''a914'')) (\<lambda>prefix.
       rbind (HexStringToDump (bs ''87'')) (\<lambda>suffix.
       Inr (prefix @ take 20 (drop 1 addr) @ suffix)))
     else rbind (EncodeBase58BTC addr) (\<lambda>a. Inl (incorrect_address a)))"

section \<open>Wallet import format\<close>

definition privateKeyToWif :: "crypto \<Rightarrow> bytes \<Rightarrow> bool \<Rightarrow> bool \<Rightarrow> bytes res" where
  "privateKeyToWif K privateKey isTestnet isCompressed =
     (let wif = (if isTestnet then 0xEF else 0x80) # privateKey;
          wif = (if isCompressed then wif @ [1] else wif);
          wif = wif @ take 4 (doubleHash K wif)
      in EncodeBase58BTC wif)"

text \<open>
  A fresh key: whether the generated key validates, and its private exponent as the library prints it,
  hexadecimal digits and an \<open>h\<close>.
\<close>

definition CreateWIF :: "crypto \<Rightarrow> bool \<Rightarrow> bytes \<Rightarrow> bool \<Rightarrow> bool \<Rightarrow> bytes res" where
  "CreateWIF K valid printed isTestnet isCompressed =
     CHECK_TYPED valid PRIVATE_KEY_ERROR (bs ''dont create wif'')
     (rbind (substr printed 0 (size_sub (length printed) 1)) (\<lambda>privateKeyStr.
      let privateKeyStr = replicate (32 * 2 - length privateKeyStr) 48 @ privateKeyStr
      in rbind (HexStringToDump privateKeyStr) (\<lambda>privateKey.
         privateKeyToWif K privateKey isTestnet isCompressed)))"

text \<open>The loop over the four bytes of the checksum.\<close>

fun check_checksum :: "bytes \<Rightarrow> bytes \<Rightarrow> bytes \<Rightarrow> nat list \<Rightarrow> unit res" where
  "check_checksum address addr addrHash [] = Inr ()"
| "check_checksum address addr addrHash (i # is) =
     rbind (at addr (21 + i)) (\<lambda>a.
     rbind (at addrHash i) (\<lambda>h.
     if a = h then check_checksum address addr addrHash is else Inl (incorrect_address address)))"

definition checkAddressBase56 :: "crypto \<Rightarrow> bytes \<Rightarrow> unit res" where
  "checkAddressBase56 K address =
     rbind (DecodeBase58 (c_str address)) (\<lambda>res.
     case res of
       None \<Rightarrow> Inl (incorrect_address address)
     | Some addr \<Rightarrow>
         if length addr \<noteq> 25 then Inl (incorrect_address address)
         else (let addrHash = doubleHash K (take 21 addr)
               in check_checksum address addr addrHash [0..<4]))"

definition getAddress :: "crypto \<Rightarrow> bytes \<Rightarrow> bool \<Rightarrow> (bytes \<times> bool) res" where
  "getAddress K wif isTestnet =
     rbind (WIFToPrivkey wif) (\<lambda>(privKey, isCompressed).
     rbind (if isCompressed
            then rbind (PrivKeyToCompressedPubKey K privKey) (\<lambda>pubKey.
                 CompressedPubkeyToAddress K pubKey isTestnet)
            else rbind (PrivKeyToPubKey K privKey) (\<lambda>pubKey. PubkeyToAddress K pubKey isTestnet))
       (\<lambda>address. rbind (EncodeBase58BTC address) (\<lambda>addressBase58. Inr (addressBase58, isCompressed))))"

section \<open>Encrypted keys\<close>

text \<open>The 64 bytes of derived key, from \<open>libscrypt_scrypt\<close> with \<open>n = 16384\<close>, \<open>r = 8\<close>, \<open>p = 8\<close>.\<close>

definition derive_key :: "scrypt_env \<Rightarrow> bytes \<Rightarrow> bytes \<Rightarrow> bytes res" where
  "derive_key env normalizedPassphraze salt =
     rbind (libscrypt_scrypt env normalizedPassphraze salt 16384 8 8 64) (\<lambda>(res, derivedkey).
     CHECK_TYPED (res = 0) INCORRECT_PASSWORD (bs ''Incorrect password'')
       (case derivedkey of None \<Rightarrow> Inl (Undefined (bs ''uninitialised key'')) | Some key \<Rightarrow> Inr key))"

definition encryptWif :: "crypto \<Rightarrow> scrypt_env \<Rightarrow> bytes \<Rightarrow> bytes \<Rightarrow> bytes res" where
  "encryptWif K env wif normalizedPassphraze =
     rbind (getAddress K wif False) (\<lambda>(addressBase58, _).
     rbind (WIFToPrivkey wif) (\<lambda>(privKey, isCompressed).
     CHECK_TYPED (length privKey = 32) PRIVATE_KEY_ERROR (bs ''Incorrect private key'')
     (let thirdByte = 0xc0 OR (if isCompressed then 0x20 else 0x00);
          checksumAddress = doubleHash K addressBase58;
          salt = take 4 checksumAddress
      in rbind (derive_key env normalizedPassphraze salt) (\<lambda>derivedkey.
      let derivedHalfStr1 = take 32 derivedkey; derivedHalfStr2 = drop 32 derivedkey;
          ciphertext = aes_cbc_encrypt K derivedHalfStr2 (take 16 derivedHalfStr1) (take 16 privKey);
          ciphertext2 = aes_cbc_encrypt K derivedHalfStr2 (take 16 (drop 16 derivedHalfStr1))
                          (take 16 (drop 16 privKey));
          result = [0x01, 0x42, thirdByte] @ salt @ ciphertext @ ciphertext2
      in CHECK_TYPED (length ciphertext = 16) PRIVATE_KEY_ERROR (bs ''Incorrect cbc result'')
        (CHECK_TYPED (length ciphertext2 = 16) PRIVATE_KEY_ERROR (bs ''Incorrect cbc result'')
        (CHECK_TYPED (length result = 39) PRIVATE_KEY_ERROR (bs ''Incorrect result'')
        (EncodeBase58BTC (result @ take 4 (doubleHash K result)))))))))"

definition decryptWif :: "crypto \<Rightarrow> scrypt_env \<Rightarrow> bytes \<Rightarrow> bytes \<Rightarrow> bytes res" where
  "decryptWif K env encryptedWifBase64 normalizedPassphraze =
     CHECK_TYPED (length encryptedWifBase64 = 58) PRIVATE_KEY_ERROR
       (bs ''Incorrect encripted wif size '' @ to_string_nat (length encryptedWifBase64))
     (rbind (DecodeBase58 (c_str encryptedWifBase64)) (\<lambda>res.
     case res of
       None \<Rightarrow> Inl (TypedException PRIVATE_KEY_ERROR (bs ''Incorrect encrypted wif key''))
     | Some encryptedWif \<Rightarrow>
       rbind (str_index encryptedWif 0) (\<lambda>firstByte.
       rbind (str_index encryptedWif 1) (\<lambda>secondByte.
       rbind (str_index encryptedWif 2) (\<lambda>thirdByte.
       CHECK_TYPED (firstByte = 0x01 \<and> secondByte = 0x42) PRIVATE_KEY_ERROR (bs ''Incorrect encrypted wif'')
       (let isCompressed = (thirdByte AND 0x20 \<noteq> 0)
        in rbind (substr encryptedWif 3 4) (\<lambda>salt.
           rbind (substr encryptedWif 7 16) (\<lambda>encryptedhalf1.
           rbind (substr encryptedWif 23 16) (\<lambda>encryptedhalf2.
           rbind (substr_from encryptedWif 39) (\<lambda>checksum.
           CHECK_TYPED (checksum = take 4 (doubleHash K (take 39 encryptedWif))) PRIVATE_KEY_ERROR
             (bs ''Incorrect encrypted wif'')
           (rbind (derive_key env normalizedPassphraze salt) (\<lambda>derivedkey.
            let derivedHalfStr1 = take 32 derivedkey; derivedHalfStr2 = drop 32 derivedkey;
                ciphertext = aes_cbc_decrypt K derivedHalfStr2 (take 16 derivedHalfStr1) encryptedhalf1;
                ciphertext2 = aes_cbc_decrypt K derivedHalfStr2 (take 16 (drop 16 derivedHalfStr1)) encryptedhalf2
            in CHECK_TYPED (length ciphertext = 16) PRIVATE_KEY_ERROR (bs ''Incorrect cbc operation result'')
              (CHECK_TYPED (length ciphertext2 = 16) PRIVATE_KEY_ERROR (bs ''Incorrect cbc operation result'')
              (let privkey = ciphertext @ ciphertext2
               in rbind (privateKeyToWif K privkey False isCompressed) (\<lambda>wif.
                  rbind (getAddress K wif False) (\<lambda>(validAddress, _).
                  let doubleHashAddress = doubleHash K validAddress
                  in CHECK_TYPED (take (length salt) doubleHashAddress = salt) PRIVATE_KEY_ERROR
                       (bs ''Incorrect private key'')
                     (Inr wif)))))))))))))))))"

section \<open>Keys and their format\<close>

lemma crypto_lengths:
  assumes "crypto_ok K"
  shows "length (sha256_digest K m) = 32" "length (ripemd160 K m) = 20" "length (doubleHash K m) = 32"
  using assms by (simp_all add: crypto_ok_def doubleHash_def)

text \<open>The text of a key, and that it is what the code writes for a key of ordinary length.\<close>

definition wif_text :: "crypto \<Rightarrow> bytes \<Rightarrow> bool \<Rightarrow> bool \<Rightarrow> bytes" where
  "wif_text K privateKey isTestnet isCompressed =
     (let wif = (if isTestnet then 0xEF else 0x80) # privateKey;
          wif = (if isCompressed then wif @ [1] else wif);
          wif = wif @ take 4 (doubleHash K wif)
      in base58 wif)"

lemma privateKeyToWif_eq: "length sk \<le> 2 ^ 30 \<Longrightarrow> privateKeyToWif K sk t c = Inr (wif_text K sk t c)"
  by (simp add: privateKeyToWif_def wif_text_def Let_def EncodeBase58BTC_eq)

text \<open>What \<open>WIFToPrivkey\<close> looks at: the length, the 32 bytes of the key, and one byte after it.\<close>

lemma WIFToPrivkey_base58:
  assumes "length p * 138 div 100 + 1 < 2 ^ 31"
  shows "WIFToPrivkey (base58 p) =
     (if 33 \<le> length p then Inr (take 32 (drop 1 p), length p = 38 \<and> p ! 33 = 1)
      else Inl (TypedException PRIVATE_KEY_ERROR (bs ''dont decode wif key'')))"
  by (simp add: WIFToPrivkey_def DecodeBase58_base58 [OF assms])

lemma WIFToPrivkey_wif_text:
  assumes "crypto_ok K" and "length sk = 32"
  shows "WIFToPrivkey (wif_text K sk t c) = Inr (sk, c)"
  using assms(2) crypto_lengths [OF assms(1)]
  by (simp add: wif_text_def Let_def WIFToPrivkey_base58 nth_append)

lemma WIFToPrivkey_length: "WIFToPrivkey wif = Inr (sk, c) \<Longrightarrow> length sk = 32"
  by (auto simp: WIFToPrivkey_def Let_def res_simps split: option.splits)

lemma HexStringToDump_literals:
  "HexStringToDump (bs ''76a914'') = Inr [0x76, 0xa9, 0x14]" "HexStringToDump (bs ''88ac'') = Inr [0x88, 0xac]"
  "HexStringToDump (bs ''a914'') = Inr [0xa9, 0x14]" "HexStringToDump (bs ''87'') = Inr [0x87]"
  by (subst HexStringToDump_eq; simp add: bs_def hex_nibble_def push_bit_eq_mult)+

section \<open>Addresses\<close>

lemma AddressToPubkeyScript_base58:
  assumes "length addr = 25"
  shows "AddressToPubkeyScript (base58 addr) True =
    (if addr ! 0 = 111 \<or> addr ! 0 = 0 then Inr ([0x76, 0xa9, 0x14] @ take 20 (drop 1 addr) @ [0x88, 0xac])
     else if addr ! 0 = 5 then Inr ([0xa9, 0x14] @ take 20 (drop 1 addr) @ [0x87])
     else Inl (incorrect_address (base58 addr)))"
  using assms
  by (simp add: AddressToPubkeyScript_def DecodeBase58_base58 EncodeBase58BTC_eq HexStringToDump_literals)

lemma check_checksum_iff:
  assumes "length addr = 25" and "length h = 32" and "\<forall>i \<in> set is. i < 4"
  shows "check_checksum a addr h is
    = (if \<forall>i \<in> set is. addr ! (21 + i) = h ! i then Inr () else Inl (incorrect_address a))"
  using assms by (induction "is") (auto simp: at_def)

lemma checkAddressBase56_eq:
  assumes "crypto_ok K"
  shows "checkAddressBase56 K a =
    (case DecodeBase58 (c_str a) of
       Inl e \<Rightarrow> Inl e
     | Inr None \<Rightarrow> Inl (incorrect_address a)
     | Inr (Some addr) \<Rightarrow>
         if length addr = 25 \<and> drop 21 addr = take 4 (doubleHash K (take 21 addr)) then Inr ()
         else Inl (incorrect_address a))"
proof (cases "DecodeBase58 (c_str a)")
  case (Inl e)
  then show ?thesis by (simp add: checkAddressBase56_def)
next
  case (Inr r)
  show ?thesis
  proof (cases r)
    case None
    then show ?thesis by (simp add: checkAddressBase56_def Inr)
  next
    case (Some addr)
    have four: "\<forall>i \<in> set [0..<4]. i < 4" by simp
    show ?thesis
    proof (cases "length addr = 25")
      case False
      then show ?thesis by (simp add: checkAddressBase56_def Inr Some)
    next
      case True
      let ?h = "doubleHash K (take 21 addr)"
      have h: "length ?h = 32" using crypto_lengths [OF assms] by simp
      have "(\<forall>i \<in> set [0..<4]. addr ! (21 + i) = ?h ! i) \<longleftrightarrow> drop 21 addr = take 4 ?h"
        using True h by (auto simp: list_eq_iff_nth_eq)
      then show ?thesis
        using True check_checksum_iff [OF True h four, of a]
        by (simp add: checkAddressBase56_def Inr Some Let_def del: upt_Suc set_upt upt_rec_numeral)
    qed
  qed
qed

definition pubkey_hash :: "crypto \<Rightarrow> bytes \<Rightarrow> bytes" where
  "pubkey_hash K pk = ripemd160 K (sha256_digest K pk)"

definition address_bytes :: "crypto \<Rightarrow> bytes \<Rightarrow> bool \<Rightarrow> bytes" where
  "address_bytes K pk testnet =
     (let a = (if testnet then 0x6F else 0) # pubkey_hash K pk in a @ take 4 (doubleHash K a))"

lemma getAddress_Inl: "WIFToPrivkey wif = Inl e \<Longrightarrow> getAddress K wif t = Inl e"
  by (simp add: getAddress_def)

lemma getAddress_eq:
  assumes K: "crypto_ok K" and wif: "WIFToPrivkey wif = Inr (sk, c)"
  shows "getAddress K wif t =
    (case ec_pubkey_create K sk of
       None \<Rightarrow> Inl (TypedException PRIVATE_KEY_ERROR
                 (if c then bs ''dont create compressed pubkey'' else bs ''dont create pubkey''))
     | Some pub \<Rightarrow> Inr (base58 (address_bytes K (ec_pubkey_serialize K c pub) t), c))"
proof -
  have sk: "length sk = 32" using wif by (rule WIFToPrivkey_length)
  show ?thesis
  proof (cases "ec_pubkey_create K sk")
    case None
    then show ?thesis
      using sk by (cases c)
        (simp_all add: getAddress_def wif PrivKeyToCompressedPubKey_def PrivKeyToPubKey_def seckey_def)
  next
    case (Some pub)
    then have len: "length (ec_pubkey_serialize K False pub) = 65" "hd (ec_pubkey_serialize K False pub) = 4"
      "length (ec_pubkey_serialize K True pub) = 33" "hd (ec_pubkey_serialize K True pub) \<in> {2, 3}"
      using K by (auto simp: crypto_ok_def)
    then have "ec_pubkey_serialize K b pub \<noteq> []" for b by (cases b) auto
    then have "ec_pubkey_serialize K False pub ! 0 = 4"
      "ec_pubkey_serialize K True pub ! 0 = 3 \<or> ec_pubkey_serialize K True pub ! 0 = 2"
      using len by (auto simp: hd_conv_nth)
    then show ?thesis
      using sk Some len by (cases c)
        (simp_all add: getAddress_def wif PrivKeyToCompressedPubKey_def PrivKeyToPubKey_def seckey_def
          CompressedPubkeyToAddress_def PubkeyToAddress_def EC_KEY_LENGTH_def EC_PUB_KEY_LENGTH_def
          address_bytes_def pubkey_hash_def Let_def EncodeBase58BTC_eq crypto_lengths [OF K])
  qed
qed

section \<open>Encrypted keys\<close>

definition scrypt_env_ok :: "scrypt_env \<Rightarrow> bool" where
  "scrypt_env_ok env \<longleftrightarrow> malloc_B env \<and> malloc_XY env \<and> mmap_V env \<and> munmap_V env
     \<and> (case XY_init env of (X, Y, Z) \<Rightarrow> length X = 256 \<and> length Y = 256 \<and> length Z = 16)
     \<and> hmac_wf (pbkdf2_stack env)"

lemma derive_key_eq:
  assumes "scrypt_env_ok env"
  shows "derive_key env pass salt = Inr (scrypt pass salt 16384 8 8 64)"
proof -
  have "unat (16384 :: u64) = 2 ^ 14" by simp
  then have "\<exists>k. 0 < k \<and> unat (16384 :: u64) = 2 ^ k" by (metis zero_less_numeral)
  then have params: "scrypt_params 16384 8 8 64" by (simp only: scrypt_params_def) simp
  have "libscrypt_scrypt env pass salt 16384 8 8 64
      = Inr (0, Some (scrypt pass salt (unat (16384 :: u64)) (unat (8 :: u32)) (unat (8 :: u32)) 64))"
    by (rule libscrypt_scrypt_result [OF params]) (use assms in \<open>auto simp: scrypt_env_ok_def smix_mem_ok_def\<close>)
  then show ?thesis by (simp add: derive_key_def)
qed

lemma length_scrypt: "length (scrypt P S N r p dkLen) = dkLen"
  by (simp add: scrypt_def Let_def)

text \<open>What \<open>encryptWif\<close> encodes, before its checksum.\<close>

definition encrypted_body :: "crypto \<Rightarrow> bytes \<Rightarrow> bytes \<Rightarrow> bool \<Rightarrow> bytes \<Rightarrow> bytes" where
  "encrypted_body K pass sk c address =
     (let salt = take 4 (doubleHash K address); key = scrypt pass salt 16384 8 8 64
      in [0x01, 0x42, if c then 0xe0 else 0xc0] @ salt
         @ aes_cbc_encrypt K (drop 32 key) (take 16 key) (take 16 sk)
         @ aes_cbc_encrypt K (drop 32 key) (take 16 (drop 16 (take 32 key))) (drop 16 sk))"

lemma length_encrypted_body:
  assumes "crypto_ok K" and "length sk = 32"
  shows "length (encrypted_body K pass sk c address) = 39"
  using assms crypto_lengths [OF assms(1)] by (simp add: encrypted_body_def Let_def crypto_ok_def)

lemma encryptWif_eq:
  assumes K: "crypto_ok K" and env: "scrypt_env_ok env" and wif: "WIFToPrivkey wif = Inr (sk, c)"
    and addr: "getAddress K wif False = Inr (a, c)"
  shows "encryptWif K env wif pass = Inr (base58
     (encrypted_body K pass sk c a @ take 4 (doubleHash K (encrypted_body K pass sk c a))))"
proof -
  have sk: "length sk = 32" using wif by (rule WIFToPrivkey_length)
  have flag: "(0xc0 :: byte) OR (if c then 0x20 else 0) = (if c then 0xe0 else 0xc0)" by simp
  show ?thesis
    using K sk crypto_lengths [OF K] length_encrypted_body [OF K sk, of pass c a]
    unfolding encryptWif_def addr wif rbind_simps prod.case Let_def derive_key_eq [OF env] flag
    by (simp add: encrypted_body_def Let_def crypto_ok_def EncodeBase58BTC_eq)
qed

text \<open>An encrypted key has 58 characters and starts with \<open>6P\<close>.\<close>

lemma encrypted_shape:
  assumes len: "length rest = 40" and b: "b = 0xc0 \<or> b = (0xe0 :: byte)"
  shows "length (base58 (0x01 # 0x42 # b # rest)) = 58"
    and "take 2 (base58 (0x01 # 0x42 # b # rest)) = bs ''6P''"
proof -
  let ?p = "0x01 # 0x42 # b # rest"
  define v where "v = horner_sum unat 256 (rev rest)"
  have v: "v < 256 ^ 40" using r256.value_less [of "rev rest"] len by (simp add: v_def)
  have val: "horner_sum unat 256 (rev ?p) = v + 256 ^ 40 * (unat b + 0x14200)"
  proof -
    have "rev ?p = rev rest @ [b, 0x42, 0x01]" by simp
    moreover have "horner_sum unat 256 [b, 0x42, 0x01] = unat b + 0x14200" by simp
    ultimately show ?thesis by (simp only: horner_sum_append v_def length_rev len)
  qed
  have "312 * 58 ^ 56 \<le> v + 256 ^ 40 * (unat b + 0x14200)"
    using b by auto
  moreover have "v + 256 ^ 40 * (unat b + 0x14200) < (312 + 1) * 58 ^ 56"
    using b v by auto
  ultimately obtain t where "base58 ?p = symbol (of_nat (312 div 58)) # symbol (of_nat (312 mod 58)) # t"
    and "length t = 56"
    using base58_head [of ?p 312 56] unfolding val by auto
  then show "length (base58 ?p) = 58" "take 2 (base58 ?p) = bs ''6P''"
    by (simp_all add: symbol_def pszBase58_def bs_def)
qed

lemma encrypted_body_shape:
  assumes "crypto_ok K" and "length sk = 32" and "length h = 4"
  shows "length (base58 (encrypted_body K pass sk c a @ h)) = 58"
    and "take 2 (base58 (encrypted_body K pass sk c a @ h)) = bs ''6P''"
proof -
  obtain b rest where body: "encrypted_body K pass sk c a @ h = 0x01 # 0x42 # b # rest"
    and b: "b = 0xc0 \<or> b = (0xe0 :: byte)"
    by (simp add: encrypted_body_def Let_def)
  have "length (0x01 # 0x42 # b # rest) = 43"
    unfolding body [symmetric] using length_encrypted_body [OF assms(1,2), of pass c a] assms(3) by simp
  then have rest: "length rest = 40" by simp
  show "length (base58 (encrypted_body K pass sk c a @ h)) = 58"
    and "take 2 (base58 (encrypted_body K pass sk c a @ h)) = bs ''6P''"
    unfolding body by (rule encrypted_shape [OF rest b])+
qed

lemma CHECK_TYPED_TrueI: "v \<Longrightarrow> CHECK_TYPED v t s k = k"
  by simp

lemma substr_fits: "pos \<le> length s \<Longrightarrow> substr s pos n = Inr (take n (drop pos s))"
  by (simp add: substr_def)

lemma decryptWif_encrypted:
  fixes pass :: bytes
  assumes K: "crypto_ok K" and env: "scrypt_env_ok env" and sk: "length sk = 32"
    and pub: "ec_pubkey_create K sk = Some pub"
    and a: "a = base58 (address_bytes K (ec_pubkey_serialize K c pub) False)"
  defines "body \<equiv> encrypted_body K pass sk c a"
  shows "decryptWif K env (base58 (body @ take 4 (doubleHash K body))) pass
    = Inr (wif_text K sk False c)"
proof -
  define salt where "salt = take 4 (doubleHash K a)"
  define key where "key = scrypt pass salt 16384 8 8 64"
  define e1 where "e1 = aes_cbc_encrypt K (drop 32 key) (take 16 key) (take 16 sk)"
  define e2 where "e2 = aes_cbc_encrypt K (drop 32 key) (take 16 (drop 16 (take 32 key))) (drop 16 sk)"
  define b where "b = (if c then 0xe0 else 0xc0 :: byte)"
  define sum where "sum = take 4 (doubleHash K body)"
  define E where "E = body @ sum"
  have body: "body = [0x01, 0x42, b] @ salt @ e1 @ e2"
    by (simp add: body_def encrypted_body_def Let_def salt_def key_def e1_def e2_def b_def)
  have len: "length salt = 4" "length e1 = 16" "length e2 = 16" "length sum = 4" "length body = 39"
    using K sk crypto_lengths [OF K]
    by (simp_all add: salt_def e1_def e2_def sum_def body_def length_encrypted_body crypto_ok_def)
  have dec: "aes_cbc_decrypt K (drop 32 key) (take 16 key) e1 = take 16 sk"
    "aes_cbc_decrypt K (drop 32 key) (take 16 (drop 16 (take 32 key))) e2 = drop 16 sk"
    using K sk by (simp_all add: e1_def e2_def crypto_ok_def)
  have size: "length (base58 E) = 58"
    unfolding E_def body_def by (rule encrypted_body_shape [OF K sk len(4)])
  have parts: "str_index E 0 = Inr 0x01" "str_index E 1 = Inr 0x42" "str_index E 2 = Inr b"
    "substr E 3 4 = Inr salt" "substr E 7 16 = Inr e1" "substr E 23 16 = Inr e2"
    "substr_from E 39 = Inr sum" "take 39 E = body"
    by (simp_all add: E_def body str_index_def substr_def substr_from_def len)
  have flag: "b AND 0x20 \<noteq> 0 \<longleftrightarrow> c" by (simp add: b_def)
  have addr: "getAddress K (wif_text K sk False c) False = Inr (a, c)"
    using getAddress_eq [OF K WIFToPrivkey_wif_text [OF K sk]] pub a by simp
  have printed: "privateKeyToWif K sk False c = Inr (wif_text K sk False c)" using sk by (simp add: privateKeyToWif_eq)
  have "length E = 43" using len by (simp add: E_def)
  then have read: "DecodeBase58 (base58 E) = Inr (Some E)" by (intro DecodeBase58_base58) simp
  have half: "take 16 (take 32 key) = take 16 key" "take 16 sk @ drop 16 sk = sk" by simp_all
  show ?thesis
    unfolding decryptWif_def E_def [symmetric] sum_def [symmetric] size
      c_str_base58 read rbind_simps option.case parts Let_def
      derive_key_eq [OF env] key_def [symmetric] half dec flag printed rbind_simps addr prod.case len
    using sk by (simp add: sum_def salt_def)
qed

lemma encrypt_decrypt:
  assumes K: "crypto_ok K" and env: "scrypt_env_ok env" "scrypt_env_ok env'"
    and wif: "WIFToPrivkey wif = Inr (sk, c)" and pub: "ec_pubkey_create K sk = Some pub"
  obtains e where "encryptWif K env wif pass = Inr e" and "length e = 58" and "take 2 e = bs ''6P''"
    and "decryptWif K env' e pass = Inr (wif_text K sk False c)"
proof -
  define a where "a = base58 (address_bytes K (ec_pubkey_serialize K c pub) False)"
  define body where "body = encrypted_body K pass sk c a"
  define e where "e = base58 (body @ take 4 (doubleHash K body))"
  have sk: "length sk = 32" using wif by (rule WIFToPrivkey_length)
  have addr: "getAddress K wif False = Inr (a, c)" using getAddress_eq [OF K wif] pub by (simp add: a_def)
  have "length (take 4 (doubleHash K body)) = 4" using crypto_lengths [OF K] by simp
  from encrypted_body_shape [OF K sk this, of pass c a]
  have "length e = 58" "take 2 e = bs ''6P''" by (simp_all add: e_def body_def)
  moreover have "encryptWif K env wif pass = Inr e"
    using encryptWif_eq [OF K env(1) wif addr] by (simp add: e_def body_def)
  moreover have "decryptWif K env' e pass = Inr (wif_text K sk False c)"
    using decryptWif_encrypted [OF K env(2) sk pub a_def] by (simp add: e_def body_def)
  ultimately show thesis using that by blast
qed

section \<open>Fresh keys\<close>

lemma CreateWIF_eq:
  assumes K: "crypto_ok K" and ds: "\<forall>d \<in> set ds. d \<in> set hex" "length ds \<le> 64"
  obtains sk where "CreateWIF K True (ds @ bs ''h'') t c = Inr (wif_text K sk t c)"
    and "length sk = 32" and "DumpToHexString sk = replicate (64 - length ds) 48 @ ds"
proof -
  define p where "p = replicate (64 - length ds) 48 @ ds"
  have hex: "is_hex d \<and> tolower d = d" if "d \<in> set hex" for d
    using that by (auto simp: hex_def bs_def is_hex_def tolower_def)
  have p: "length p = 64" "\<forall>d \<in> set p. is_hex d" "map tolower p = p"
    using ds hex by (auto simp: p_def is_hex_def tolower_def map_idI)
  then obtain sk where sk: "HexStringToDump p = Inr sk"
    using HexStringToDump_Inr [of p] by auto
  have "length sk = 32" "DumpToHexString sk = p"
    using length_HexStringToDump [OF _ sk] DumpToHexString_HexStringToDump [OF sk] p by simp_all
  moreover have "size_sub (length (ds @ bs ''h'')) 1 = length ds"
    using ds(2) by (simp add: size_sub_def mod_if)
  then have "CreateWIF K True (ds @ bs ''h'') t c = Inr (wif_text K sk t c)"
    using ds(2) sk \<open>length sk = 32\<close> by (simp add: CreateWIF_def Let_def p_def privateKeyToWif_eq)
  ultimately show thesis using that by (simp add: p_def)
qed

section \<open>Properties\<close>

text \<open>Libraries for the witnesses: SHA-256 is the one of \<open>Sha256\<close>, the others are stand-ins of the
  right shapes.\<close>

definition example_crypto :: crypto where
  "example_crypto = \<lparr>sha256_digest = sha256, ripemd160 = (\<lambda>m. take 20 (sha256 (0 # m))),
     ec_pubkey_create = (\<lambda>sk. if \<forall>b \<in> set sk. b = 0 then None else Some (sk @ sk)),
     ec_pubkey_serialize = (\<lambda>compressed pk.
       if compressed then 2 # take 32 (pk @ replicate 32 0) else 4 # take 64 (pk @ replicate 64 0)),
     aes_cbc_encrypt = (\<lambda>k iv m. map (\<lambda>b. b + 1) m), aes_cbc_decrypt = (\<lambda>k iv m. map (\<lambda>b. b - 1) m),
     ecdsa_sign = (\<lambda>h k. Some (take 32 h @ take 32 k)), serialize_der = (\<lambda>sig. Some (48 # take 63 sig))\<rparr>"

lemma crypto_ok_example: "crypto_ok example_crypto"
  by (auto simp: crypto_ok_def example_crypto_def comp_def min_def)

definition example_scrypt_env :: scrypt_env where
  "example_scrypt_env = \<lparr>malloc_B = True, malloc_XY = True, mmap_V = True, munmap_V = True,
     XY_init = (replicate 256 7, replicate 256 7, replicate 16 7),
     pbkdf2_stack = \<lparr>ictx = stale_ctx, octx = stale_ctx\<rparr>\<rparr>"

lemma scrypt_env_ok_example: "scrypt_env_ok example_scrypt_env"
  by (simp add: scrypt_env_ok_def example_scrypt_env_def hmac_wf_def sha_wf_stale_ctx)

definition example_key :: bytes where "example_key = replicate 32 1"

text \<open>C27: a 32-byte key written in wallet import format is read back, with its compression flag, for
  both networks.\<close>

theorem wif_roundtrip:
  assumes "crypto_ok K" and "length sk = 32"
  shows "rbind (privateKeyToWif K sk isTestnet isCompressed) WIFToPrivkey = Inr (sk, isCompressed)"
  using assms by (simp add: privateKeyToWif_eq WIFToPrivkey_wif_text)

theorem wif_roundtrip_witness:
  "rbind (privateKeyToWif example_crypto example_key False True) WIFToPrivkey = Inr (example_key, True)"
  by (rule wif_roundtrip [OF crypto_ok_example]) (simp add: example_key_def)

text \<open>\<open>WIFToPrivkey\<close> looks at neither the network byte nor the checksum: every first byte and
  every four last bytes are accepted, compressed or not. A mistyped key is read as another key.\<close>

theorem wif_checksum_ignored:
  assumes "length sk = 32" and "length checksum = 4"
  shows "WIFToPrivkey (base58 (network # sk @ (if c then [1] else []) @ checksum)) = Inr (sk, c)"
  using assms by (simp add: WIFToPrivkey_base58 nth_append)

theorem wif_checksum_ignored_witness:
  "WIFToPrivkey (base58 (7 # example_key @ [1] @ [0, 0, 0, 0])) = Inr (example_key, True)"
  using wif_checksum_ignored [of example_key "[0, 0, 0, 0]" 7 True] by (simp add: example_key_def)

text \<open>C26: the address of a key is one that \<open>checkAddressBase56\<close> accepts, on both networks, and the
  output script that \<open>AddressToPubkeyScript\<close> makes from it pays to the hash of that key's public key.\<close>

theorem own_address:
  assumes "crypto_ok K" and "getAddress K wif isTestnet = Inr (address, c)"
  shows "checkAddressBase56 K address = Inr ()
    \<and> (\<exists>sk pub. WIFToPrivkey wif = Inr (sk, c) \<and> ec_pubkey_create K sk = Some pub
        \<and> AddressToPubkeyScript address True
            = Inr ([0x76, 0xa9, 0x14] @ pubkey_hash K (ec_pubkey_serialize K c pub) @ [0x88, 0xac]))"
proof -
  obtain sk c' where wif: "WIFToPrivkey wif = Inr (sk, c')"
    using assms(2) getAddress_Inl [of wif] by (cases "WIFToPrivkey wif") auto
  then obtain pub where pub: "ec_pubkey_create K sk = Some pub" "c' = c"
    and a: "address = base58 (address_bytes K (ec_pubkey_serialize K c pub) isTestnet)"
    using assms(2) getAddress_eq [OF assms(1) wif] by (auto split: option.splits)
  note len = crypto_lengths [OF assms(1)]
  have "checkAddressBase56 K address = Inr ()"
    unfolding checkAddressBase56_eq [OF assms(1)] a
    by (simp add: DecodeBase58_base58 address_bytes_def pubkey_hash_def Let_def len)
  moreover have "AddressToPubkeyScript address True
      = Inr ([0x76, 0xa9, 0x14] @ pubkey_hash K (ec_pubkey_serialize K c pub) @ [0x88, 0xac])"
    unfolding a by (subst AddressToPubkeyScript_base58)
      (simp_all add: address_bytes_def pubkey_hash_def Let_def len)
  ultimately show ?thesis using wif pub by blast
qed

definition example_address :: bytes where
  "example_address = base58 (address_bytes example_crypto (2 # example_key) False)"

lemma example_getAddress:
  "getAddress example_crypto (wif_text example_crypto example_key False True) False
   = Inr (example_address, True)"
  by (subst getAddress_eq [OF crypto_ok_example WIFToPrivkey_wif_text [OF crypto_ok_example]])
    (simp_all add: example_key_def example_crypto_def example_address_def)

theorem own_address_witness:
  "checkAddressBase56 example_crypto example_address = Inr ()
   \<and> AddressToPubkeyScript example_address True
     = Inr ([0x76, 0xa9, 0x14] @ pubkey_hash example_crypto (2 # example_key) @ [0x88, 0xac])"
proof -
  have pub: "ec_pubkey_create example_crypto sk = Some pub \<Longrightarrow> pub = sk @ sk" for sk pub
    by (simp add: example_crypto_def split: if_splits)
  have ser: "ec_pubkey_serialize example_crypto True (example_key @ example_key) = 2 # example_key"
    by (simp add: example_crypto_def example_key_def)
  have wif: "WIFToPrivkey (wif_text example_crypto example_key False True) = Inr (example_key, True)"
    by (rule WIFToPrivkey_wif_text [OF crypto_ok_example]) (simp add: example_key_def)
  show ?thesis
    using own_address [OF crypto_ok_example example_getAddress] wif pub ser by auto
qed

text \<open>\<open>checkAddressBase56\<close> accepts exactly the strings that decode to 21 bytes and the first four
  bytes of their double hash; every other string raises the error that names the address. It
  accepts any version byte.\<close>

theorem checkAddress_exact:
  assumes "crypto_ok K"
  shows "checkAddressBase56 K address =
    (case DecodeBase58 (c_str address) of
       Inl e \<Rightarrow> Inl e
     | Inr None \<Rightarrow> Inl (incorrect_address address)
     | Inr (Some addr) \<Rightarrow>
         if length addr = 25 \<and> drop 21 addr = take 4 (doubleHash K (take 21 addr)) then Inr ()
         else Inl (incorrect_address address))"
  using assms by (rule checkAddressBase56_eq)

theorem checkAddress_exact_witness:
  "checkAddressBase56 example_crypto (base58 [1, 2, 3])
   = Inl (incorrect_address (base58 [1, 2, 3]))"
  using checkAddress_exact [OF crypto_ok_example, of "base58 [1, 2, 3]"]
  by (simp add: DecodeBase58_base58)

text \<open>The script of a 25-byte address is decided by its first byte alone: pay-to-public-key-hash
  for 0 and 111 (both networks), pay-to-script-hash for 5, an error for every other version, among
  them 196, the script addresses of the test network (the second half of the code's test compares
  with 5 again). The checksum is not looked at.\<close>

theorem script_by_version:
  assumes "length addr = 25"
  shows "AddressToPubkeyScript (base58 addr) True =
    (if addr ! 0 = 111 \<or> addr ! 0 = 0 then Inr ([0x76, 0xa9, 0x14] @ take 20 (drop 1 addr) @ [0x88, 0xac])
     else if addr ! 0 = 5 then Inr ([0xa9, 0x14] @ take 20 (drop 1 addr) @ [0x87])
     else Inl (incorrect_address (base58 addr)))"
  using assms by (rule AddressToPubkeyScript_base58)

theorem script_by_version_witness:
  "AddressToPubkeyScript (base58 (196 # replicate 24 0)) True
   = Inl (incorrect_address (base58 (196 # replicate 24 0)))"
  by (subst script_by_version) simp_all

text \<open>C7: encrypting a key with a password and decrypting the result with that password gives the key
  back, in the format of the main network with its compression flag; the encrypted key has the 58
  characters that \<open>decryptWif\<close> asks for and starts with \<open>6P\<close>. The two calls may run on different
  memory.\<close>

theorem encrypt_decrypt_roundtrip:
  assumes "crypto_ok K" and "scrypt_env_ok env" and "scrypt_env_ok env'"
    and "length sk = 32" and "ec_pubkey_create K sk = Some pub"
  shows "case rbind (privateKeyToWif K sk isTestnet c) (\<lambda>wif. encryptWif K env wif pass) of
      Inl e \<Rightarrow> False
    | Inr w \<Rightarrow> length w = 58 \<and> take 2 w = bs ''6P''
        \<and> decryptWif K env' w pass = privateKeyToWif K sk False c"
proof -
  obtain w where "encryptWif K env (wif_text K sk isTestnet c) pass = Inr w" and "length w = 58"
    and "take 2 w = bs ''6P''" and "decryptWif K env' w pass = Inr (wif_text K sk False c)"
    by (rule encrypt_decrypt [OF assms(1-3) WIFToPrivkey_wif_text [OF assms(1,4)] assms(5)])
  then show ?thesis using assms(4) by (simp add: privateKeyToWif_eq)
qed

theorem encrypt_decrypt_roundtrip_witness:
  "case rbind (privateKeyToWif example_crypto example_key False True)
        (\<lambda>wif. encryptWif example_crypto example_scrypt_env wif (bs ''secret'')) of
      Inl e \<Rightarrow> False
    | Inr w \<Rightarrow> length w = 58 \<and> take 2 w = bs ''6P''
        \<and> decryptWif example_crypto example_scrypt_env w (bs ''secret'')
          = privateKeyToWif example_crypto example_key False True"
  by (rule encrypt_decrypt_roundtrip [OF crypto_ok_example scrypt_env_ok_example scrypt_env_ok_example,
        where pub = "example_key @ example_key"])
    (simp_all add: example_key_def example_crypto_def)

text \<open>a fresh key keeps every digit of the generated number: for up to 64 hexadecimal digits as the
  library prints them, the key that \<open>CreateWIF\<close> writes is read back as 32 bytes whose dump is these
  digits, padded on the left with zeros.\<close>

theorem fresh_key:
  assumes "crypto_ok K" and "list_all (\<lambda>d. d \<in> set hex) ds" and "length ds \<le> 64"
  shows "case CreateWIF K True (ds @ bs ''h'') isTestnet isCompressed of
      Inl e \<Rightarrow> False
    | Inr wif \<Rightarrow> (case WIFToPrivkey wif of
        Inl e \<Rightarrow> False
      | Inr (sk, c) \<Rightarrow> length sk = 32 \<and> c = isCompressed
          \<and> DumpToHexString sk = replicate (64 - length ds) 48 @ ds)"
proof -
  obtain sk where "CreateWIF K True (ds @ bs ''h'') isTestnet isCompressed
      = Inr (wif_text K sk isTestnet isCompressed)"
    and "length sk = 32" and "DumpToHexString sk = replicate (64 - length ds) 48 @ ds"
    by (rule CreateWIF_eq [OF assms(1) assms(2) [unfolded list_all_iff] assms(3)])
  then show ?thesis using WIFToPrivkey_wif_text [OF assms(1)] by simp
qed

theorem fresh_key_witness:
  "case CreateWIF example_crypto True (bs ''a1'' @ bs ''h'') False True of
      Inl e \<Rightarrow> False
    | Inr wif \<Rightarrow> (case WIFToPrivkey wif of
        Inl e \<Rightarrow> False
      | Inr (sk, c) \<Rightarrow> length sk = 32 \<and> c = True \<and> DumpToHexString sk = replicate (64 - length (bs ''a1'')) 48 @ bs ''a1'')"
  by (rule fresh_key [OF crypto_ok_example]) (simp_all add: hex_def bs_def)

end
