(* ===== verification/TxFormat.thy ===== *)
theory TxFormat
  imports Utils2
begin

text \<open>
  The format of a Bitcoin transaction (without witness data), as a specification: what each part is
  encoded to, and a reader for the whole. Every part is a prefix code, so the readers compose. The
  code that writes transactions (\<open>Btctx\<close>) is shown to produce this format.
\<close>

section \<open>Byte strings with their length in front\<close>

definition var_bytes :: "bytes \<Rightarrow> bytes" where
  "var_bytes s = PackInteger (of_nat (length s)) @ s"

definition read_var_bytes :: "bytes \<Rightarrow> (bytes \<times> bytes) option" where
  "read_var_bytes b =
     (case read_varint b of None \<Rightarrow> None
      | Some (n, r) \<Rightarrow> if length r < unat n then None else Some (take (unat n) r, drop (unat n) r))"

lemma unat_u64_of_nat: "n < 2 ^ 64 \<Longrightarrow> unat (of_nat n :: u64) = n"
  by (simp add: unsigned_of_nat take_bit_nat_eq_self)

interpretation vbytes: prefix_code var_bytes read_var_bytes "\<lambda>s. length s < 2 ^ 64"
proof
  fix s rest :: bytes
  assume "length s < 2 ^ 64"
  from unat_u64_of_nat [OF this] show "read_var_bytes (var_bytes s @ rest) = Some (s, rest)"
    by (simp only: read_var_bytes_def var_bytes_def append_assoc read_varint_PackInteger option.case prod.case)
      simp
qed

section \<open>Inputs and outputs\<close>

record tx_in =
  prev_hash :: bytes
  prev_index :: u32
  script_sig :: bytes
  in_sequence :: bytes

record tx_out =
  amount :: u64
  out_script :: bytes

definition enc_in :: "tx_in \<Rightarrow> bytes" where
  "enc_in i = prev_hash i @ IntegerToBuffer (prev_index i) @ var_bytes (script_sig i) @ in_sequence i"

definition read_in :: "bytes \<Rightarrow> (tx_in \<times> bytes) option" where
  "read_in b =
     (if length b < 32 then None
      else case read_le (drop 32 b) of None \<Rightarrow> None
      | Some (n :: u32, r) \<Rightarrow> (case read_var_bytes r of None \<Rightarrow> None
        | Some (s, r) \<Rightarrow> if length r < 4 then None
            else Some (\<lparr>prev_hash = take 32 b, prev_index = n, script_sig = s, in_sequence = take 4 r\<rparr>, drop 4 r)))"

definition in_ok :: "tx_in \<Rightarrow> bool" where
  "in_ok i \<longleftrightarrow> length (prev_hash i) = 32 \<and> length (script_sig i) < 2 ^ 64 \<and> length (in_sequence i) = 4"

interpretation txin: prefix_code enc_in read_in in_ok
proof
  fix i :: tx_in and rest
  assume ok: "in_ok i"
  then have "read_var_bytes (var_bytes (script_sig i) @ r) = Some (script_sig i, r)" for r
    by (intro vbytes.dec_enc) (simp add: in_ok_def)
  with ok show "read_in (enc_in i @ rest) = Some (i, rest)"
    by (simp add: read_in_def enc_in_def in_ok_def le32.dec_enc)
qed

definition enc_out :: "tx_out \<Rightarrow> bytes" where
  "enc_out out = IntegerToBuffer (amount out) @ var_bytes (out_script out)"

definition read_out :: "bytes \<Rightarrow> (tx_out \<times> bytes) option" where
  "read_out b =
     (case read_le b of None \<Rightarrow> None
      | Some (n :: u64, r) \<Rightarrow>
          map_option (\<lambda>(s, r). (\<lparr>amount = n, out_script = s\<rparr>, r)) (read_var_bytes r))"

definition out_ok :: "tx_out \<Rightarrow> bool" where
  "out_ok out \<longleftrightarrow> length (out_script out) < 2 ^ 64"

interpretation txout: prefix_code enc_out read_out out_ok
proof
  fix out :: tx_out and rest
  assume "out_ok out"
  then have "read_var_bytes (var_bytes (out_script out) @ r) = Some (out_script out, r)" for r
    by (intro vbytes.dec_enc) (simp add: out_ok_def)
  then show "read_out (enc_out out @ rest) = Some (out, rest)"
    by (simp add: read_out_def enc_out_def le64.dec_enc)
qed

section \<open>Transactions\<close>

record transaction =
  tx_version :: u32
  tx_ins :: "tx_in list"
  tx_outs :: "tx_out list"
  tx_locktime :: u32

definition enc_tx :: "transaction \<Rightarrow> bytes" where
  "enc_tx t = IntegerToBuffer (tx_version t)
     @ PackInteger (of_nat (length (tx_ins t))) @ concat (map enc_in (tx_ins t))
     @ PackInteger (of_nat (length (tx_outs t))) @ concat (map enc_out (tx_outs t))
     @ IntegerToBuffer (tx_locktime t)"

definition read_tx :: "bytes \<Rightarrow> (transaction \<times> bytes) option" where
  "read_tx b =
     (case read_le b of None \<Rightarrow> None
      | Some (v :: u32, b) \<Rightarrow> (case read_varint b of None \<Rightarrow> None
        | Some (n, b) \<Rightarrow> (case txin.dec_list (unat n) b of None \<Rightarrow> None
          | Some (is, b) \<Rightarrow> (case read_varint b of None \<Rightarrow> None
            | Some (m, b) \<Rightarrow> (case txout.dec_list (unat m) b of None \<Rightarrow> None
              | Some (os, b) \<Rightarrow> (case read_le b of None \<Rightarrow> None
                | Some (l :: u32, b) \<Rightarrow>
                    Some (\<lparr>tx_version = v, tx_ins = is, tx_outs = os, tx_locktime = l\<rparr>, b)))))))"

definition tx_ok :: "transaction \<Rightarrow> bool" where
  "tx_ok t \<longleftrightarrow> (\<forall>i \<in> set (tx_ins t). in_ok i) \<and> (\<forall>out \<in> set (tx_outs t). out_ok out)
     \<and> length (tx_ins t) < 2 ^ 64 \<and> length (tx_outs t) < 2 ^ 64"

interpretation tx: prefix_code enc_tx read_tx tx_ok
proof
  fix t :: transaction and rest
  assume ok: "tx_ok t"
  have n: "unat (of_nat (length (tx_ins t)) :: u64) = length (tx_ins t)"
    "unat (of_nat (length (tx_outs t)) :: u64) = length (tx_outs t)"
    using ok by (auto simp: tx_ok_def intro: unat_u64_of_nat)
  have ins: "txin.dec_list (length (tx_ins t)) (concat (map enc_in (tx_ins t)) @ r) = Some (tx_ins t, r)" for r
    using ok by (intro txin.dec_list_concat) (simp add: tx_ok_def)
  have outs: "txout.dec_list (length (tx_outs t)) (concat (map enc_out (tx_outs t)) @ r) = Some (tx_outs t, r)" for r
    using ok by (intro txout.dec_list_concat) (simp add: tx_ok_def)
  show "read_tx (enc_tx t @ rest) = Some (t, rest)"
    unfolding read_tx_def enc_tx_def append_assoc le32.dec_enc [OF TrueI] read_varint_PackInteger option.case
      prod.case n ins outs by simp
qed

end
