(* ===== verification/Btctx.thy ===== *)
theory Btctx
  imports Wif TxFormat
begin

text \<open>
  \<open>src/src/btctx/btctx.h\<close> and \<open>btctx.cpp\<close>: building and signing a transaction. The dump to be signed is
  built once, with the offset and size of every input script remembered; for every input a copy is
  made with the other scripts blanked, hashed and signed, and the script in the transaction is
  replaced, which moves the offsets of the inputs after it.

  Sizes and offsets are \<open>size_t\<close> values: natural numbers, with the reduction modulo \<open>2 ^ 64\<close> written
  out where the code adds and subtracts them. Amounts are 64-bit words.
\<close>

section \<open>Data\<close>

record Input =
  in_wif :: bytes
  in_tx_hash :: bytes
  in_tx_index :: u32
  in_scriptPubkey :: bytes
  in_value :: u64

record TransferInfo =
  privkey :: bytes
  pubkey :: bytes
  spendtxid :: bytes
  outnum :: u32
  scriptpubkey :: bytes
  outBalance :: u64
  receiveAddress :: bytes
  inscriptoffset :: nat
  inscriptsize :: nat

record BTCTransaction =
  m_Transfers :: "TransferInfo list"
  hashcodetype :: bytes
  obhashcodetype :: bytes
  version :: bytes
  sequence :: bytes
  locktime :: bytes
  isTestnet :: bool

text \<open>The constructor.\<close>

definition new_BTCTransaction :: "bool \<Rightarrow> BTCTransaction" where
  "new_BTCTransaction isTn = \<lparr>m_Transfers = [], hashcodetype = [1, 0, 0, 0], obhashcodetype = [1],
     version = [1, 0, 0, 0], sequence = [0xFF, 0xFF, 0xFF, 0xFF], locktime = [0, 0, 0, 0],
     isTestnet = isTn\<rparr>"

section \<open>Collecting the inputs\<close>

definition AddTransfer ::
    "crypto \<Rightarrow> BTCTransaction \<Rightarrow> bytes \<Rightarrow> bytes \<Rightarrow> u32 \<Rightarrow> bytes \<Rightarrow> u64 \<Rightarrow> bytes \<Rightarrow> BTCTransaction res" where
  "AddTransfer K tx wif txid spendoutnum script balance address =
     CHECK (wif \<noteq> []) (bs ''wif empty'')
     (rbind (WIFToPrivkey wif) (\<lambda>(priv, isCompressed).
      CHECK (priv \<noteq> []) (bs ''privkey empty'')
      (rbind (if isCompressed then PrivKeyToCompressedPubKey K priv else PrivKeyToPubKey K priv) (\<lambda>pub.
       CHECK (pub \<noteq> []) (bs ''pubkey empty'')
       (Inr (tx\<lparr>m_Transfers := m_Transfers tx @
          [\<lparr>privkey = priv, pubkey = pub, spendtxid = rev txid, outnum = spendoutnum, scriptpubkey = script,
            outBalance = balance, receiveAddress = address, inscriptoffset = 0, inscriptsize = 0\<rparr>]\<rparr>))))))"

section \<open>The dump to be signed\<close>

text \<open>The loop over the inputs: the dump, and the transfers with their offsets and sizes set.\<close>

fun dump_inputs :: "bytes \<Rightarrow> bytes \<Rightarrow> TransferInfo list \<Rightarrow> bytes \<times> TransferInfo list" where
  "dump_inputs seq dump [] = (dump, [])"
| "dump_inputs seq dump (t # ts) =
     (let dump = dump @ spendtxid t;
          dump = dump @ IntegerToBuffer (outnum t);
          varint = PackInteger (of_nat (length (scriptpubkey t)));
          t = t\<lparr>inscriptoffset := length dump,
                inscriptsize := size_add (length (scriptpubkey t)) (length varint)\<rparr>;
          dump = dump @ varint;
          dump = dump @ scriptpubkey t;
          dump = dump @ seq;
          (dump, ts) = dump_inputs seq dump ts
      in (dump, t # ts))"

definition buildSignedDump ::
    "crypto \<Rightarrow> BTCTransaction \<Rightarrow> u64 \<Rightarrow> u64 \<Rightarrow> (bytes \<times> BTCTransaction) res" where
  "buildSignedDump K tx fee transferAmount =
     (let ts = m_Transfers tx;
          incount = of_nat (length ts);
          fullAmount = transferAmount;
          fullBalance = foldl (\<lambda>b t. b + outBalance t) 0 ts
      in CHECK (fullAmount + fee \<le> fullBalance) (bs ''Not enough money'')
      (let fullChange = fullBalance - fullAmount - fee;
           outcount = (if 0 < fullChange then 2 else 1);
           dump = version tx @ PackInteger incount;
           (dump, ts) = dump_inputs (sequence tx) dump ts;
           dump = dump @ PackInteger outcount;
           dump = dump @ IntegerToBuffer fullAmount
       in rbind (vec_index ts 0) (\<lambda>first.
       rbind (AddressToPubkeyScript (receiveAddress first) True) (\<lambda>outpubkeyscript.
       let dump = dump @ PackInteger (of_nat (length outpubkeyscript)) @ outpubkeyscript
       in rbind
         (if outcount = 2
          then rbind (if length (pubkey first) = EC_PUB_KEY_LENGTH
                      then PubkeyToAddress K (pubkey first) (isTestnet tx)
                      else CompressedPubkeyToAddress K (pubkey first) (isTestnet tx)) (\<lambda>senderaddr.
               rbind (AddressToPubkeyScript senderaddr False) (\<lambda>outpubkeyscript2.
               Inr (dump @ IntegerToBuffer fullChange
                    @ PackInteger (of_nat (length outpubkeyscript2)) @ outpubkeyscript2)))
          else Inr dump) (\<lambda>dump.
         Inr (dump @ locktime tx @ hashcodetype tx, tx\<lparr>m_Transfers := ts\<rparr>))))))"

section \<open>Signing\<close>

text \<open>\<open>removeScripts\<close>: the loop over the inputs, with the index \<open>i\<close>, the position and the copy so far.\<close>

fun removeScripts_loop ::
    "bytes \<Rightarrow> nat \<Rightarrow> nat \<Rightarrow> nat \<Rightarrow> bytes \<Rightarrow> TransferInfo list \<Rightarrow> bytes res" where
  "removeScripts_loop signingdump scriptIdx i pos dump [] = Inr dump"
| "removeScripts_loop signingdump scriptIdx i pos dump (t # ti) =
     CHECK (inscriptoffset t \<le> length signingdump) (bs ''Incorrect signingdump'')
     (rbind (substr signingdump pos (size_sub (inscriptoffset t) pos)) (\<lambda>part.
      let dump = dump @ part; pos = inscriptoffset t
      in rbind
        (if i \<noteq> scriptIdx then Inr (dump @ [0])
         else CHECK (size_add (inscriptsize t) pos \<le> length signingdump) (bs ''Incorrect signingdump'')
              (rbind (substr signingdump pos (inscriptsize t)) (\<lambda>part. Inr (dump @ part)))) (\<lambda>dump.
        removeScripts_loop signingdump scriptIdx (Suc i) (size_add pos (inscriptsize t)) dump ti)))"

definition removeScripts :: "bytes \<Rightarrow> nat \<Rightarrow> TransferInfo list \<Rightarrow> bytes res" where
  "removeScripts signingdump scriptIdx ti =
     rbind (removeScripts_loop signingdump scriptIdx 0 0 [] ti) (\<lambda>dump.
     rbind (vec_index ti (size_sub (length ti) 1)) (\<lambda>last_t.
     let remoffset = size_add (inscriptoffset last_t) (inscriptsize last_t)
     in rbind (substr signingdump remoffset (size_sub (length signingdump) remoffset)) (\<lambda>part.
     Inr (dump @ part))))"

text \<open>\<open>doubleHash\<close> of this file, which is the same two digests.\<close>

definition doubleHash_tx :: "crypto \<Rightarrow> bytes \<Rightarrow> bytes" where
  "doubleHash_tx K str = sha256_digest K (sha256_digest K str)"

text \<open>The script of a signed input; the three lengths are one byte each.\<close>

definition input_script :: "BTCTransaction \<Rightarrow> bytes \<Rightarrow> bytes \<Rightarrow> bytes" where
  "input_script tx signature pub =
     (let signature = signature @ obhashcodetype tx;
          inputscript = [of_nat (length signature)];
          inputscript = inputscript @ signature;
          inputscript = inputscript @ [of_nat (length pub)];
          inputscript = inputscript @ pub
      in of_nat (length inputscript) # inputscript)"

text \<open>\<open>transaction.replace(pos, n, s)\<close>\<close>

definition str_replace :: "bytes \<Rightarrow> nat \<Rightarrow> nat \<Rightarrow> bytes \<Rightarrow> bytes res" where
  "str_replace t pos n s =
     (if length t < pos then Inl (StdException OutOfRange)
      else Inr (take pos t @ s @ drop (pos + n) t))"

fun sign_inputs ::
    "crypto \<Rightarrow> BTCTransaction \<Rightarrow> bytes \<Rightarrow> TransferInfo list \<Rightarrow> nat \<Rightarrow> bytes \<Rightarrow> TransferInfo list \<Rightarrow> bytes res" where
  "sign_inputs K tx copyTransaction copyTransfers i transaction [] = Inr transaction"
| "sign_inputs K tx copyTransaction copyTransfers i transaction (t # ts) =
     rbind (removeScripts copyTransaction i copyTransfers) (\<lambda>signtemplate.
     let sha256hash = doubleHash_tx K signtemplate
     in case ecdsa_sign K sha256hash (privkey t) of
       None \<Rightarrow> Inl (StringException (bs ''not sign''))
     | Some sig \<Rightarrow> (case serialize_der K sig of
         None \<Rightarrow> Inl (StringException (bs ''not sign''))
       | Some signature \<Rightarrow>
         (let inputscript = input_script tx signature (pubkey t)
          in rbind (str_replace transaction (inscriptoffset t) (inscriptsize t) inputscript) (\<lambda>transaction.
             let delta = size_sub (length inputscript) (inscriptsize t);
                 ts = map (\<lambda>t. t\<lparr>inscriptoffset := size_add (inscriptoffset t) delta\<rparr>) ts
             in sign_inputs K tx copyTransaction copyTransfers (Suc i) transaction ts))))"

definition signAllInputs :: "crypto \<Rightarrow> BTCTransaction \<Rightarrow> bytes \<Rightarrow> bytes res" where
  "signAllInputs K tx signingdump =
     rbind (sign_inputs K tx signingdump (m_Transfers tx) 0 signingdump (m_Transfers tx)) (\<lambda>transaction.
     substr transaction 0 (size_sub (length transaction) 4))"

definition BuildTransaction :: "crypto \<Rightarrow> BTCTransaction \<Rightarrow> u64 \<Rightarrow> u64 \<Rightarrow> bytes res" where
  "BuildTransaction K tx fee transferAmount =
     rbind (buildSignedDump K tx fee transferAmount) (\<lambda>(signingdump, tx). signAllInputs K tx signingdump)"

fun add_inputs :: "crypto \<Rightarrow> bytes \<Rightarrow> BTCTransaction \<Rightarrow> Input list \<Rightarrow> BTCTransaction res" where
  "add_inputs K address tx [] = Inr tx"
| "add_inputs K address tx (i # is) =
     rbind (AddTransfer K tx (in_wif i) (in_tx_hash i) (in_tx_index i) (in_scriptPubkey i) (in_value i) address)
       (\<lambda>tx. add_inputs K address tx is)"

definition BuildBTCTransaction ::
    "crypto \<Rightarrow> Input list \<Rightarrow> u64 \<Rightarrow> u64 \<Rightarrow> bytes \<Rightarrow> bool \<Rightarrow> bytes res" where
  "BuildBTCTransaction K inputs fee transferAmount address testnet =
     rbind (add_inputs K address (new_BTCTransaction testnet) inputs) (\<lambda>tx.
     BuildTransaction K tx fee transferAmount)"

definition calcHashTxNotWitness :: "crypto \<Rightarrow> bytes \<Rightarrow> bytes" where
  "calcHashTxNotWitness K tx = rev (doubleHash_tx K tx)"

section \<open>Where the scripts are\<close>

text \<open>The input of the format that a transfer with the script \<open>s\<close> is.\<close>

definition in_of :: "bytes \<Rightarrow> TransferInfo \<Rightarrow> bytes \<Rightarrow> tx_in" where
  "in_of seq t s = \<lparr>prev_hash = spendtxid t, prev_index = outnum t, script_sig = s, in_sequence = seq\<rparr>"

definition ins_of :: "bytes \<Rightarrow> TransferInfo list \<Rightarrow> bytes list \<Rightarrow> bytes" where
  "ins_of seq ts ss = concat (map enc_in (map2 (in_of seq) ts ss))"

lemma ins_of_simps [simp]:
  "ins_of seq [] ss = []"
  "ins_of seq (t # ts) (s # ss)
     = spendtxid t @ IntegerToBuffer (outnum t) @ var_bytes s @ seq @ ins_of seq ts ss"
  by (simp_all add: ins_of_def in_of_def enc_in_def)

lemma ins_of_Nil [simp]: "ins_of seq ts [] = []"
  by (simp add: ins_of_def)

text \<open>The offset and the size of every transfer are those of its script in a dump whose inputs start
  at \<open>pos\<close>.\<close>

fun placed :: "bytes \<Rightarrow> nat \<Rightarrow> TransferInfo list \<Rightarrow> bytes list \<Rightarrow> bool" where
  "placed seq pos [] [] = True"
| "placed seq pos (t # ts) (s # ss) \<longleftrightarrow>
     inscriptoffset t = pos + length (spendtxid t) + 4 \<and> inscriptsize t = length (var_bytes s)
     \<and> placed seq (pos + length (spendtxid t) + 4 + length (var_bytes s) + length seq) ts ss"
| "placed seq pos _ _ = False"

lemma placed_length: "placed seq pos ts ss \<Longrightarrow> length ss = length ts"
  by (induction seq pos ts ss rule: placed.induct) simp_all

definition unplaced :: "TransferInfo \<Rightarrow> TransferInfo" where
  "unplaced t = t\<lparr>inscriptoffset := 0, inscriptsize := 0\<rparr>"

lemma unplaced_fields:
  assumes "unplaced t = unplaced u"
  shows "spendtxid t = spendtxid u" "outnum t = outnum u" "scriptpubkey t = scriptpubkey u"
    "privkey t = privkey u" "pubkey t = pubkey u" "outBalance t = outBalance u"
    "receiveAddress t = receiveAddress u"
  using assms by (cases t; cases u; simp add: unplaced_def)+

lemma ins_of_unplaced: "map unplaced ts = map unplaced us \<Longrightarrow> ins_of seq ts ss = ins_of seq us ss"
proof (induction ts arbitrary: us ss)
  case (Cons t ts)
  then obtain u us' where "us = u # us'" by (cases us) auto
  with Cons show ?case using unplaced_fields [of t u] by (cases ss) simp_all
qed simp

lemma size_arith:
  "a + b < 2 ^ 64 \<Longrightarrow> size_add a b = a + b"
  "b \<le> a \<Longrightarrow> a < 2 ^ 64 \<Longrightarrow> size_sub a b = a - b"
proof -
  show "size_add a b = a + b" if "a + b < 2 ^ 64" using that by (simp add: size_add_def)
  show "size_sub a b = a - b" if "b \<le> a" "a < 2 ^ 64"
  proof -
    have "a + (2 ^ 64 - b) = (a - b) + 2 ^ 64" using that by simp
    moreover have "a - b < 2 ^ 64" using that by simp
    ultimately show ?thesis unfolding size_sub_def by (simp only: mod_add_self2 mod_less)
  qed
qed

lemma length_var_bytes: "length (var_bytes s) = length (PackInteger (of_nat (length s))) + length s"
  by (simp add: var_bytes_def)

lemma length_var_bytes_bounds: "length s < length (var_bytes s)" "length (var_bytes s) \<le> length s + 9"
  using length_PackInteger_le [of "of_nat (length s)"] length_PackInteger_pos [of "of_nat (length s)"]
  by (simp_all add: length_var_bytes del: length_greater_0_conv length_PackInteger_pos)

lemma dump_inputs_spec:
  assumes "\<forall>t \<in> set ts. length (scriptpubkey t) + 9 < 2 ^ 64"
  shows "\<exists>ts'. dump_inputs seq dump ts = (dump @ ins_of seq ts (map scriptpubkey ts), ts')
    \<and> map unplaced ts' = map unplaced ts \<and> placed seq (length dump) ts' (map scriptpubkey ts)"
  using assms
proof (induction ts arbitrary: dump)
  case Nil
  then show ?case by simp
next
  case (Cons t ts)
  define v where "v = var_bytes (scriptpubkey t)"
  define t' where "t' = t\<lparr>inscriptoffset := length dump + length (spendtxid t) + 4, inscriptsize := length v\<rparr>"
  define dump' where "dump' = dump @ spendtxid t @ IntegerToBuffer (outnum t) @ v @ seq"
  from Cons.IH [of dump'] Cons.prems obtain ts' where ts':
    "dump_inputs seq dump' ts = (dump' @ ins_of seq ts (map scriptpubkey ts), ts')"
    "map unplaced ts' = map unplaced ts" "placed seq (length dump') ts' (map scriptpubkey ts)" by auto
  have "length (scriptpubkey t) + length (PackInteger (of_nat (length (scriptpubkey t)))) < 2 ^ 64"
    using Cons.prems length_PackInteger_le [of "of_nat (length (scriptpubkey t))"] by simp
  from size_arith(1) [OF this]
  have "size_add (length (scriptpubkey t)) (length (PackInteger (of_nat (length (scriptpubkey t))))) = length v"
    by (simp add: v_def length_var_bytes)
  then have "dump_inputs seq dump (t # ts)
      = (dump' @ ins_of seq ts (map scriptpubkey ts), t' # ts')"
    using ts'(1) by (simp add: Let_def dump'_def t'_def v_def var_bytes_def add.assoc)
  moreover have "unplaced t' = unplaced t" by (simp add: t'_def unplaced_def)
  moreover have "placed seq (length dump) (t' # ts') (map scriptpubkey (t # ts))"
    using ts'(3) by (simp add: t'_def v_def dump'_def add.assoc)
  ultimately show ?case using ts'(2) by (simp add: dump'_def v_def)
qed

section \<open>Blanking the other scripts\<close>

fun keep_only :: "nat \<Rightarrow> nat \<Rightarrow> bytes list \<Rightarrow> bytes list" where
  "keep_only k i [] = []"
| "keep_only k i (s # ss) = (if i = k then s else []) # keep_only k (Suc i) ss"

lemma var_bytes_Nil [simp]: "var_bytes [] = [0]"
  by (simp add: var_bytes_def PackInteger_def)

lemma removeScripts_loop_spec:
  assumes "placed seq (length (A @ B)) ts ss"
    and "sd = A @ B @ ins_of seq ts ss @ Z" and "length sd < 2 ^ 64"
  shows "\<exists>dump'. removeScripts_loop sd k i (length A) dump ts = Inr dump'
    \<and> dump' @ drop (if ts = [] then length A else inscriptoffset (last ts) + inscriptsize (last ts)) sd
      = dump @ B @ ins_of seq ts (keep_only k i ss) @ Z"
  using assms
proof (induction ts arbitrary: A B ss i dump)
  case Nil
  then show ?case by (cases ss) simp_all
next
  case (Cons t ts)
  then obtain s ss' where ss: "ss = s # ss'" by (cases ss) simp_all
  define v where "v = var_bytes s"
  define P where "P = B @ spendtxid t @ IntegerToBuffer (outnum t)"
  have sd: "sd = A @ P @ v @ seq @ ins_of seq ts ss' @ Z"
    using Cons.prems(2) by (simp add: ss P_def v_def)
  have off: "inscriptoffset t = length (A @ P)" "inscriptsize t = length v"
    using Cons.prems(1) by (simp_all add: ss P_def v_def)
  have small: "length (A @ P @ v) < 2 ^ 64" using Cons.prems(3) sd by simp
  have sub: "size_sub (inscriptoffset t) (length A) = length P"
    unfolding off using small by (subst size_arith(2)) simp_all
  have add: "size_add (inscriptsize t) (inscriptoffset t) = length (A @ P @ v)"
    "size_add (inscriptoffset t) (inscriptsize t) = length (A @ P @ v)"
    unfolding off using small by (subst size_arith(1); simp)+
  have parts: "substr sd (length A) (length P) = Inr P" "substr sd (length (A @ P)) (length v) = Inr v"
    unfolding sd by (simp_all add: substr_def)
  have pl: "placed seq (length ((A @ P @ v) @ seq)) ts ss'"
    using Cons.prems(1) by (simp add: ss P_def v_def add.assoc)
  let ?x = "var_bytes (if i = k then s else [])"
  from Cons.IH [OF pl, of "Suc i" "dump @ P @ ?x"] sd Cons.prems(3)
  obtain dump' where IH: "removeScripts_loop sd k (Suc i) (length (A @ P @ v)) (dump @ P @ ?x) ts = Inr dump'"
    and eq: "dump' @ drop (if ts = [] then length (A @ P @ v) else inscriptoffset (last ts) + inscriptsize (last ts)) sd
      = (dump @ P @ ?x) @ seq @ ins_of seq ts (keep_only k (Suc i) ss') @ Z"
    by auto
  have le: "inscriptoffset t \<le> length sd" "length (A @ P @ v) \<le> length sd" by (simp_all add: off sd)
  have "removeScripts_loop sd k i (length A) dump (t # ts) = Inr dump'"
    using le IH unfolding removeScripts_loop.simps sub parts Let_def rbind_simps add
    by (cases "i = k") (simp_all add: off parts(2) [unfolded length_append v_def] v_def)
  moreover have "dump' @ drop (inscriptoffset (last (t # ts)) + inscriptsize (last (t # ts))) sd
      = dump @ B @ ins_of seq (t # ts) (keep_only k i ss) @ Z"
    using eq by (cases "ts = []") (simp_all add: ss off P_def add.assoc)
  ultimately show ?case by simp
qed

lemma placed_last:
  assumes "placed seq pos ts ss" and "ts \<noteq> []"
  shows "inscriptoffset (last ts) + inscriptsize (last ts) + length seq = pos + length (ins_of seq ts ss)"
  using assms by (induction seq pos ts ss rule: placed.induct) (auto simp: add.assoc)

lemma length_ins_of: "length ss = length ts \<Longrightarrow> length ts \<le> length (ins_of seq ts ss)"
proof (induction ts arbitrary: ss)
  case (Cons t ts)
  then show ?case by (cases ss) (fastforce simp: add.assoc)+
qed simp

lemma removeScripts_spec:
  assumes "placed seq (length B) ts ss" and "sd = B @ ins_of seq ts ss @ Z" and "length sd < 2 ^ 64"
    and "ts \<noteq> []"
  shows "removeScripts sd k ts = Inr (B @ ins_of seq ts (keep_only k 0 ss) @ Z)"
proof -
  let ?l = "last ts"
  let ?stop = "inscriptoffset ?l + inscriptsize ?l"
  from removeScripts_loop_spec [of seq "[]" B ts ss sd Z k 0 "[]"] assms
  obtain dump' where loop: "removeScripts_loop sd k 0 0 [] ts = Inr dump'"
    and eq: "dump' @ drop ?stop sd = B @ ins_of seq ts (keep_only k 0 ss) @ Z"
    by auto
  have "?stop \<le> length sd" using placed_last [OF assms(1,4)] assms(2) by simp
  then have rem: "size_add (inscriptoffset ?l) (inscriptsize ?l) = ?stop"
    "size_sub (length sd) ?stop = length sd - ?stop" "substr sd ?stop (length sd - ?stop) = Inr (drop ?stop sd)"
    using assms(3) by (simp_all add: size_arith substr_def)
  have "length ts \<le> length sd"
    using length_ins_of [OF placed_length [OF assms(1)], of seq] assms(2) by simp
  then have "size_sub (length ts) 1 = length ts - 1"
    using assms(3,4) by (intro size_arith(2)) (simp_all add: Suc_le_eq)
  moreover have "vec_index ts (length ts - 1) = Inr ?l"
    using assms(4) by (simp add: vec_index_def last_conv_nth)
  ultimately show ?thesis by (simp add: removeScripts_def loop rem Let_def eq)
qed

section \<open>Signing every input\<close>

definition script_body :: "BTCTransaction \<Rightarrow> bytes \<Rightarrow> bytes \<Rightarrow> bytes" where
  "script_body tx der pub = of_nat (length der + 1) # der @ obhashcodetype tx @ of_nat (length pub) # pub"

lemma var_bytes_short: "length s \<le> 252 \<Longrightarrow> var_bytes s = of_nat (length s) # s"
proof -
  assume len: "length s \<le> 252"
  then have "unat (of_nat (length s) :: u64) = length s" by (intro unat_u64_of_nat) simp
  then have "(of_nat (length s) :: u64) \<le> 252" using len by (simp add: word_le_nat_alt)
  moreover have "(ucast (of_nat (length s) :: u64) :: byte) = of_nat (length s)"
    by (metis of_nat_unat \<open>unat (of_nat (length s) :: u64) = length s\<close>)
  ultimately show ?thesis by (simp add: var_bytes_def PackInteger_def)
qed

lemma input_script_eq:
  assumes "length der \<le> 72" and "length pub \<le> 65" and "length (obhashcodetype tx) = 1"
  shows "input_script tx der pub = var_bytes (script_body tx der pub)"
    and "length (script_body tx der pub) \<le> 140"
proof -
  show len: "length (script_body tx der pub) \<le> 140" using assms by (simp add: script_body_def)
  have "input_script tx der pub = of_nat (length (script_body tx der pub)) # script_body tx der pub"
    using assms(3) by (simp add: input_script_def script_body_def Let_def)
  then show "input_script tx der pub = var_bytes (script_body tx der pub)"
    using len by (simp add: var_bytes_short)
qed

definition signature :: "crypto \<Rightarrow> bytes \<Rightarrow> bytes \<Rightarrow> bytes option" where
  "signature K tmpl sk = Option.bind (ecdsa_sign K (doubleHash_tx K tmpl) sk) (serialize_der K)"

text \<open>The scripts of the signed inputs; \<open>None\<close> when one of the signatures fails.\<close>

fun signed_bodies ::
    "crypto \<Rightarrow> BTCTransaction \<Rightarrow> (nat \<Rightarrow> bytes) \<Rightarrow> nat \<Rightarrow> TransferInfo list \<Rightarrow> bytes list option" where
  "signed_bodies K tx tmpl i [] = Some []"
| "signed_bodies K tx tmpl i (t # ts) =
     (case signature K (tmpl i) (privkey t) of
        None \<Rightarrow> None
      | Some der \<Rightarrow> map_option ((#) (script_body tx der (pubkey t))) (signed_bodies K tx tmpl (Suc i) ts))"

lemma signed_bodies_unplaced:
  "map unplaced ts = map unplaced us \<Longrightarrow> signed_bodies K tx tmpl i ts = signed_bodies K tx tmpl i us"
proof (induction ts arbitrary: us i)
  case (Cons t ts)
  then obtain u us' where "us = u # us'" by (cases us) auto
  with Cons show ?case using unplaced_fields [of t u] by (simp split: option.split)
qed simp

definition shift :: "nat \<Rightarrow> TransferInfo \<Rightarrow> TransferInfo" where
  "shift delta t = t\<lparr>inscriptoffset := size_add (inscriptoffset t) delta\<rparr>"

lemma shift_fields [simp]:
  "inscriptoffset (shift d t) = size_add (inscriptoffset t) d" "inscriptsize (shift d t) = inscriptsize t"
  "spendtxid (shift d t) = spendtxid t" "pubkey (shift d t) = pubkey t"
  by (simp_all add: shift_def)

lemma map_unplaced_shift [simp]: "map unplaced (map (shift d) ts) = map unplaced ts"
  by (simp add: unplaced_def shift_def)

lemma size_shift:
  assumes "old \<le> off" and "off + new < 2 ^ 64"
  shows "size_add off (size_sub new old) = off - old + new"
proof -
  have "size_add off (size_sub new old) = (off + (new + (2 ^ 64 - old))) mod 2 ^ 64"
    unfolding size_add_def size_sub_def by (simp only: mod_add_right_eq)
  also have "off + (new + (2 ^ 64 - old)) = (off - old + new) + 2 ^ 64" using assms by simp
  finally show ?thesis using assms by (simp only: mod_add_self2) simp
qed

lemma placed_shift:
  assumes "placed seq pos ts ss" and "old \<le> pos" and "pos + length (ins_of seq ts ss) + new < 2 ^ 64"
  shows "placed seq (pos - old + new) (map (shift (size_sub new old)) ts) ss"
  using assms
proof (induction seq pos ts ss rule: placed.induct)
  case (2 seq pos t ts s ss)
  define a v q m where "a = length (spendtxid t) + 4" and "v = length (var_bytes s)" and "q = length seq"
    and "m = length (ins_of seq ts ss)"
  have len: "length (ins_of seq (t # ts) (s # ss)) = a + v + q + m"
    by (simp add: a_def v_def q_def m_def)
  have pl: "inscriptoffset t = pos + a" "inscriptsize t = v" "placed seq (pos + a + v + q) ts ss"
    using "2.prems"(1) by (simp_all add: a_def v_def q_def add.assoc)
  have bound: "pos + (a + v + q + m) + new < 2 ^ 64" using "2.prems"(3) unfolding len .
  define X where "X = pos + length (spendtxid t) + 4 + length (var_bytes s) + length seq"
  have X: "X = pos + a + v + q" by (simp add: X_def a_def v_def q_def)
  have "placed seq (X - old + new) (map (shift (size_sub new old)) ts) ss"
    using "2.prems"(2) pl(3) bound by (intro "2.IH" [folded X_def]) (simp_all add: X m_def)
  then have "placed seq (pos + a + v + q - old + new) (map (shift (size_sub new old)) ts) ss"
    by (simp only: X)
  moreover have "pos + a - old + new = pos - old + new + a" "pos + a + v + q - old + new = pos - old + new + a + v + q"
    using "2.prems"(2) by linarith+
  moreover have "size_add (pos + a) (size_sub new old) = pos + a - old + new"
    using "2.prems"(2) bound by (intro size_shift) linarith+
  ultimately show ?case
    unfolding list.map placed.simps shift_fields pl(1,2) v_def [symmetric] q_def [symmetric]
      add.assoc [of _ "length (spendtxid t)" 4] a_def [symmetric] by (simp only: simp_thms)
qed simp_all

text \<open>One step: the input's script is replaced by its signature, and the places of the later inputs are
  moved by the difference of the sizes.\<close>

lemma sign_inputs_None:
  assumes "signature K (tmpl i) (privkey t) = None" and "removeScripts cT i cTs = Inr (tmpl i)"
  shows "sign_inputs K tx cT cTs i dump (t # us) = Inl (StringException (bs ''not sign''))"
proof -
  have "ecdsa_sign K (doubleHash_tx K (tmpl i)) (privkey t) = None \<or>
      (\<exists>sig. ecdsa_sign K (doubleHash_tx K (tmpl i)) (privkey t) = Some sig \<and> serialize_der K sig = None)"
    using assms(1) by (cases "ecdsa_sign K (doubleHash_tx K (tmpl i)) (privkey t)") (simp_all add: signature_def)
  then show ?thesis using assms(2) by auto
qed

lemma sign_inputs_Some:
  assumes K: "crypto_ok K" and ob: "length (obhashcodetype tx) = 1"
    and pl: "placed seq (length B) (t # us) (s # ss')" and "length (pubkey t) \<le> 65"
    and tmpl: "removeScripts cT i cTs = Inr (tmpl i)" and der: "signature K (tmpl i) (privkey t) = Some der"
  defines "body \<equiv> script_body tx der (pubkey t)"
  defines "d \<equiv> size_sub (length (var_bytes body)) (length (var_bytes s))"
  shows "sign_inputs K tx cT cTs i (B @ ins_of seq (t # us) (s # ss') @ Z) (t # us)
      = sign_inputs K tx cT cTs (Suc i)
          ((B @ spendtxid t @ IntegerToBuffer (outnum t) @ var_bytes body @ seq) @ ins_of seq us ss' @ Z) (map (shift d) us)"
    and "length (var_bytes body) \<le> 149"
proof -
  from der obtain sig where sig: "ecdsa_sign K (doubleHash_tx K (tmpl i)) (privkey t) = Some sig" "serialize_der K sig = Some der"
    by (cases "ecdsa_sign K (doubleHash_tx K (tmpl i)) (privkey t)") (simp_all add: signature_def)
  have "length der \<le> 72" using K sig(2) by (simp add: crypto_ok_def)
  then have script: "input_script tx der (pubkey t) = var_bytes body" and len: "length (var_bytes body) \<le> 149"
    using input_script_eq [OF _ _ ob, of der "pubkey t"] assms(4) length_var_bytes_bounds(2) [of body]
    by (simp_all add: body_def)
  show "length (var_bytes body) \<le> 149" by (rule len)
  define P where "P = B @ spendtxid t @ IntegerToBuffer (outnum t)"
  define rest where "rest = seq @ ins_of seq us ss' @ Z"
  have at: "inscriptoffset t = length P" "inscriptsize t = length (var_bytes s)" using pl by (simp_all add: P_def)
  have whole: "B @ ins_of seq (t # us) (s # ss') @ Z = P @ var_bytes s @ rest" by (simp add: P_def rest_def)
  have repl: "str_replace (P @ var_bytes s @ rest) (length P) (length (var_bytes s)) (var_bytes body)
      = Inr (P @ var_bytes body @ rest)" by (simp add: str_replace_def)
  have "sign_inputs K tx cT cTs i (B @ ins_of seq (t # us) (s # ss') @ Z) (t # us)
      = sign_inputs K tx cT cTs (Suc i) (P @ var_bytes body @ rest) (map (shift d) us)"
    unfolding whole by (simp add: tmpl sig Let_def script at repl d_def [symmetric] shift_def [abs_def])
  then show "sign_inputs K tx cT cTs i (B @ ins_of seq (t # us) (s # ss') @ Z) (t # us)
      = sign_inputs K tx cT cTs (Suc i)
          ((B @ spendtxid t @ IntegerToBuffer (outnum t) @ var_bytes body @ seq) @ ins_of seq us ss' @ Z) (map (shift d) us)"
    by (simp add: P_def rest_def)
qed

lemma sign_inputs_spec:
  assumes K: "crypto_ok K" and ob: "length (obhashcodetype tx) = 1"
    and "placed seq (length B) ts ss"
    and "length (B @ ins_of seq ts ss @ Z) + 150 * length ts < 2 ^ 64"
    and "\<forall>t \<in> set ts. length (pubkey t) \<le> 65"
    and "\<And>j. j < length ts \<Longrightarrow> removeScripts cT (i + j) cTs = Inr (tmpl (i + j))"
  shows "sign_inputs K tx cT cTs i (B @ ins_of seq ts ss @ Z) ts
    = (case signed_bodies K tx tmpl i ts of
         None \<Rightarrow> Inl (StringException (bs ''not sign''))
       | Some bodies \<Rightarrow> Inr (B @ ins_of seq ts bodies @ Z))"
  using assms(3-6)
proof (induction "length ts" arbitrary: ts B ss i)
  case 0
  then show ?case by (cases ss) simp_all
next
  case (Suc n)
  from Suc.hyps(2) obtain t us where ts: "ts = t # us" and n: "n = length us" by (cases ts) simp_all
  note prems = Suc.prems [unfolded ts]
  from prems(1) obtain s ss' where ss: "ss = s # ss'" by (cases ss) simp_all
  have tmpl: "removeScripts cT i cTs = Inr (tmpl i)" using prems(4) [of 0] by simp
  show ?case
  proof (cases "signature K (tmpl i) (privkey t)")
    case None
    then show ?thesis unfolding ts sign_inputs_None [where tmpl = tmpl, OF None tmpl] by simp
  next
    case (Some der)
    define body where "body = script_body tx der (pubkey t)"
    define d where "d = size_sub (length (var_bytes body)) (length (var_bytes s))"
    define B' where "B' = B @ spendtxid t @ IntegerToBuffer (outnum t) @ var_bytes body @ seq"
    have "length (pubkey t) \<le> 65" using prems(3) by simp
    note step = sign_inputs_Some [where tmpl = tmpl, OF K ob prems(1) [unfolded ss] this tmpl Some, folded body_def,
      folded d_def B'_def]
    have "placed seq (length (B @ spendtxid t @ IntegerToBuffer (outnum t) @ var_bytes s @ seq)) us ss'"
      using prems(1) by (simp add: ss add.assoc)
    then have "placed seq (length (B @ spendtxid t @ IntegerToBuffer (outnum t) @ var_bytes s @ seq) - length (var_bytes s)
        + length (var_bytes body)) (map (shift d) us) ss'"
      unfolding d_def using prems(2) step(2) by (intro placed_shift) (simp_all add: ss)
    then have pl': "placed seq (length B') (map (shift d) us) ss'"
      by (simp add: B'_def add.commute add.left_commute)
    have shifted: "ins_of seq (map (shift d) us) x = ins_of seq us x" for x
      by (rule ins_of_unplaced) (rule map_unplaced_shift)
    have bodies: "signed_bodies K tx tmpl j (map (shift d) us) = signed_bodies K tx tmpl j us" for j
      by (rule signed_bodies_unplaced) (rule map_unplaced_shift)
    have "sign_inputs K tx cT cTs (Suc i) (B' @ ins_of seq (map (shift d) us) ss' @ Z) (map (shift d) us)
      = (case signed_bodies K tx tmpl (Suc i) (map (shift d) us) of
           None \<Rightarrow> Inl (StringException (bs ''not sign''))
         | Some bodies \<Rightarrow> Inr (B' @ ins_of seq (map (shift d) us) bodies @ Z))"
      using prems(2-4) step(2) prems(4) [of "Suc _"]
      by (intro Suc.hyps(1) [OF _ pl']) (simp_all add: n ss B'_def shifted shift_def)
    then show ?thesis
      unfolding ts ss step(1) using Some by (simp add: shifted bodies B'_def body_def split: option.split)
  qed
qed

section \<open>The whole transaction\<close>

definition key_of :: "crypto \<Rightarrow> Input \<Rightarrow> (bytes \<times> bytes) option" where
  "key_of K i = (case WIFToPrivkey (in_wif i) of
      Inl e \<Rightarrow> None
    | Inr (sk, c) \<Rightarrow> map_option (\<lambda>pub. (sk, ec_pubkey_serialize K c pub)) (ec_pubkey_create K sk))"

definition transfer_of :: "crypto \<Rightarrow> bytes \<Rightarrow> Input \<Rightarrow> TransferInfo" where
  "transfer_of K address i = (case key_of K i of
      None \<Rightarrow> undefined
    | Some (sk, pub) \<Rightarrow> \<lparr>privkey = sk, pubkey = pub, spendtxid = rev (in_tx_hash i), outnum = in_tx_index i,
        scriptpubkey = in_scriptPubkey i, outBalance = in_value i, receiveAddress = address,
        inscriptoffset = 0, inscriptsize = 0\<rparr>)"

lemma WIFToPrivkey_Nil: "WIFToPrivkey [] = Inl (TypedException PRIVATE_KEY_ERROR (bs ''dont decode wif key''))"
  by (simp add: WIFToPrivkey_def c_str_def DecodeBase58_eq Let_def)

lemma key_of_Some:
  assumes "crypto_ok K" and "key_of K i = Some (sk, pub)"
  obtains c p where "WIFToPrivkey (in_wif i) = Inr (sk, c)" and "ec_pubkey_create K sk = Some p"
    and "pub = ec_pubkey_serialize K c p" and "length pub = (if c then 33 else 65)" and "length sk = 32"
    and "pub ! 0 \<in> (if c then {2, 3} else {4})"
proof -
  from assms(2) obtain c p where *: "WIFToPrivkey (in_wif i) = Inr (sk, c)" "ec_pubkey_create K sk = Some p"
    "pub = ec_pubkey_serialize K c p"
    by (auto simp: key_of_def split: sum.splits option.splits)
  from assms(1) *(2) have len: "length (ec_pubkey_serialize K False p) = 65" "hd (ec_pubkey_serialize K False p) = 4"
    "length (ec_pubkey_serialize K True p) = 33" "hd (ec_pubkey_serialize K True p) \<in> {2, 3}"
    by (auto simp: crypto_ok_def)
  then have "ec_pubkey_serialize K b p \<noteq> []" for b by (cases b) auto
  then have "length pub = (if c then 33 else 65)" "pub ! 0 \<in> (if c then {2, 3} else {4})"
    using len *(3) by (cases c; auto simp: hd_conv_nth)+
  with * show thesis using WIFToPrivkey_length [OF *(1)] that by blast
qed

lemma AddTransfer_eq:
  assumes "crypto_ok K" and "key_of K i = Some (sk, pub)"
  shows "AddTransfer K tx (in_wif i) (in_tx_hash i) (in_tx_index i) (in_scriptPubkey i) (in_value i) address
    = Inr (tx\<lparr>m_Transfers := m_Transfers tx @ [transfer_of K address i]\<rparr>)"
proof -
  obtain c p where *: "WIFToPrivkey (in_wif i) = Inr (sk, c)" "ec_pubkey_create K sk = Some p"
    "pub = ec_pubkey_serialize K c p" "length pub = (if c then 33 else 65)" "length sk = 32"
    by (rule key_of_Some [OF assms])
  have "in_wif i \<noteq> []" using *(1) WIFToPrivkey_Nil by auto
  moreover have "sk \<noteq> []" "pub \<noteq> []" using *(4,5) by (auto split: if_splits)
  moreover have "(if c then PrivKeyToCompressedPubKey K sk else PrivKeyToPubKey K sk) = Inr pub"
    using *(2,3,5) by (simp add: PrivKeyToCompressedPubKey_def PrivKeyToPubKey_def seckey_def)
  ultimately show ?thesis
    using * assms(2) by (simp add: AddTransfer_def transfer_of_def)
qed

lemma add_inputs_eq:
  assumes "crypto_ok K" and "\<forall>i \<in> set is. key_of K i \<noteq> None"
  shows "add_inputs K address tx is
    = Inr (tx\<lparr>m_Transfers := m_Transfers tx @ map (transfer_of K address) is\<rparr>)"
  using assms(2)
proof (induction "is" arbitrary: tx)
  case (Cons i "is")
  then obtain sk pub where "key_of K i = Some (sk, pub)" by auto
  from AddTransfer_eq [OF assms(1) this] Cons show ?case by simp
qed simp

text \<open>The script the change is paid to: that of the first input's public key.\<close>

definition change_script :: "crypto \<Rightarrow> bytes \<Rightarrow> bytes" where
  "change_script K pub = [0x76, 0xa9, 0x14] @ pubkey_hash K pub @ [0x88, 0xac]"

definition outs_of :: "crypto \<Rightarrow> u64 \<Rightarrow> u64 \<Rightarrow> bytes \<Rightarrow> bytes \<Rightarrow> tx_out list" where
  "outs_of K amt change script pub = \<lparr>amount = amt, out_script = script\<rparr>
     # (if 0 < change then [\<lparr>amount = change, out_script = change_script K pub\<rparr>] else [])"

lemma sender_script:
  assumes K: "crypto_ok K" and pub: "length pub = (if c then 33 else 65)" "pub ! 0 \<in> (if c then {2, 3} else {4})"
  shows "rbind (if length pub = EC_PUB_KEY_LENGTH then PubkeyToAddress K pub t else CompressedPubkeyToAddress K pub t)
      (\<lambda>senderaddr. rbind (AddressToPubkeyScript senderaddr False) f) = f (change_script K pub)"
proof -
  have "(if length pub = EC_PUB_KEY_LENGTH then PubkeyToAddress K pub t else CompressedPubkeyToAddress K pub t)
      = Inr (address_bytes K pub t)"
    using pub by (cases c) (auto simp: PubkeyToAddress_def CompressedPubkeyToAddress_def EC_PUB_KEY_LENGTH_def
      EC_KEY_LENGTH_def address_bytes_def pubkey_hash_def Let_def)
  moreover have "AddressToPubkeyScript (address_bytes K pub t) False = Inr (change_script K pub)"
    using crypto_lengths [OF K]
    by (simp add: AddressToPubkeyScript_def address_bytes_def pubkey_hash_def change_script_def Let_def
        HexStringToDump_literals)
  ultimately show ?thesis by simp
qed

definition header_of :: "BTCTransaction \<Rightarrow> nat \<Rightarrow> bytes" where
  "header_of tx n = version tx @ PackInteger (of_nat n)"

definition trailer_of :: "BTCTransaction \<Rightarrow> tx_out list \<Rightarrow> bytes" where
  "trailer_of tx outs = PackInteger (of_nat (length outs)) @ concat (map enc_out outs) @ locktime tx @ hashcodetype tx"

lemma foldl_outBalance: "foldl (\<lambda>b t. b + outBalance t) a ts = a + sum_list (map outBalance ts)"
  by (induction ts arbitrary: a) (simp_all add: add.assoc)

lemma buildSignedDump_eq:
  assumes K: "crypto_ok K" and ts: "m_Transfers tx = t # us"
    and pub: "length (pubkey t) = (if c then 33 else 65)" "pubkey t ! 0 \<in> (if c then {2, 3} else {4})"
    and small: "\<forall>t \<in> set (t # us). length (scriptpubkey t) + 9 < 2 ^ 64"
    and script: "AddressToPubkeyScript (receiveAddress t) True = Inr script"
    and money: "amt + fee \<le> sum_list (map outBalance (t # us))"
  defines "outs \<equiv> outs_of K amt (sum_list (map outBalance (t # us)) - amt - fee) script (pubkey t)"
  shows "\<exists>ts'. buildSignedDump K tx fee amt
      = Inr (header_of tx (length (t # us)) @ ins_of (sequence tx) (t # us) (map scriptpubkey (t # us))
             @ trailer_of tx outs, tx\<lparr>m_Transfers := ts'\<rparr>)
    \<and> map unplaced ts' = map unplaced (t # us)
    \<and> placed (sequence tx) (length (header_of tx (length (t # us)))) ts' (map scriptpubkey (t # us))"
proof -
  from dump_inputs_spec [OF small, of "sequence tx" "header_of tx (length (t # us))"]
  obtain ts' where dump: "dump_inputs (sequence tx) (version tx @ PackInteger (of_nat (length (t # us)))) (t # us)
      = (header_of tx (length (t # us)) @ ins_of (sequence tx) (t # us) (map scriptpubkey (t # us)), ts')"
    and unp: "map unplaced ts' = map unplaced (t # us)"
    and pl: "placed (sequence tx) (length (header_of tx (length (t # us)))) ts' (map scriptpubkey (t # us))"
    unfolding header_of_def by auto
  then obtain t' us' where ts': "ts' = t' # us'" "unplaced t' = unplaced t" by (cases ts') auto
  have first: "vec_index ts' 0 = Inr t'" by (simp add: ts'(1) vec_index_def)
  note fields = unplaced_fields [OF ts'(2)]
  have bal: "foldl (\<lambda>b t. b + outBalance t) 0 (t # us) = sum_list (map outBalance (t # us))"
    by (simp only: foldl_outBalance) simp
  have "buildSignedDump K tx fee amt = Inr (header_of tx (length (t # us))
      @ ins_of (sequence tx) (t # us) (map scriptpubkey (t # us)) @ trailer_of tx outs, tx\<lparr>m_Transfers := ts'\<rparr>)"
    unfolding buildSignedDump_def ts Let_def bal CHECK_TYPED_def
    unfolding dump prod.case first rbind_simps fields script sender_script [OF K pub]
    using money
    by (simp add: outs_def outs_of_def trailer_of_def enc_out_def var_bytes_def)
  then show ?thesis using unp pl by blast
qed

lemma AddressToPubkeyScript_length: "AddressToPubkeyScript a d = Inr script \<Longrightarrow> length script \<le> 25"
proof -
  assume "AddressToPubkeyScript a d = Inr script"
  then obtain addr where "(if length addr \<noteq> 25 then Inl (incorrect_address a)
     else if addr ! 0 = 111 \<or> addr ! 0 = 0 then Inr ([0x76, 0xa9, 0x14] @ take 20 (drop 1 addr) @ [0x88, 0xac])
     else if addr ! 0 = 5 then Inr ([0xa9, 0x14] @ take 20 (drop 1 addr) @ [0x87])
     else rbind (EncodeBase58BTC addr) (\<lambda>a. Inl (incorrect_address a))) = Inr script"
    unfolding AddressToPubkeyScript_def HexStringToDump_literals rbind_simps rbind_eq_Inr disj_absorb by blast
  then show "length script \<le> 25" by (auto simp: rbind_eq_Inr split: if_split_asm)
qed

lemma length_ins_of_bound:
  "length seq = 4 \<Longrightarrow> length (ins_of seq ts (map f ts)) \<le> (\<Sum>t\<leftarrow>ts. length (spendtxid t) + length (f t) + 17)"
proof (induction ts)
  case (Cons t ts)
  have "length (ins_of seq (t # ts) (map f (t # ts)))
      = length (spendtxid t) + 4 + length (var_bytes (f t)) + 4 + length (ins_of seq ts (map f ts))"
    using Cons.prems by (simp add: add.assoc)
  moreover have "(\<Sum>t\<leftarrow>t # ts. length (spendtxid t) + length (f t) + 17)
      = length (spendtxid t) + length (f t) + 17 + (\<Sum>t\<leftarrow>ts. length (spendtxid t) + length (f t) + 17)"
    by simp
  ultimately show ?case using Cons length_var_bytes_bounds(2) [of "f t"] by linarith
qed simp

lemma signed_bodies_lengths:
  assumes "crypto_ok K" and "length (obhashcodetype tx) = 1" and "\<forall>t \<in> set ts. length (pubkey t) \<le> 65"
    and "signed_bodies K tx tmpl i ts = Some bodies"
  shows "length bodies = length ts \<and> (\<forall>b \<in> set bodies. length b \<le> 140)"
  using assms(3,4)
proof (induction ts arbitrary: i bodies)
  case (Cons t ts)
  then obtain der bs where *: "signature K (tmpl i) (privkey t) = Some der"
    "signed_bodies K tx tmpl (Suc i) ts = Some bs" "bodies = script_body tx der (pubkey t) # bs"
    by (auto split: option.splits)
  from *(1) assms(1) have "length der \<le> 72"
    by (auto simp: signature_def crypto_ok_def split: bind_splits)
  then have "length (script_body tx der (pubkey t)) \<le> 140"
    using input_script_eq(2) assms(2) Cons.prems(1) by simp
  then show ?case using Cons.IH [OF _ *(2)] Cons.prems(1) *(3) by simp
qed simp

lemma length_ins_of_signed:
  assumes "length seq = 4" and "length ss = length ts" and "\<forall>b \<in> set ss. length b \<le> 140"
  shows "length (ins_of seq ts ss) \<le> (\<Sum>t\<leftarrow>ts. length (spendtxid t) + f t + 157)"
  using assms(2,3)
proof (induction ts arbitrary: ss)
  case (Cons t ts)
  then obtain s ss' where ss: "ss = s # ss'" by (cases ss) auto
  have "length (ins_of seq (t # ts) ss)
      = length (spendtxid t) + 4 + length (var_bytes s) + 4 + length (ins_of seq ts ss')"
    using assms(1) by (simp add: ss add.assoc)
  moreover have "(\<Sum>t\<leftarrow>t # ts. length (spendtxid t) + f t + 157)
      = length (spendtxid t) + f t + 157 + (\<Sum>t\<leftarrow>ts. length (spendtxid t) + f t + 157)"
    by simp
  moreover have "length (ins_of seq ts ss') \<le> (\<Sum>t\<leftarrow>ts. length (spendtxid t) + f t + 157)"
    using Cons by (simp add: ss)
  moreover have "length s \<le> 140" using Cons.prems(2) by (simp add: ss)
  ultimately show ?case using length_var_bytes_bounds(2) [of s] by linarith
qed simp

text \<open>The sizes of what is written around the inputs.\<close>

lemma length_outs_of:
  assumes "crypto_ok K" and "AddressToPubkeyScript a True = Inr script"
  shows "length (concat (map enc_out (outs_of K amt change script pub))) \<le> 84"
  using AddressToPubkeyScript_length [OF assms(2)] crypto_lengths [OF assms(1)] length_var_bytes_bounds(2) [of script]
    length_var_bytes_bounds(2) [of "change_script K pub"]
  by (simp add: outs_of_def enc_out_def change_script_def pubkey_hash_def)

lemma length_framed:
  assumes "length (hashcodetype tx) = 4" and "length (version tx) = 4" and "length (locktime tx) = 4"
    and "length (concat (map enc_out outs)) \<le> 84"
  shows "length (header_of tx n @ ins @ trailer_of tx outs) \<le> 114 + length ins"
    and "4 \<le> length (header_of tx n @ ins @ trailer_of tx outs)"
  using assms length_PackInteger_le [of "of_nat n"] length_PackInteger_le [of "of_nat (length outs)"]
  unfolding header_of_def trailer_of_def length_append by linarith+

lemma sum_sizes_le:
  fixes f :: "'a \<Rightarrow> nat"
  assumes "a + k \<le> b"
  shows "(\<Sum>x\<leftarrow>xs. f x + a) + k * length xs \<le> (\<Sum>x\<leftarrow>xs. f x + b)"
  using assms by (induction xs) simp_all

lemma unplaced_all:
  assumes "map unplaced ts' = map unplaced ts" and "\<forall>t \<in> set ts. P (pubkey t)"
  shows "\<forall>t \<in> set ts'. P (pubkey t)"
proof
  fix u assume "u \<in> set ts'"
  then have "unplaced u \<in> set (map unplaced ts)" using assms(1) by (metis image_eqI set_map)
  then obtain v where "v \<in> set ts" "unplaced u = unplaced v" unfolding set_map by (rule imageE)
  then show "P (pubkey u)" using assms(2) unplaced_fields(5) by metis
qed

lemma BuildTransaction_eq:
  assumes K: "crypto_ok K" and ts: "m_Transfers tx = t # us"
    and pub: "length (pubkey t) = (if c then 33 else 65)" "pubkey t ! 0 \<in> (if c then {2, 3} else {4})"
    and pubs: "\<forall>t \<in> set (t # us). length (pubkey t) \<le> 65"
    and script: "AddressToPubkeyScript (receiveAddress t) True = Inr script"
    and money: "amt + fee \<le> sum_list (map outBalance (t # us))"
    and fixed: "length (obhashcodetype tx) = 1" "length (hashcodetype tx) = 4" "length (version tx) = 4"
      "length (sequence tx) = 4" "length (locktime tx) = 4"
    and size: "(\<Sum>t\<leftarrow>t # us. length (spendtxid t) + length (scriptpubkey t) + 200) + 200 < 2 ^ 64"
  defines "outs \<equiv> outs_of K amt (sum_list (map outBalance (t # us)) - amt - fee) script (pubkey t)"
  defines "dump \<equiv> \<lambda>scripts. header_of tx (length (t # us)) @ ins_of (sequence tx) (t # us) scripts @ trailer_of tx outs"
  shows "BuildTransaction K tx fee amt
    = (case signed_bodies K tx (\<lambda>i. dump (keep_only i 0 (map scriptpubkey (t # us)))) 0 (t # us) of
         None \<Rightarrow> Inl (StringException (bs ''not sign''))
       | Some bodies \<Rightarrow> Inr (take (length (dump bodies) - 4) (dump bodies)))"
proof -
  let ?ts = "t # us" and ?seq = "sequence tx" and ?B = "header_of tx (length (t # us))"
  let ?scripts = "map scriptpubkey (t # us)"
  have small: "\<forall>t \<in> set ?ts. length (scriptpubkey t) + 9 < 2 ^ 64"
  proof
    fix u assume "u \<in> set ?ts"
    then have "length (spendtxid u) + length (scriptpubkey u) + 200
        \<le> (\<Sum>t\<leftarrow>?ts. length (spendtxid t) + length (scriptpubkey t) + 200)"
      by (intro member_le_sum_list) (simp only: set_map, rule imageI, assumption, simp)
    with size show "length (scriptpubkey u) + 9 < 2 ^ 64" by linarith
  qed
  from buildSignedDump_eq [OF K ts pub small script money, folded outs_def] obtain ts'
    where dumped: "buildSignedDump K tx fee amt = Inr (dump ?scripts, tx\<lparr>m_Transfers := ts'\<rparr>)"
    and unp: "map unplaced ts' = map unplaced ?ts" and pl: "placed ?seq (length ?B) ts' ?scripts"
    unfolding dump_def by auto
  have same: "ins_of ?seq ts' x = ins_of ?seq ?ts x" for x by (rule ins_of_unplaced [OF unp])
  have len: "length ts' = length ?ts" using map_eq_imp_length_eq [OF unp] .
  then have "ts' \<noteq> []" by auto
  have "length (concat (map enc_out outs)) \<le> 84" unfolding outs_def by (rule length_outs_of [OF K script])
  note framed = length_framed [OF fixed(2,3,5) this, of "length ?ts", folded dump_def]
  have bound: "length (dump ?scripts) + 150 * length ts' < 2 ^ 64"
    using framed(1) [of "ins_of ?seq ?ts ?scripts"] length_ins_of_bound [OF fixed(4), of ?ts scriptpubkey] size
      sum_sizes_le [of 17 150 200 "\<lambda>t. length (spendtxid t) + length (scriptpubkey t)" ?ts]
    unfolding dump_def len by linarith
  have tmpl: "removeScripts (dump ?scripts) (0 + j) ts' = Inr (dump (keep_only (0 + j) 0 ?scripts))" for j
    using removeScripts_spec [OF pl _ _ \<open>ts' \<noteq> []\<close>, of "dump ?scripts" "trailer_of tx outs" j] bound
    by (simp add: dump_def same)
  let ?tx = "tx\<lparr>m_Transfers := ts'\<rparr>"
  have body: "script_body ?tx = script_body tx" by (simp add: script_body_def [abs_def])
  have bodies: "signed_bodies K ?tx f i xs = signed_bodies K tx f i xs" for f i xs
    by (induction xs arbitrary: i) (simp_all add: body split: option.split)
  have dump': "?B @ ins_of ?seq ts' x @ trailer_of tx outs = dump x" for x
    unfolding dump_def same ..
  have tx_ob: "length (obhashcodetype ?tx) = 1" using fixed(1) by simp
  have "sign_inputs K ?tx (dump ?scripts) ts' 0 (dump ?scripts) ts'
    = (case signed_bodies K ?tx (\<lambda>i. dump (keep_only i 0 ?scripts)) 0 ts' of
         None \<Rightarrow> Inl (StringException (bs ''not sign'')) | Some bodies \<Rightarrow> Inr (dump bodies))"
    using sign_inputs_spec [OF K tx_ob pl _ unplaced_all [OF unp pubs] tmpl, of "trailer_of tx outs"]
    unfolding dump' using bound by (rule meta_mp)
  then have "sign_inputs K ?tx (dump ?scripts) ts' 0 (dump ?scripts) ts'
    = (case signed_bodies K tx (\<lambda>i. dump (keep_only i 0 ?scripts)) 0 ?ts of
         None \<Rightarrow> Inl (StringException (bs ''not sign'')) | Some bodies \<Rightarrow> Inr (dump bodies))"
    unfolding bodies signed_bodies_unplaced [OF unp] .
  moreover have "substr (dump bodies) 0 (size_sub (length (dump bodies)) 4) = Inr (take (length (dump bodies) - 4) (dump bodies))"
    if sb: "signed_bodies K tx (\<lambda>i. dump (keep_only i 0 ?scripts)) 0 ?ts = Some bodies" for bodies
  proof -
    from signed_bodies_lengths [OF K fixed(1) pubs sb]
    have "length (ins_of ?seq ?ts bodies) \<le> (\<Sum>t\<leftarrow>?ts. length (spendtxid t) + length (scriptpubkey t) + 157)"
      by (intro length_ins_of_signed [OF fixed(4)]) blast+
    then have "length (dump bodies) < 2 ^ 64" "4 \<le> length (dump bodies)"
      using framed [of "ins_of ?seq ?ts bodies"] size
        sum_sizes_le [of 157 0 200 "\<lambda>t. length (spendtxid t) + length (scriptpubkey t)" ?ts]
      unfolding dump_def by linarith+
    then show ?thesis by (simp add: size_arith)
  qed
  ultimately show ?thesis
    unfolding BuildTransaction_def dumped rbind_simps prod.case signAllInputs_def
    by (simp split: option.split)
qed

end
