(* ===== verification/BtctxSpec.thy ===== *)
theory BtctxSpec
  imports Btctx
begin

text \<open>
  What \<open>BuildBTCTransaction\<close> promises: the transaction it returns, in terms of the format of
  \<open>TxFormat\<close> and of the message each input signs, and what becomes of the money.
\<close>

section \<open>What is signed and what is sent\<close>

text \<open>The transaction over these inputs and outputs, with the given input scripts, and the message
  that is signed for the input \<open>k\<close> (SIGHASH_ALL): the scripts of the other inputs are empty.\<close>

definition legacy_tx :: "Input list \<Rightarrow> tx_out list \<Rightarrow> bytes list \<Rightarrow> transaction" where
  "legacy_tx inputs outs scripts =
     \<lparr>tx_version = 1,
      tx_ins = map2 (\<lambda>i s. \<lparr>prev_hash = rev (in_tx_hash i), prev_index = in_tx_index i, script_sig = s,
                            in_sequence = [0xFF, 0xFF, 0xFF, 0xFF]\<rparr>) inputs scripts,
      tx_outs = outs, tx_locktime = 0\<rparr>"

definition sighash_message :: "Input list \<Rightarrow> tx_out list \<Rightarrow> nat \<Rightarrow> bytes" where
  "sighash_message inputs outs k =
     enc_tx (legacy_tx inputs outs (keep_only k 0 (map in_scriptPubkey inputs))) @ [1, 0, 0, 0]"

text \<open>The script of each input is the signature of its message, the hash type and the public key.\<close>

fun unlock_scripts :: "crypto \<Rightarrow> (nat \<Rightarrow> bytes) \<Rightarrow> nat \<Rightarrow> Input list \<Rightarrow> bytes list option" where
  "unlock_scripts K msg k [] = Some []"
| "unlock_scripts K msg k (i # is) =
     (case key_of K i of None \<Rightarrow> None
      | Some (sk, pub) \<Rightarrow> (case signature K (msg k) sk of None \<Rightarrow> None
        | Some der \<Rightarrow> map_option ((#) ([of_nat (length der + 1)] @ der @ [1] @ [of_nat (length pub)] @ pub))
            (unlock_scripts K msg (Suc k) is)))"

definition change_key :: "crypto \<Rightarrow> Input list \<Rightarrow> bytes" where
  "change_key K inputs = (case inputs of [] \<Rightarrow> [] | i # is \<Rightarrow> (case key_of K i of None \<Rightarrow> [] | Some (sk, pub) \<Rightarrow> pub))"

definition payment :: "crypto \<Rightarrow> Input list \<Rightarrow> u64 \<Rightarrow> u64 \<Rightarrow> bytes \<Rightarrow> tx_out list" where
  "payment K inputs fee amt script =
     outs_of K amt (sum_list (map in_value inputs) - amt - fee) script (change_key K inputs)"

lemma length_keep_only [simp]: "length (keep_only k i ss) = length ss"
  by (induction ss arbitrary: i) simp_all

lemma transfer_of_fields:
  assumes "key_of K i = Some (sk, pub)"
  shows "pubkey (transfer_of K a i) = pub" "privkey (transfer_of K a i) = sk"
    "spendtxid (transfer_of K a i) = rev (in_tx_hash i)" "outnum (transfer_of K a i) = in_tx_index i"
    "scriptpubkey (transfer_of K a i) = in_scriptPubkey i" "outBalance (transfer_of K a i) = in_value i"
    "receiveAddress (transfer_of K a i) = a"
  by (simp_all add: transfer_of_def assms)

lemma map_transfer_of:
  assumes "list_all (\<lambda>i. key_of K i \<noteq> None) inputs"
  shows "map scriptpubkey (map (transfer_of K a) inputs) = map in_scriptPubkey inputs"
    and "map outBalance (map (transfer_of K a) inputs) = map in_value inputs"
    and "map spendtxid (map (transfer_of K a) inputs) = map (\<lambda>i. rev (in_tx_hash i)) inputs"
    and "map outnum (map (transfer_of K a) inputs) = map in_tx_index inputs"
  using assms by (induction inputs) (auto simp: transfer_of_fields)

lemma signed_bodies_unlock:
  assumes "list_all (\<lambda>i. key_of K i \<noteq> None) inputs" and "obhashcodetype tx = [1]"
  shows "signed_bodies K tx msg k (map (transfer_of K a) inputs) = unlock_scripts K msg k inputs"
  using assms(1)
proof (induction inputs arbitrary: k)
  case (Cons i inputs)
  then obtain sk pub where key: "key_of K i = Some (sk, pub)" by auto
  have "script_body tx der pub = [of_nat (length der + 1)] @ der @ [1] @ [of_nat (length pub)] @ pub" for der
    by (simp add: script_body_def assms(2))
  with Cons show ?case by (simp add: key transfer_of_fields [OF key] split: option.split)
qed simp

lemma ins_of_legacy:
  assumes "list_all (\<lambda>i. key_of K i \<noteq> None) inputs"
  shows "map2 (in_of [0xFF, 0xFF, 0xFF, 0xFF]) (map (transfer_of K a) inputs) ss = tx_ins (legacy_tx inputs outs ss)"
  using assms unfolding legacy_tx_def transaction.simps
proof (induction inputs arbitrary: ss)
  case (Cons i inputs)
  then show ?case by (cases ss) (auto simp: in_of_def transfer_of_fields)
qed simp

lemma buffer_of_0_1: "IntegerToBuffer (0::u32) = [0, 0, 0, 0]" "IntegerToBuffer (1::u32) = [1, 0, 0, 0]"
  by code_simp+

lemma dump_legacy:
  assumes "list_all (\<lambda>i. key_of K i \<noteq> None) inputs" and "length ss = length inputs"
  shows "version (new_BTCTransaction tn) @ PackInteger (of_nat (length inputs))
      @ ins_of [0xFF, 0xFF, 0xFF, 0xFF] (map (transfer_of K a) inputs) ss
      @ trailer_of (new_BTCTransaction tn) outs
    = enc_tx (legacy_tx inputs outs ss) @ [1, 0, 0, 0]"
proof -
  have n: "length (tx_ins (legacy_tx inputs outs ss)) = length inputs" using assms(2) by (simp add: legacy_tx_def)
  have "version (new_BTCTransaction tn) = IntegerToBuffer (tx_version (legacy_tx inputs outs ss))"
    "locktime (new_BTCTransaction tn) = IntegerToBuffer (tx_locktime (legacy_tx inputs outs ss))"
    "tx_outs (legacy_tx inputs outs ss) = outs" "hashcodetype (new_BTCTransaction tn) = [1, 0, 0, 0]"
    by (simp_all add: new_BTCTransaction_def legacy_tx_def buffer_of_0_1)
  then show ?thesis
    unfolding enc_tx_def n trailer_of_def ins_of_def ins_of_legacy [OF assms(1), of a ss outs] by simp
qed

lemma size_of_transfers:
  assumes "list_all (\<lambda>i. key_of K i \<noteq> None) inputs"
  shows "(\<Sum>t\<leftarrow>map (transfer_of K a) inputs. length (spendtxid t) + length (scriptpubkey t) + 200)
    = (\<Sum>i\<leftarrow>inputs. length (in_tx_hash i) + length (in_scriptPubkey i) + 200)"
  using assms by (induction inputs) (auto simp: transfer_of_fields)

lemma unlock_scripts_length:
  "unlock_scripts K msg k inputs = Some ss \<Longrightarrow> length ss = length inputs"
  by (induction inputs arbitrary: k ss) (auto split: option.splits)

lemma BuildBTCTransaction_eq:
  assumes K: "crypto_ok K" and keys: "list_all (\<lambda>i. key_of K i \<noteq> None) inputs" and "inputs \<noteq> []"
    and script: "AddressToPubkeyScript address True = Inr script"
    and money: "amt + fee \<le> sum_list (map in_value inputs)"
    and size: "(\<Sum>i\<leftarrow>inputs. length (in_tx_hash i) + length (in_scriptPubkey i) + 200) + 200 < 2 ^ 64"
  shows "BuildBTCTransaction K inputs fee amt address testnet
    = (case unlock_scripts K (sighash_message inputs (payment K inputs fee amt script)) 0 inputs of
         None \<Rightarrow> Inl (StringException (bs ''not sign''))
       | Some scripts \<Rightarrow> Inr (enc_tx (legacy_tx inputs (payment K inputs fee amt script) scripts)))"
proof -
  from \<open>inputs \<noteq> []\<close> obtain i us where inputs: "inputs = i # us" by (cases inputs) auto
  from keys obtain sk pub where key: "key_of K i = Some (sk, pub)" by (auto simp: inputs)
  obtain c p where pub: "length pub = (if c then 33 else 65)" "pub ! 0 \<in> (if c then {2, 3} else {4})"
    by (rule key_of_Some [OF K key])
  let ?tr = "transfer_of K address" and ?new = "new_BTCTransaction testnet"
  let ?tx = "?new\<lparr>m_Transfers := map ?tr inputs\<rparr>" and ?outs = "payment K inputs fee amt script"
  have add: "add_inputs K address ?new inputs = Inr ?tx"
    using keys by (subst add_inputs_eq [OF K]) (auto simp: list_all_iff new_BTCTransaction_def)
  have pubs: "\<forall>t \<in> set (map ?tr inputs). length (pubkey t) \<le> 65"
  proof
    fix t assume "t \<in> set (map ?tr inputs)"
    then obtain j where j: "j \<in> set inputs" "t = ?tr j" unfolding set_map by (rule imageE)
    then obtain sk' pub' where k: "key_of K j = Some (sk', pub')" using keys by (auto simp: list_all_iff)
    obtain c' p' where "length pub' = (if c' then 33 else 65)" by (rule key_of_Some [OF K k])
    then show "length (pubkey t) \<le> 65" by (simp add: j transfer_of_fields [OF k] split: if_splits)
  qed
  have tr: "map ?tr inputs = ?tr i # map ?tr us" by (simp add: inputs)
  have fields: "pubkey (?tr i) = pub" "receiveAddress (?tr i) = address" by (rule transfer_of_fields [OF key])+
  have "change_key K inputs = pub" by (simp add: change_key_def inputs key)
  then have outs: "outs_of K amt (sum_list (map in_value inputs) - amt - fee) script pub = ?outs"
    unfolding payment_def by (simp only:)
  have tx: "m_Transfers ?tx = ?tr i # map ?tr us" "sequence ?tx = [0xFF, 0xFF, 0xFF, 0xFF]"
    by (simp_all add: inputs new_BTCTransaction_def)
  have fixed: "length (obhashcodetype ?tx) = 1" "length (hashcodetype ?tx) = 4" "length (version ?tx) = 4"
    "length (sequence ?tx) = 4" "length (locktime ?tx) = 4" by (simp_all add: new_BTCTransaction_def)
  have hdr: "header_of ?tx (length inputs) @ x @ trailer_of ?tx o'
      = version ?new @ PackInteger (of_nat (length inputs)) @ x @ trailer_of ?new o'" for x o'
    by (simp add: header_of_def trailer_of_def)
  let ?msg = "sighash_message inputs ?outs"
  have "BuildTransaction K ?tx fee amt
    = (case signed_bodies K ?tx (\<lambda>k. header_of ?tx (length inputs)
          @ ins_of (sequence ?tx) (map ?tr inputs) (keep_only k 0 (map scriptpubkey (map ?tr inputs)))
          @ trailer_of ?tx ?outs) 0 (map ?tr inputs) of
        None \<Rightarrow> Inl (StringException (bs ''not sign''))
      | Some bodies \<Rightarrow> Inr (take (length (header_of ?tx (length inputs)
          @ ins_of (sequence ?tx) (map ?tr inputs) bodies @ trailer_of ?tx ?outs) - 4)
          (header_of ?tx (length inputs) @ ins_of (sequence ?tx) (map ?tr inputs) bodies @ trailer_of ?tx ?outs)))"
    using BuildTransaction_eq [OF K tx(1) _ _ pubs [unfolded tr] _ _ fixed, of c script amt fee]
      pub script money size
    unfolding fields tr [symmetric] length_map map_transfer_of(2) [OF keys] size_of_transfers [OF keys] outs by blast
  also have "\<dots> = (case unlock_scripts K ?msg 0 inputs of
        None \<Rightarrow> Inl (StringException (bs ''not sign''))
      | Some scripts \<Rightarrow> Inr (enc_tx (legacy_tx inputs ?outs scripts)))"
  proof -
    have msg: "(\<lambda>k. header_of ?tx (length inputs)
          @ ins_of (sequence ?tx) (map ?tr inputs) (keep_only k 0 (map scriptpubkey (map ?tr inputs)))
          @ trailer_of ?tx ?outs) = ?msg"
      unfolding hdr tx(2) map_transfer_of(1) [OF keys]
      by (rule ext) (simp only: dump_legacy [OF keys] length_keep_only length_map sighash_message_def)
    have ob: "obhashcodetype ?tx = [1]" by (simp add: new_BTCTransaction_def)
    show ?thesis
      unfolding msg unfolding signed_bodies_unlock [OF keys ob] hdr tx(2)
      by (cases "unlock_scripts K ?msg 0 inputs")
        (simp_all only: option.case dump_legacy [OF keys] unlock_scripts_length, simp_all)
  qed
  finally show ?thesis unfolding BuildBTCTransaction_def add rbind_simps .
qed

text \<open>C1: When the inputs cover the payment and the fee, what \<open>BuildBTCTransaction\<close> returns is the
  encoding of the transaction with the given inputs, the payment and the change (if any) to the first
  input's key, every input unlocked by a signature of that input's \<open>SIGHASH_ALL\<close> message; it fails
  exactly when a signature fails. Neither the offsets kept per input nor their correction while
  scripts of different lengths are put in can be seen in the result.\<close>

theorem transaction_refines:
  assumes K: "crypto_ok K" and keys: "list_all (\<lambda>i. key_of K i \<noteq> None) inputs" and "inputs \<noteq> []"
    and script: "AddressToPubkeyScript address True = Inr script"
    and money: "amt + fee \<le> sum_list (map in_value inputs)"
    and size: "(\<Sum>i\<leftarrow>inputs. length (in_tx_hash i) + length (in_scriptPubkey i) + 200) + 200 < 2 ^ 64"
  shows "BuildBTCTransaction K inputs fee amt address testnet
    = (case unlock_scripts K (sighash_message inputs (payment K inputs fee amt script)) 0 inputs of
         None \<Rightarrow> Inl (StringException (bs ''not sign''))
       | Some scripts \<Rightarrow> Inr (enc_tx (legacy_tx inputs (payment K inputs fee amt script) scripts)))"
  by (rule BuildBTCTransaction_eq [OF assms])

definition example_input :: Input where
  "example_input = \<lparr>in_wif = wif_text example_crypto example_key False True,
     in_tx_hash = replicate 32 9, in_tx_index = 1, in_scriptPubkey = replicate 25 3, in_value = 1000\<rparr>"

lemma key_of_example: "key_of example_crypto example_input = Some (example_key, 2 # example_key)"
proof -
  have "WIFToPrivkey (in_wif example_input) = Inr (example_key, True)"
    using WIFToPrivkey_wif_text [OF crypto_ok_example, of example_key False True]
    by (simp add: example_input_def example_key_def)
  then show ?thesis by (simp add: key_of_def example_crypto_def example_key_def)
qed

lemma unlock_example: "\<exists>scripts. unlock_scripts example_crypto msg 0 [example_input] = Some scripts"
  by (simp add: key_of_example signature_def) (simp add: example_crypto_def)

lemma script_example:
  "AddressToPubkeyScript example_address True
   = Inr ([0x76, 0xa9, 0x14] @ pubkey_hash example_crypto (2 # example_key) @ [0x88, 0xac])"
  using crypto_lengths [OF crypto_ok_example]
  by (simp add: example_address_def AddressToPubkeyScript_def address_bytes_def pubkey_hash_def Let_def
      HexStringToDump_literals DecodeBase58_base58 c_str_base58)

lemma example_input_simps:
  "list_all (\<lambda>i. key_of example_crypto i \<noteq> None) [example_input]" "[example_input] \<noteq> []"
  "(\<Sum>i\<leftarrow>[example_input]. length (in_tx_hash i) + length (in_scriptPubkey i) + 200) + 200 < 2 ^ 64"
  "sum_list (map in_value [example_input]) = 1000" "(\<Sum>i\<leftarrow>[example_input]. unat (in_value i)) = 1000"
  "list_all (\<lambda>i. length (in_tx_hash i) = 32) [example_input]"
  by (simp_all add: key_of_example) (simp_all add: example_input_def)

theorem transaction_refines_witness:
  "case unlock_scripts example_crypto (sighash_message [example_input]
      (payment example_crypto [example_input] 10 60 ([0x76, 0xa9, 0x14] @ pubkey_hash example_crypto (2 # example_key) @ [0x88, 0xac])))
      0 [example_input] of
     None \<Rightarrow> False
   | Some scripts \<Rightarrow> BuildBTCTransaction example_crypto [example_input] 10 60 example_address False
      = Inr (enc_tx (legacy_tx [example_input] (payment example_crypto [example_input] 10 60
          ([0x76, 0xa9, 0x14] @ pubkey_hash example_crypto (2 # example_key) @ [0x88, 0xac])) scripts))"
proof -
  have money: "(60::u64) + 10 \<le> sum_list (map in_value [example_input])"
    unfolding example_input_simps by simp
  show ?thesis
    using transaction_refines [OF crypto_ok_example example_input_simps(1,2) script_example money
        example_input_simps(3), of False] unlock_example
    by (auto split: option.split)
qed

lemma payment_hd: "payment K inputs fee amt script ! 0 = \<lparr>amount = amt, out_script = script\<rparr>"
  by (simp add: payment_def outs_of_def)

lemma payment_sum:
  "(\<Sum>out\<leftarrow>payment K inputs fee amt script. unat (amount out))
   = unat amt + unat (sum_list (map in_value inputs) - amt - fee)"
  by (simp add: payment_def outs_of_def) (metis unat_0 word_gt_0)

lemma unlock_scripts_bound:
  assumes "crypto_ok K" and "unlock_scripts K msg k inputs = Some ss"
  shows "\<forall>s \<in> set ss. length s \<le> 140"
  using assms(2)
proof (induction inputs arbitrary: k ss)
  case (Cons i inputs)
  then obtain sk pub der ss' where *: "key_of K i = Some (sk, pub)" "signature K (msg k) sk = Some der"
    "unlock_scripts K msg (Suc k) inputs = Some ss'"
    "ss = ([of_nat (length der + 1)] @ der @ [1] @ [of_nat (length pub)] @ pub) # ss'"
    by (auto split: option.splits)
  obtain c p where "length pub = (if c then 33 else 65)" by (rule key_of_Some [OF assms(1) *(1)])
  moreover have "length der \<le> 72"
    using *(2) assms(1) by (auto simp: signature_def crypto_ok_def split: bind_splits)
  ultimately show ?case using Cons.IH [OF *(3)] *(4) by (auto split: if_splits)
qed simp

text \<open>The transaction can be read back from what is sent.\<close>

lemma read_sent:
  assumes K: "crypto_ok K" and "list_all (\<lambda>i. key_of K i \<noteq> None) inputs" and "inputs \<noteq> []"
    and script: "AddressToPubkeyScript address True = Inr script"
    and "amt + fee \<le> sum_list (map in_value inputs)"
    and size: "(\<Sum>i\<leftarrow>inputs. length (in_tx_hash i) + length (in_scriptPubkey i) + 200) + 200 < 2 ^ 64"
    and hashes: "list_all (\<lambda>i. length (in_tx_hash i) = 32) inputs"
    and sent: "BuildBTCTransaction K inputs fee amt address testnet = Inr raw"
  shows "\<exists>scripts. length scripts = length inputs \<and> (\<forall>s \<in> set scripts. length s \<le> 140)
    \<and> raw = enc_tx (legacy_tx inputs (payment K inputs fee amt script) scripts)
    \<and> read_tx raw = Some (legacy_tx inputs (payment K inputs fee amt script) scripts, [])"
proof -
  let ?outs = "payment K inputs fee amt script"
  from sent BuildBTCTransaction_eq [OF assms(1-6), of testnet] obtain ss
    where ss: "unlock_scripts K (sighash_message inputs ?outs) 0 inputs = Some ss"
    and raw: "raw = enc_tx (legacy_tx inputs ?outs ss)"
    by (auto split: option.splits)
  note len = unlock_scripts_length [OF ss] and short = unlock_scripts_bound [OF K ss]
  have "200 * length inputs \<le> (\<Sum>i\<leftarrow>inputs. length (in_tx_hash i) + length (in_scriptPubkey i) + 200)"
    by (induction inputs) simp_all
  then have n: "length inputs < 2 ^ 64" using size by linarith
  have "in_ok i" if "i \<in> set (tx_ins (legacy_tx inputs ?outs ss))" for i
  proof -
    from that obtain j s where "(j, s) \<in> set (zip inputs ss)" and i: "i = \<lparr>prev_hash = rev (in_tx_hash j),
        prev_index = in_tx_index j, script_sig = s, in_sequence = [0xFF, 0xFF, 0xFF, 0xFF]\<rparr>"
      by (auto simp: legacy_tx_def)
    then have "j \<in> set inputs" "s \<in> set ss" by (auto dest: set_zip_leftD set_zip_rightD)
    then have "length (in_tx_hash j) = 32" "length s \<le> 140" using hashes short by (auto simp: list_all_iff)
    then show ?thesis by (simp add: in_ok_def i)
  qed
  moreover have "out_ok out" if "out \<in> set ?outs" for out
  proof -
    have "length (change_script K p) = 25" for p
      using crypto_lengths [OF K] by (simp add: change_script_def pubkey_hash_def)
    then show ?thesis
      using that AddressToPubkeyScript_length [OF script]
      by (auto simp: payment_def outs_of_def out_ok_def split: if_splits)
  qed
  moreover have "length ?outs < 2 ^ 64" by (simp add: payment_def outs_of_def)
  ultimately have "tx_ok (legacy_tx inputs ?outs ss)"
    using n by (simp add: tx_ok_def) (simp add: legacy_tx_def len)
  from tx.dec_enc [OF this, of "[]"] show ?thesis using len short raw by auto
qed

section \<open>Money\<close>

lemma unat_add_no_overflow: "unat x + unat y < 2 ^ LENGTH('a) \<Longrightarrow> unat (x + y) = unat x + unat y"
  for x y :: "'a::len word"
  by (simp add: unat_word_ariths)

lemma unat_sum_list:
  fixes xs :: "'a::len word list"
  assumes "(\<Sum>x\<leftarrow>xs. unat x) < 2 ^ LENGTH('a)"
  shows "unat (sum_list xs) = (\<Sum>x\<leftarrow>xs. unat x)"
  using assms
proof (induction xs)
  case (Cons x xs)
  then have "unat (sum_list xs) = (\<Sum>x\<leftarrow>xs. unat x)" by simp
  with Cons.prems show ?case by (simp add: unat_add_no_overflow)
qed simp

lemma unat_sum_in_value:
  assumes "(\<Sum>i\<leftarrow>inputs. unat (in_value i)) < 2 ^ 64"
  shows "unat (sum_list (map in_value inputs)) = (\<Sum>i\<leftarrow>inputs. unat (in_value i))"
  using unat_sum_list [of "map in_value inputs"] assms by (simp add: comp_def)

lemma length_sent:
  assumes "length scripts = length inputs" and "\<forall>s \<in> set scripts. length s \<le> 140"
    and "list_all (\<lambda>i. length (in_tx_hash i) = 32) inputs" and "(\<Sum>o'\<leftarrow>outs. length (enc_out o')) \<le> 84"
  shows "length (enc_tx (legacy_tx inputs outs scripts)) \<le> 200 * length inputs + 110"
    and "enc_tx (legacy_tx inputs outs scripts) \<noteq> []"
proof -
  have ins: "length (concat (map enc_in (tx_ins (legacy_tx inputs outs scripts)))) \<le> 200 * length inputs"
    using assms(1-3) unfolding legacy_tx_def transaction.simps
  proof (induction rule: list_induct2)
    case (Cons s scripts i inputs)
    then show ?case using length_var_bytes_bounds(2) [of s] by (simp add: enc_in_def)
  qed simp
  have outs: "length (concat (map enc_out (tx_outs (legacy_tx inputs outs scripts)))) \<le> 84"
    using assms(4) by (simp add: legacy_tx_def length_concat comp_def)
  show "length (enc_tx (legacy_tx inputs outs scripts)) \<le> 200 * length inputs + 110"
    unfolding enc_tx_def length_append length_IntegerToBuffer
    using ins outs length_PackInteger_le [of "of_nat (length (tx_ins (legacy_tx inputs outs scripts)))"]
      length_PackInteger_le [of "of_nat (length (tx_outs (legacy_tx inputs outs scripts)))"] by simp
  have "length (IntegerToBuffer (tx_version t)) = 4" for t by simp
  then have "0 < length (enc_tx (legacy_tx inputs outs scripts))"
    unfolding enc_tx_def length_append by (metis add_pos_nonneg zero_le zero_less_numeral)
  then show "enc_tx (legacy_tx inputs outs scripts) \<noteq> []" by simp
qed

lemma sent_conserved:
  assumes "crypto_ok K" and "list_all (\<lambda>i. key_of K i \<noteq> None) inputs" and "inputs \<noteq> []"
    and "list_all (\<lambda>i. length (in_tx_hash i) = 32) inputs"
    and "AddressToPubkeyScript address True = Inr script"
    and "unat amt + unat fee \<le> (\<Sum>i\<leftarrow>inputs. unat (in_value i))"
    and "(\<Sum>i\<leftarrow>inputs. unat (in_value i)) < 2 ^ 64"
    and "(\<Sum>i\<leftarrow>inputs. length (in_tx_hash i) + length (in_scriptPubkey i) + 200) + 200 < 2 ^ 64"
    and "BuildBTCTransaction K inputs fee amt address testnet = Inr raw"
  shows "\<exists>t. read_tx raw = Some (t, []) \<and> map prev_hash (tx_ins t) = map (\<lambda>i. rev (in_tx_hash i)) inputs
    \<and> tx_outs t ! 0 = \<lparr>amount = amt, out_script = script\<rparr>
    \<and> (\<Sum>out\<leftarrow>tx_outs t. unat (amount out)) + unat fee = (\<Sum>i\<leftarrow>inputs. unat (in_value i))
    \<and> raw \<noteq> [] \<and> length raw \<le> 200 * length inputs + 110"
proof -
  let ?sum = "sum_list (map in_value inputs)"
  have sum: "unat ?sum = (\<Sum>i\<leftarrow>inputs. unat (in_value i))" using unat_sum_in_value [OF assms(7)] .
  have fit: "unat amt + unat fee < 2 ^ LENGTH(64)" using assms(6,7) by simp
  then have af: "unat (amt + fee) = unat amt + unat fee" by (rule unat_add_no_overflow)
  have money: "amt + fee \<le> ?sum" unfolding word_le_nat_alt af sum by (rule assms(6))
  then have "unat (?sum - (amt + fee)) + unat (amt + fee) = unat ?sum" by (simp add: unat_sub word_le_nat_alt)
  then have change: "unat (?sum - amt - fee) + unat amt + unat fee = unat ?sum"
    by (simp only: af diff_diff_eq add.assoc)
  from read_sent [OF assms(1-3,5) money assms(8,4,9)] obtain scripts where len: "length scripts = length inputs"
    and short: "\<forall>s \<in> set scripts. length s \<le> 140"
    and raw: "raw = enc_tx (legacy_tx inputs (payment K inputs fee amt script) scripts)"
    and read: "read_tx raw = Some (legacy_tx inputs (payment K inputs fee amt script) scripts, [])" by blast
  have "map prev_hash (tx_ins (legacy_tx inputs outs scripts)) = map (\<lambda>i. rev (in_tx_hash i)) inputs" for outs
    using len unfolding legacy_tx_def transaction.simps by (induction rule: list_induct2) simp_all
  moreover have "tx_outs (legacy_tx inputs outs scripts) = outs" for outs by (simp add: legacy_tx_def)
  moreover have "(\<Sum>o'\<leftarrow>payment K inputs fee amt script. length (enc_out o')) \<le> 84"
    using AddressToPubkeyScript_length [OF assms(5)] crypto_lengths [OF assms(1)]
      length_var_bytes_bounds(2) [of script] length_var_bytes_bounds(2) [of "change_script K (change_key K inputs)"]
    by (simp add: payment_def outs_of_def enc_out_def change_script_def pubkey_hash_def)
  from length_sent [OF len short assms(4) this]
  have "raw \<noteq> [] \<and> length raw \<le> 200 * length inputs + 110" unfolding raw by blast
  ultimately show ?thesis
    using change sum unfolding read by (simp add: payment_hd payment_sum)
qed

text \<open>C2: No money is lost or made. If payment and fee together are covered by the inputs, the
  transaction that is sent pays the payment to the address, and its outputs and the fee together are
  exactly the inputs.\<close>

theorem value_conserved:
  assumes "crypto_ok K" and "list_all (\<lambda>i. key_of K i \<noteq> None) inputs" and "inputs \<noteq> []"
    and "list_all (\<lambda>i. length (in_tx_hash i) = 32) inputs"
    and "AddressToPubkeyScript address True = Inr script"
    and "unat amt + unat fee \<le> (\<Sum>i\<leftarrow>inputs. unat (in_value i))"
    and "(\<Sum>i\<leftarrow>inputs. unat (in_value i)) < 2 ^ 64"
    and "(\<Sum>i\<leftarrow>inputs. length (in_tx_hash i) + length (in_scriptPubkey i) + 200) + 200 < 2 ^ 64"
    and "BuildBTCTransaction K inputs fee amt address testnet = Inr raw"
  shows "case read_tx raw of None \<Rightarrow> False
    | Some (t, rest) \<Rightarrow> rest = []
        \<and> map prev_hash (tx_ins t) = map (\<lambda>i. rev (in_tx_hash i)) inputs
        \<and> tx_outs t ! 0 = \<lparr>amount = amt, out_script = script\<rparr>
        \<and> (\<Sum>out\<leftarrow>tx_outs t. unat (amount out)) + unat fee = (\<Sum>i\<leftarrow>inputs. unat (in_value i))"
  using sent_conserved [OF assms] by auto

text \<open>When payment and fee together exceed the inputs, and their sum fits 64 bits, nothing is built:
  the error says that there is not enough money.\<close>

theorem not_enough_money:
  assumes "crypto_ok K" and "list_all (\<lambda>i. key_of K i \<noteq> None) inputs"
    and "(\<Sum>i\<leftarrow>inputs. unat (in_value i)) < unat amt + unat fee" and "unat amt + unat fee < 2 ^ 64"
  shows "BuildBTCTransaction K inputs fee amt address testnet = Inl (StringException (bs ''Not enough money''))"
proof -
  have "unat (amt + fee) = unat amt + unat fee"
    using assms(4) by (intro unat_add_no_overflow) simp
  then have "\<not> amt + fee \<le> sum_list (map in_value inputs)"
    using assms(3,4) unat_sum_in_value [of inputs] by (simp add: word_le_nat_alt)
  moreover have "add_inputs K address (new_BTCTransaction testnet) inputs
      = Inr (new_BTCTransaction testnet\<lparr>m_Transfers := map (transfer_of K address) inputs\<rparr>)"
    using assms(2) by (subst add_inputs_eq [OF assms(1)]) (auto simp: list_all_iff new_BTCTransaction_def)
  ultimately show ?thesis
    using map_transfer_of(2) [OF assms(2), of address]
    by (simp add: BuildBTCTransaction_def BuildTransaction_def buildSignedDump_def Let_def foldl_outBalance
        CHECK_TYPED_def del: map_map)
qed

text \<open>C32: The test for enough money adds payment and fee in 64 bits. When the sum does not fit, the test
  passes as soon as the inputs cover what is left of it above \<open>2 ^ 64\<close>: the call never answers that there is not
  enough money. It fails only if the library does not sign; otherwise it returns a transaction that pays the payment
  in full, and whose outputs and fee exceed the inputs by \<open>2 ^ 64\<close>, so the outputs alone exceed them.\<close>

theorem fee_overflow:
  assumes "crypto_ok K" and "list_all (\<lambda>i. key_of K i \<noteq> None) inputs" and "inputs \<noteq> []"
    and "list_all (\<lambda>i. length (in_tx_hash i) = 32) inputs"
    and "AddressToPubkeyScript address True = Inr script"
    and "2 ^ 64 \<le> unat amt + unat fee" and "unat amt + unat fee \<le> (\<Sum>i\<leftarrow>inputs. unat (in_value i)) + 2 ^ 64"
    and "(\<Sum>i\<leftarrow>inputs. unat (in_value i)) < 2 ^ 64"
    and "(\<Sum>i\<leftarrow>inputs. length (in_tx_hash i) + length (in_scriptPubkey i) + 200) + 200 < 2 ^ 64"
  shows "case BuildBTCTransaction K inputs fee amt address testnet of
      Inl e \<Rightarrow> e = StringException (bs ''not sign'')
        \<and> unlock_scripts K (sighash_message inputs (payment K inputs fee amt script)) 0 inputs = None
    | Inr raw \<Rightarrow> (case read_tx raw of None \<Rightarrow> False
      | Some (t, rest) \<Rightarrow> rest = [] \<and> tx_outs t ! 0 = \<lparr>amount = amt, out_script = script\<rparr>
        \<and> (\<Sum>out\<leftarrow>tx_outs t. unat (amount out)) + unat fee = (\<Sum>i\<leftarrow>inputs. unat (in_value i)) + 2 ^ 64
        \<and> (\<Sum>i\<leftarrow>inputs. unat (in_value i)) < (\<Sum>out\<leftarrow>tx_outs t. unat (amount out)))"
proof -
  let ?sum = "sum_list (map in_value inputs)" and ?outs = "payment K inputs fee amt script"
  have sum: "unat ?sum = (\<Sum>i\<leftarrow>inputs. unat (in_value i))" by (rule unat_sum_in_value [OF assms(8)])
  have small: "unat amt < 2 ^ 64" "unat fee < 2 ^ 64" using unsigned_less [where ?'a = nat and w = amt] unsigned_less [where ?'a = nat and w = fee] by simp_all
  have "unat (amt + fee) = (unat amt + unat fee) mod 2 ^ 64" by (simp add: unat_word_ariths)
  also have "\<dots> = unat amt + unat fee - 2 ^ 64" using assms(6) small by (simp add: mod_if)
  finally have wrap: "unat (amt + fee) + 2 ^ 64 = unat amt + unat fee" using assms(6) by simp
  then have money: "amt + fee \<le> ?sum" using assms(7) by (simp add: word_le_nat_alt sum)
  then have "unat (?sum - (amt + fee)) + unat (amt + fee) = unat ?sum" by (simp add: unat_sub word_le_nat_alt)
  then have "unat (?sum - amt - fee) + unat (amt + fee) = unat ?sum" by (simp only: diff_diff_eq)
  then have outs: "(\<Sum>out\<leftarrow>?outs. unat (amount out)) + unat fee = (\<Sum>i\<leftarrow>inputs. unat (in_value i)) + 2 ^ 64"
    using wrap sum by (simp add: payment_sum)
  show ?thesis
  proof (cases "unlock_scripts K (sighash_message inputs ?outs) 0 inputs")
    case None
    then show ?thesis using BuildBTCTransaction_eq [OF assms(1-3,5) money assms(9), of testnet] by simp
  next
    case (Some scripts)
    then have built: "BuildBTCTransaction K inputs fee amt address testnet = Inr (enc_tx (legacy_tx inputs ?outs scripts))"
      using BuildBTCTransaction_eq [OF assms(1-3,5) money assms(9), of testnet] by simp
    from read_sent [OF assms(1-3,5) money assms(9,4) this] obtain scripts'
      where read: "read_tx (enc_tx (legacy_tx inputs ?outs scripts)) = Some (legacy_tx inputs ?outs scripts', [])" by metis
    have "tx_outs (legacy_tx inputs outs scripts) = outs" for outs scripts by (simp add: legacy_tx_def)
    then show ?thesis
      unfolding built sum.case read option.case prod.case using outs small(2) by (simp add: payment_hd)
  qed
qed

lemma example_sent:
  assumes "amt + fee \<le> 1000"
  shows "\<exists>raw. BuildBTCTransaction example_crypto [example_input] fee amt example_address False = Inr raw"
proof -
  have money: "amt + fee \<le> sum_list (map in_value [example_input])"
    unfolding example_input_simps by (rule assms)
  show ?thesis
    using BuildBTCTransaction_eq [OF crypto_ok_example example_input_simps(1,2) script_example money
        example_input_simps(3), of False] unlock_example
    by (auto split: option.splits)
qed

theorem value_conserved_witness:
  "case BuildBTCTransaction example_crypto [example_input] 10 60 example_address False of
     Inl e \<Rightarrow> False
   | Inr raw \<Rightarrow> (case read_tx raw of None \<Rightarrow> False
     | Some (t, rest) \<Rightarrow> amount (tx_outs t ! 0) = 60
        \<and> (\<Sum>out\<leftarrow>tx_outs t. unat (amount out)) + unat (10::u64) = 1000)"
proof -
  obtain raw where raw: "BuildBTCTransaction example_crypto [example_input] 10 60 example_address False = Inr raw"
    using example_sent [of 60 10] by auto
  have "unat (60::u64) + unat (10::u64) \<le> (\<Sum>i\<leftarrow>[example_input]. unat (in_value i))"
    "(\<Sum>i\<leftarrow>[example_input]. unat (in_value i)) < 2 ^ 64"
    unfolding example_input_simps by simp_all
  from value_conserved [OF crypto_ok_example example_input_simps(1,2,6) script_example this
      example_input_simps(3) raw]
  show ?thesis unfolding raw example_input_simps(5) by (cases "read_tx raw") auto
qed

theorem not_enough_money_witness:
  "BuildBTCTransaction example_crypto [example_input] 50 960 example_address False
   = Inl (StringException (bs ''Not enough money''))"
proof (rule not_enough_money [OF crypto_ok_example example_input_simps(1)])
  show "(\<Sum>i\<leftarrow>[example_input]. unat (in_value i)) < unat (960::u64) + unat (50::u64)"
    unfolding example_input_simps by simp
qed simp

theorem fee_overflow_witness:
  "case BuildBTCTransaction example_crypto [example_input] 1500 (- 1000) example_address False of
     Inl e \<Rightarrow> False
   | Inr raw \<Rightarrow> (case read_tx raw of None \<Rightarrow> False
     | Some (t, rest) \<Rightarrow> (\<Sum>out\<leftarrow>tx_outs t. unat (amount out)) + 1500 = 1000 + 2 ^ 64)"
proof -
  obtain raw where raw: "BuildBTCTransaction example_crypto [example_input] 1500 (- 1000) example_address False = Inr raw"
    using example_sent [of "- 1000" 1500] by auto
  have minus: "(- 1000 :: u64) = 18446744073709550616" by simp
  have "2 ^ 64 \<le> unat (- 1000 :: u64) + unat (1500 :: u64)"
    "unat (- 1000 :: u64) + unat (1500 :: u64) \<le> (\<Sum>i\<leftarrow>[example_input]. unat (in_value i)) + 2 ^ 64"
    "(\<Sum>i\<leftarrow>[example_input]. unat (in_value i)) < 2 ^ 64"
    unfolding example_input_simps minus by simp_all
  from fee_overflow [OF crypto_ok_example example_input_simps(1,2,6) script_example this
      example_input_simps(3), of False]
  show ?thesis unfolding raw example_input_simps(5) by (auto split: option.splits)
qed

end
