(* ===== verification/StrUtils.thy ===== *)
theory StrUtils
  imports Utils2
begin

text \<open>
  The string helpers of the wallet: \<open>src/src/btc_wallet/utils.h\<close> (\<open>isDecimal\<close>, \<open>isHex\<close>, \<open>toHex\<close>,
  \<open>fromHex\<close>) and \<open>src/src/btc_wallet/stringUtils.h\<close> (trimming and case), with the conversions of the
  standard library from decimal text to numbers (\<open>std::stoll\<close>, \<open>std::stoi\<close>, \<open>std::stoul\<close>).
\<close>

section \<open>\<open>utils.h\<close>\<close>

definition is_digit :: "byte \<Rightarrow> bool" where
  "is_digit c \<longleftrightarrow> 48 \<le> c \<and> c \<le> 57"

text \<open>The loops over the characters.\<close>

fun all_decimal :: "bytes \<Rightarrow> bool" where
  "all_decimal [] = True"
| "all_decimal (c # cs) = (if 48 \<le> c \<and> c \<le> 57 then all_decimal cs else False)"

definition isDecimal :: "bytes \<Rightarrow> bool" where
  "isDecimal str = (if 2 \<le> length str \<and> take 2 str = bs ''0x'' then False else all_decimal str)"

fun all_hex :: "bytes \<Rightarrow> bool" where
  "all_hex [] = True"
| "all_hex (c # cs) =
     (if (48 \<le> c \<and> c \<le> 57) \<or> (97 \<le> c \<and> c \<le> 102) \<or> (65 \<le> c \<and> c \<le> 70) then all_hex cs else False)"

definition isHex :: "bytes \<Rightarrow> bool" where
  "isHex str =
     (if length str < 2 then False
      else if take 2 str \<noteq> bs ''0x'' then False
      else all_hex (drop 2 str))"

definition to_digit :: "byte \<Rightarrow> byte" where
  "to_digit d = (if d \<le> 9 then d + 48 else d - 10 + 97)"

fun toHex :: "bytes \<Rightarrow> bytes" where
  "toHex [] = []"
| "toHex (c # cs) = to_digit (c div 16) # to_digit (c mod 16) # toHex cs"

text \<open>The value of a character, whatever it is: the arithmetic is that of \<open>unsigned char\<close>.\<close>

definition from_digit :: "byte \<Rightarrow> byte" where
  "from_digit c = (if 48 \<le> c \<and> c \<le> 57 then c - 48 else if 97 \<le> c \<and> c \<le> 102 then c - 97 + 10 else c - 65 + 10)"

fun fromHex_loop :: "bytes \<Rightarrow> bytes" where
  "fromHex_loop (a # b # s) = (from_digit a * 16 + from_digit b) # fromHex_loop s"
| "fromHex_loop [a] = []"
| "fromHex_loop [] = []"

text \<open>\<open>hex.compare(0, 2, "0x") == 0\<close> holds when the first two characters are these. The size is even
  when the loop starts, so it never reads past the last character.\<close>

definition fromHex :: "bytes \<Rightarrow> bytes" where
  "fromHex s =
     (let begin' = (if take 2 s = bs ''0x'' then 2 else 0)
      in if length s mod 2 \<noteq> 0 then [] else fromHex_loop (drop begin' s))"

section \<open>\<open>stringUtils.h\<close>\<close>

definition ltrim :: "bytes \<Rightarrow> bytes" where
  "ltrim s = dropWhile isspace s"

definition rtrim :: "bytes \<Rightarrow> bytes" where
  "rtrim s = rev (dropWhile isspace (rev s))"

definition trim :: "bytes \<Rightarrow> bytes" where
  "trim s = ltrim (rtrim s)"

definition beginWith :: "bytes \<Rightarrow> bytes \<Rightarrow> bool" where
  "beginWith first second \<longleftrightarrow> str_find second first = Some 0"

definition toLower :: "bytes \<Rightarrow> bytes" where
  "toLower str = map tolower str"

definition toUpper :: "bytes \<Rightarrow> bytes" where
  "toUpper str = map toupper str"

section \<open>Numbers from text\<close>

fun decimal_value :: "nat \<Rightarrow> bytes \<Rightarrow> nat" where
  "decimal_value acc [] = acc"
| "decimal_value acc (c # cs) = decimal_value (10 * acc + unat (c - 48)) cs"

text \<open>\<open>strtol\<close> in base 10: white space, a sign, the longest run of digits; \<open>None\<close> without a digit.\<close>

definition strto_decimal :: "bytes \<Rightarrow> int option" where
  "strto_decimal s =
     (let s = dropWhile isspace (c_str s);
          neg = (s \<noteq> [] \<and> hd s = 45);
          s = (if s \<noteq> [] \<and> (hd s = 45 \<or> hd s = 43) then tl s else s);
          ds = takeWhile is_digit s
      in if ds = [] then None
         else Some (if neg then - int (decimal_value 0 ds) else int (decimal_value 0 ds)))"

definition sto_range :: "int \<Rightarrow> int \<Rightarrow> bytes \<Rightarrow> int res" where
  "sto_range lo hi s =
     (case strto_decimal s of
        None \<Rightarrow> Inl (StdException InvalidArgument)
      | Some v \<Rightarrow> if v < lo \<or> hi < v then Inl (StdException OutOfRange) else Inr v)"

definition stoll :: "bytes \<Rightarrow> int res" where
  "stoll = sto_range (- (2 ^ 63)) (2 ^ 63 - 1)"

definition stoi :: "bytes \<Rightarrow> int res" where
  "stoi = sto_range (- (2 ^ 31)) (2 ^ 31 - 1)"

text \<open>\<open>strtoul\<close> negates in the unsigned type: \<open>stoul ("-1")\<close> is \<open>2 ^ 64 - 1\<close>.\<close>

definition stoul :: "bytes \<Rightarrow> u64 res" where
  "stoul s =
     (case strto_decimal s of
        None \<Rightarrow> Inl (StdException InvalidArgument)
      | Some v \<Rightarrow> if 2 ^ 64 \<le> \<bar>v\<bar> then Inl (StdException OutOfRange) else Inr (of_int v))"

section \<open>Facts\<close>

lemma all_decimal_iff: "all_decimal s \<longleftrightarrow> (\<forall>c \<in> set s. is_digit c)"
  by (induction s) (auto simp: is_digit_def)

lemma all_hex_iff: "all_hex s \<longleftrightarrow> (\<forall>c \<in> set s. is_hex c)"
  by (induction s) (auto simp: is_hex_def)

lemma isDecimal_iff: "isDecimal s \<longleftrightarrow> (\<forall>c \<in> set s. is_digit c)"
proof -
  have "\<not> is_digit (of_char CHR ''x'')" by (simp add: is_digit_def)
  then show ?thesis
    by (cases s; cases "tl s") (auto simp: isDecimal_def all_decimal_iff bs_def)
qed

lemma not_isDecimal_0x: "\<not> isDecimal (bs ''0x'' @ s)"
  by (simp add: isDecimal_def)

lemma nibble_cases: "unat d < 16 \<Longrightarrow> d \<in> {0, 1, 2, 3, 4, 5, 6, 7, 8, 9, 10, 11, 12, 13, 14, 15}" for d :: byte
proof -
  assume "unat d < 16"
  from less_16_cases [OF this] have "of_nat (unat d) \<in> (of_nat ` {0, 1, 2, 3, 4, 5, 6, 7, 8, 9, 10, 11, 12, 13, 14, 15} :: byte set)"
    by (rule imageI)
  then show ?thesis by simp
qed

lemma from_to_digit: "unat d < 16 \<Longrightarrow> from_digit (to_digit d) = d"
proof -
  assume "unat d < 16"
  then have "d \<in> {0, 1, 2, 3, 4, 5, 6, 7, 8, 9, 10, 11, 12, 13, 14, 15}" by (rule nibble_cases)
  then show ?thesis by (auto simp: from_digit_def to_digit_def)
qed

lemma length_toHex [simp]: "length (toHex s) = 2 * length s"
  by (induction s) simp_all

lemma fromHex_loop_toHex: "fromHex_loop (toHex s) = s"
proof (induction s)
  case (Cons c s)
  have "unat (c div 16) < 16" "unat (c mod 16) < 16"
    using byte_less_256 [of c] by (simp_all add: unat_div unat_mod del: byte_less_256)
  moreover have "c div 16 * 16 + c mod 16 = c" by (rule div_mult_mod_eq)
  ultimately show ?case using Cons by (simp add: from_to_digit del: div_mult_mod_eq)
qed simp

lemma to_digit_not_x: "unat d < 16 \<Longrightarrow> to_digit d \<noteq> of_char CHR ''x''"
proof -
  assume "unat d < 16"
  then have "d \<in> {0, 1, 2, 3, 4, 5, 6, 7, 8, 9, 10, 11, 12, 13, 14, 15}" by (rule nibble_cases)
  then show ?thesis by (auto simp: to_digit_def)
qed

lemma fromHex_toHex: "fromHex (toHex s) = s"
proof -
  have "take 2 (toHex s) \<noteq> bs ''0x''"
  proof (cases s)
    case (Cons c s')
    have "unat (c mod 16) < 16" by (simp add: unat_mod)
    from to_digit_not_x [OF this] show ?thesis by (simp add: Cons bs_def)
  qed (simp add: bs_def)
  then show ?thesis by (simp add: fromHex_def fromHex_loop_toHex)
qed

lemma trim_spec:
  "\<exists>l r. s = l @ trim s @ r \<and> (\<forall>c \<in> set l \<union> set r. isspace c)
     \<and> (trim s \<noteq> [] \<longrightarrow> \<not> isspace (hd (trim s)) \<and> \<not> isspace (last (trim s)))"
proof -
  define r where "r = rev (takeWhile isspace (rev s))"
  define l where "l = takeWhile isspace (rtrim s)"
  have s: "s = rtrim s @ r" unfolding rtrim_def r_def
    by (metis rev_append rev_rev_ident takeWhile_dropWhile_id)
  have t: "rtrim s = l @ trim s" by (simp add: trim_def ltrim_def l_def)
  have sp: "\<forall>c \<in> set l \<union> set r. isspace c"
    by (auto simp: l_def r_def dest: set_takeWhileD)
  have hd: "\<not> isspace (hd (trim s))" if "trim s \<noteq> []"
    using that unfolding trim_def ltrim_def by (rule hd_dropWhile)
  have "\<not> isspace (last (trim s))" if "trim s \<noteq> []"
  proof -
    have "rtrim s \<noteq> []" using that t by auto
    then have "dropWhile isspace (rev s) \<noteq> []" unfolding rtrim_def by (simp only: rev_is_Nil_conv not_False_eq_True)
    from hd_dropWhile [OF this] have "\<not> isspace (last (rtrim s))"
      by (simp add: rtrim_def last_rev)
    with that show ?thesis unfolding t by simp
  qed
  with hd sp s t show ?thesis by (metis append.assoc)
qed

text \<open>\<open>fromHex\<close> inverts \<open>toHex\<close> on every byte string, with or without the prefix \<open>0x\<close>.\<close>

theorem fromHex_inverts_toHex:
  "fromHex (toHex s) = s \<and> fromHex (bs ''0x'' @ toHex s) = s"
proof -
  have "take 2 (bs ''0x'' @ toHex s) = bs ''0x''" "drop 2 (bs ''0x'' @ toHex s) = toHex s" by simp_all
  then show ?thesis by (simp add: fromHex_toHex) (simp add: fromHex_def fromHex_loop_toHex)
qed

end
