(* ===== verification/FileSystem.thy ===== *)
theory FileSystem
  imports StrUtils
begin

text \<open>
  \<open>src/src/btc_wallet/FileSystem.h\<close> and \<open>FileSystem.cpp\<close>: the file operations of the wallet, over a
  file system that is a map from paths to contents, the set of directories, and what the operating
  system allows. A path is its text, as \<open>std::experimental::filesystem::path\<close> keeps it; the code never
  normalises one, so two texts for one place (by a dot, a doubled separator or a link) count as two
  paths here. Listing a directory and \<open>getBasename\<close> are used by nothing and left out.
\<close>

section \<open>Paths\<close>

definition slash :: byte where "slash = 47"

text \<open>\<open>operator/\<close>: a separator is put in unless one is there or a side is empty.\<close>

definition path_append :: "bytes \<Rightarrow> bytes \<Rightarrow> bytes" where
  "path_append p q =
     (if p \<noteq> [] \<and> last p \<noteq> slash \<and> q \<noteq> [] \<and> hd q \<noteq> slash then p @ [slash] @ q else p @ q)"

definition parent_path :: "bytes \<Rightarrow> bytes" where
  "parent_path p =
     (let r = dropWhile (\<lambda>c. c \<noteq> slash) (rev p); r' = dropWhile (\<lambda>c. c = slash) r
      in if r = [] then [] else if r' = [] then [slash] else rev r')"

lemma length_dropWhile_less: "xs \<noteq> [] \<Longrightarrow> P (hd xs) \<Longrightarrow> length (dropWhile P xs) < length xs"
  using length_dropWhile_le [of P "tl xs"] by (cases xs) simp_all

lemma length_parent_path: "length (parent_path p) \<le> length p" "parent_path p = p \<or> length (parent_path p) < length p"
proof -
  define r where "r = dropWhile (\<lambda>c. c \<noteq> slash) (rev p)"
  have r: "length r \<le> length p" using length_dropWhile_le [of "\<lambda>c. c \<noteq> slash" "rev p"] by (simp add: r_def)
  have shorter: "length (dropWhile (\<lambda>c. c = slash) r) < length r" if "r \<noteq> []"
  proof (rule length_dropWhile_less [OF that])
    from that have "\<not> hd r \<noteq> slash" unfolding r_def by (rule hd_dropWhile)
    then show "hd r = slash" by simp
  qed
  let ?r' = "dropWhile (\<lambda>c. c = slash) r"
  have def: "parent_path p = (if r = [] then [] else if ?r' = [] then [slash] else rev ?r')"
    unfolding parent_path_def r_def Let_def ..
  consider "r = []" | "r \<noteq> []" "?r' = []" | "r \<noteq> []" "?r' \<noteq> []" by blast
  then show *: "parent_path p = p \<or> length (parent_path p) < length p"
  proof cases
    case 1
    then show ?thesis unfolding def by (cases p) simp_all
  next
    case 2
    then have pp: "parent_path p = [slash]" unfolding def by simp
    show ?thesis
    proof (cases "length p \<le> 1")
      case True
      with r 2(1) obtain c where c: "p = [c]" by (cases p) auto
      from 2(1) have "c = slash" unfolding r_def c by (simp split: if_splits)
      then show ?thesis using pp c by simp
    qed (simp add: pp)
  next
    case 3
    then have "parent_path p = rev ?r'" unfolding def by (simp only: if_False)
    with shorter [OF 3(1)] have "length (parent_path p) < length r" by (simp only: length_rev)
    with r show ?thesis by simp
  qed
  then show "length (parent_path p) \<le> length p" by auto
qed

text \<open>A path and the directories above it.\<close>

function ancestors :: "bytes \<Rightarrow> bytes list" where
  "ancestors p = (if parent_path p = p then [p] else p # ancestors (parent_path p))"
  by auto

termination by (relation "measure length") (use length_parent_path(2) in auto)

declare ancestors.simps [simp del]

lemma length_ancestors: "q \<in> set (ancestors p) \<Longrightarrow> length q \<le> length p"
proof (induction p rule: ancestors.induct)
  case (1 p)
  show ?case
  proof (cases "parent_path p = p")
    case True
    then show ?thesis using "1.prems" by (simp add: ancestors.simps [of p])
  next
    case False
    then have "q = p \<or> q \<in> set (ancestors (parent_path p))"
      using "1.prems" by (simp add: ancestors.simps [of p])
    then show ?thesis using "1.IH" [OF False] length_parent_path(1) [of p] by auto
  qed
qed

section \<open>The file system\<close>

record filesys =
  files :: "bytes \<rightharpoonup> bytes"
  dirs :: "bytes set"
  status_fails :: "bytes \<Rightarrow> bool"  \<comment> \<open>whether a path cannot be examined (a folder above it is closed)\<close>
  may_create :: "bytes \<Rightarrow> bool"  \<comment> \<open>whether a directory can be made at a path\<close>
  may_write :: "bytes \<Rightarrow> bool"   \<comment> \<open>whether a file can be opened for writing at a path\<close>

definition isExist :: "filesys \<Rightarrow> bytes \<Rightarrow> bool res" where
  "isExist fs fileName =
     (if status_fails fs fileName then Inl (StdException FilesystemError)
      else Inr (files fs fileName \<noteq> None \<or> fileName \<in> dirs fs))"

text \<open>\<open>create_directories\<close> of the standard library, which \<open>createDirectories\<close> and \<open>saveToFile\<close> call: it goes
  up from the folder to the first path that exists, passing over names that are a dot or two, and then
  makes what is missing from the top; those made before one that fails stay. An empty path is an error.\<close>

definition is_dot :: "bytes \<Rightarrow> bool" where
  "is_dot d \<longleftrightarrow> rev (takeWhile (\<lambda>c. c \<noteq> slash) (rev d)) \<in> {[], bs ''.'', bs ''..''}"

fun missing_dirs :: "filesys \<Rightarrow> bytes list \<Rightarrow> bytes list res" where
  "missing_dirs fs [] = Inr []"
| "missing_dirs fs (d # ds) =
     (if d = [] then Inr []
      else rbind (isExist fs d) (\<lambda>found.
        if found then Inr []
        else rbind (missing_dirs fs ds) (\<lambda>missing. Inr (if is_dot d then missing else missing @ [d]))))"

fun make_dirs :: "filesys \<Rightarrow> bytes list \<Rightarrow> unit res \<times> filesys" where
  "make_dirs fs [] = (Inr (), fs)"
| "make_dirs fs (d # ds) =
     (if may_create fs d then make_dirs (fs\<lparr>dirs := insert d (dirs fs)\<rparr>) ds
      else (Inl (StdException FilesystemError), fs))"

definition createDirectories :: "filesys \<Rightarrow> bytes \<Rightarrow> unit res \<times> filesys" where
  "createDirectories fs folder =
     (if folder = [] then (Inl (StdException FilesystemError), fs)
      else (case missing_dirs fs (ancestors folder) of
              Inl e \<Rightarrow> (Inl e, fs)
            | Inr missing \<Rightarrow> make_dirs fs missing))"

definition getFullPath :: "bytes \<Rightarrow> bytes \<Rightarrow> bytes" where
  "getFullPath fileName folder = path_append folder fileName"

definition getFullPath2 :: "bytes \<Rightarrow> bytes \<Rightarrow> bytes" where
  "getFullPath2 folder fileName = getFullPath fileName folder"

fun makePath :: "bytes \<Rightarrow> bytes list \<Rightarrow> bytes" where
  "makePath arg [] = arg"
| "makePath arg (a # args) = getFullPath2 arg (makePath a args)"

text \<open>The result, and the file system as the call leaves it, whether it returns or throws. A file that
  cannot be opened is written without an error.\<close>

definition saveToFile :: "filesys \<Rightarrow> bytes \<Rightarrow> bytes \<Rightarrow> unit res \<times> filesys" where
  "saveToFile fs fullPath data =
     (case createDirectories fs (parent_path fullPath) of (r, fs) \<Rightarrow>
        (r, if isl r then fs
            else if may_write fs fullPath then fs\<lparr>files := (files fs)(fullPath \<mapsto> data)\<rparr> else fs))"

definition saveToFile_in :: "filesys \<Rightarrow> bytes \<Rightarrow> bytes \<Rightarrow> bytes \<Rightarrow> unit res \<times> filesys" where
  "saveToFile_in fs folder fileName data = saveToFile fs (getFullPath fileName folder) data"

text \<open>A file that cannot be opened reads as empty.\<close>

definition loadFile :: "filesys \<Rightarrow> bytes \<Rightarrow> bytes" where
  "loadFile fs fullPath = (case files fs fullPath of None \<Rightarrow> [] | Some content \<Rightarrow> content)"

definition loadFile_in :: "filesys \<Rightarrow> bytes \<Rightarrow> bytes \<Rightarrow> bytes" where
  "loadFile_in fs folder fileName = loadFile fs (getFullPath fileName folder)"

text \<open>\<open>removeFile\<close>; whether the system call succeeds (it does not for a directory with entries, or without
  permission) is an argument.\<close>

definition removeFile :: "bool \<Rightarrow> filesys \<Rightarrow> bytes \<Rightarrow> bytes \<Rightarrow> filesys res" where
  "removeFile removed fs folder fileName =
     (let fullPath = getFullPath fileName folder
      in rbind (isExist fs fullPath) (\<lambda>found.
         if found
         then (if removed
               then Inr (fs\<lparr>files := (files fs)(fullPath := None), dirs := dirs fs - {fullPath}\<rparr>)
               else Inl (StdException FilesystemError))
         else Inr fs))"

text \<open>\<open>ReadFile\<close> of \<open>src/src/ethtx/utils2.cpp\<close>: a file that is not empty is returned with a NUL at its end.\<close>

definition ReadFile :: "filesys \<Rightarrow> bytes \<Rightarrow> bytes res" where
  "ReadFile fs privKeyPath =
     (case files fs (c_str privKeyPath) of
        None \<Rightarrow> Inl (StringException (bs ''file '' @ privKeyPath @ bs '' not found''))
      | Some content \<Rightarrow> Inr (if content \<noteq> [] then content @ [0] else []))"

section \<open>Facts\<close>

text \<open>Whatever happens, only directories are made, and only above the file.\<close>

lemma missing_dirs_subset: "missing_dirs fs ds = Inr m \<Longrightarrow> set m \<subseteq> set ds"
  by (induction ds arbitrary: m) (fastforce simp: rbind_eq_Inr split: if_splits)+

lemma make_dirs_frame:
  assumes "make_dirs fs ds = (r, fs')"
  shows "files fs' = files fs" and "status_fails fs' = status_fails fs" and "may_write fs' = may_write fs"
    and "dirs fs \<subseteq> dirs fs'" and "dirs fs' \<subseteq> dirs fs \<union> set ds"
  using assms by (induction fs ds rule: make_dirs.induct) (auto split: if_splits)

lemma createDirectories_frame:
  assumes "createDirectories fs folder = (r, fs')"
  shows "files fs' = files fs" and "status_fails fs' = status_fails fs" and "may_write fs' = may_write fs"
    and "dirs fs \<subseteq> dirs fs'" and "dirs fs' \<subseteq> dirs fs \<union> set (ancestors folder)"
  using assms make_dirs_frame [of fs _ r fs'] missing_dirs_subset [of fs "ancestors folder"]
  by (fastforce simp: createDirectories_def split: if_splits sum.splits)+

lemma saveToFile_frame:
  assumes "saveToFile fs p data = (r, fs')"
  shows "q \<noteq> p \<Longrightarrow> loadFile fs' q = loadFile fs q"
    and "r = Inr () \<Longrightarrow> may_write fs p \<Longrightarrow> loadFile fs' p = data"
    and "isExist fs q = Inr False \<Longrightarrow> q \<noteq> p \<Longrightarrow> q \<notin> set (ancestors (parent_path p)) \<Longrightarrow> isExist fs' q = Inr False"
    and "r = Inl e \<Longrightarrow> files fs' = files fs" and "dirs fs \<subseteq> dirs fs'"
proof -
  obtain fs1 where fs1: "createDirectories fs (parent_path p) = (r, fs1)"
    "fs' = (if isl r then fs1 else if may_write fs1 p then fs1\<lparr>files := (files fs1)(p \<mapsto> data)\<rparr> else fs1)"
    using assms by (auto simp: saveToFile_def split: prod.splits)
  note frame = createDirectories_frame [OF fs1(1)]
  show "q \<noteq> p \<Longrightarrow> loadFile fs' q = loadFile fs q" "r = Inr () \<Longrightarrow> may_write fs p \<Longrightarrow> loadFile fs' p = data"
    "r = Inl e \<Longrightarrow> files fs' = files fs" "dirs fs \<subseteq> dirs fs'"
    using frame by (simp_all add: fs1(2) loadFile_def)
  show "isExist fs q = Inr False \<Longrightarrow> q \<noteq> p \<Longrightarrow> q \<notin> set (ancestors (parent_path p)) \<Longrightarrow> isExist fs' q = Inr False"
    using frame(1,2,5) by (auto simp: fs1(2) isExist_def split: if_splits)
qed

lemma removeFile_frame:
  assumes "removeFile removed fs folder name = Inr fs'"
  shows "isExist fs' (getFullPath name folder) = Inr False"
    and "q \<noteq> getFullPath name folder \<Longrightarrow> loadFile fs' q = loadFile fs q \<and> isExist fs' q = isExist fs q"
  using assms by (auto simp: removeFile_def loadFile_def isExist_def Let_def split: if_splits)

lemma length_path_append: "length (path_append p q) \<le> length p + length q + 1"
    "p @ q = [] \<or> length p + length q \<le> length (path_append p q)"
  by (simp_all add: path_append_def)

text \<open>A file in a folder that is named has a directory.\<close>

lemma parent_path_nonempty: "p \<noteq> [] \<Longrightarrow> q \<noteq> [] \<Longrightarrow> parent_path (path_append p q) \<noteq> []"
proof -
  assume "p \<noteq> []" "q \<noteq> []"
  then have "slash \<in> set (path_append p q)" by (auto simp: path_append_def dest: last_in_set hd_in_set)
  then show ?thesis by (auto simp: parent_path_def Let_def dropWhile_eq_Nil_conv)
qed

text \<open>The directory of a file named \<open>q\<close> in the folder \<open>p\<close> is not longer than \<open>p\<close>.\<close>

lemma parent_path_append:
  assumes "slash \<notin> set q" and "q \<noteq> []"
  shows "length (parent_path (path_append p q)) \<le> length p"
proof -
  have drop: "dropWhile (\<lambda>c. c \<noteq> slash) (rev q @ t) = dropWhile (\<lambda>c. c \<noteq> slash) t" for t
    using assms(1) by (subst dropWhile_append2) auto
  have "hd q \<noteq> slash" using assms by (cases q) auto
  then consider "path_append p q = q" "p = []" | t where "path_append p q = t @ [slash] @ q" "length t \<le> length p"
      "t = [] \<longrightarrow> p \<noteq> []"
    | "False"
    using assms(2) unfolding path_append_def
    by (metis append.assoc append_Nil append_butlast_last_id butlast_append length_butlast diff_le_self order_refl)
  then show ?thesis
  proof cases
    case 1
    then show ?thesis using drop [of "[]"] by (simp add: parent_path_def)
  next
    case (2 t)
    have *: "length (dropWhile (\<lambda>c. c = slash) (rev t)) \<le> length t"
      using length_dropWhile_le [of "\<lambda>c. c = slash" "rev t"] by simp
    have "1 \<le> length p" if "dropWhile (\<lambda>c. c = slash) (rev t) = []"
      using 2 by (cases "t = []"; cases p; cases t) auto
    with * 2 show ?thesis unfolding parent_path_def 2(1)
      by (auto simp: drop Let_def)
  qed simp
qed

end
