(* ===== verification/BtcWallet.thy ===== *)
theory BtcWallet
  imports BtctxSpec FileSystem "HOL-Library.Multiset"
begin

text \<open>
  \<open>src/src/btc_wallet/BtcWallet.h\<close> and \<open>BtcWallet.cpp\<close>: a wallet is a key file named after its
  address; a transaction is built by choosing unspent outputs and repeating until the fee fits the
  size of the result.

  \<open>int64_t\<close> values are integers, with signed overflow (undefined in C++) an outcome of its own and
  conversions from \<open>uint64_t\<close> written as \<open>sint\<close>. What the environment decides is a record: the order
  \<open>std::sort\<close> gives equal elements, and what happens when \<open>greedyAlg\<close> reads the element before the first one of
  a vector. That read is undefined behaviour. \<open>before_begin\<close> is \<open>None\<close> for the standard's view, where the run
  ends there as \<open>Undefined\<close>, and \<open>Some v\<close> for a machine on which the read yields \<open>v\<close> and the code goes on, as
  it does in practice. Nothing is assumed of it: a lemma holds for both.
\<close>

section \<open>Data\<close>

record BtcInput =
  tx_hash :: bytes
  tx_index :: u32
  scriptPubkey :: bytes
  utxo_value :: u64

record wallet =
  wif :: bytes
  address :: bytes

record wallet_env =
  sort_inputs :: "BtcInput list \<Rightarrow> BtcInput list"
  before_begin :: "u64 option"  \<comment> \<open>the read before the first element\<close>

definition wallet_env_ok :: "wallet_env \<Rightarrow> bool" where
  "wallet_env_ok E \<longleftrightarrow> (\<forall>xs. mset (sort_inputs E xs) = mset xs \<and> sorted (map utxo_value (sort_inputs E xs)))"

definition i64 :: "int \<Rightarrow> int res" where
  "i64 i = (if - (2 ^ 63) \<le> i \<and> i < 2 ^ 63 then Inr i else Inl (Undefined (bs ''signed overflow'')))"

section \<open>Key files\<close>

definition WIF_AND_ADDRESS_DELIMITER :: bytes where "WIF_AND_ADDRESS_DELIMITER = bs '' ''"

definition convertAddressToFileName :: "bytes \<Rightarrow> bytes" where
  "convertAddressToFileName addr = toLower (take (size_sub (length addr) 3) addr @ bs ''---'')"

definition wallet_getFullPath :: "filesys \<Rightarrow> bytes \<Rightarrow> bytes \<Rightarrow> bytes res" where
  "wallet_getFullPath fs folder addr =
     (let pathToFile = makePath folder [toLower addr]
      in rbind (isExist fs pathToFile) (\<lambda>found.
         Inr (if \<not> found then makePath folder [convertAddressToFileName addr] else pathToFile)))"

definition getWifAndAddress :: "crypto \<Rightarrow> bytes \<Rightarrow> bool \<Rightarrow> (bytes \<times> bytes) res" where
  "getWifAndAddress K data isNoEncrypted =
     (case str_find WIF_AND_ADDRESS_DELIMITER data of
        None \<Rightarrow>
          if isNoEncrypted then rbind (Wif.getAddress K data False) (\<lambda>(a, tmp). Inr (data, a))
          else Inr (data, [])
      | Some foundDelimiter \<Rightarrow>
          rbind (substr data 0 foundDelimiter) (\<lambda>w.
          rbind (substr_from data (foundDelimiter + 1)) (\<lambda>a. Inr (w, a))))"

definition decryptWif2 :: "crypto \<Rightarrow> scrypt_env \<Rightarrow> bytes \<Rightarrow> bytes \<Rightarrow> bytes res" where
  "decryptWif2 K env wifEncrypted password =
     (if password \<noteq> [] then
        rbind (substr wifEncrypted 0 2) (\<lambda>p.
        CHECK (p = bs ''6P'') (bs ''Not encrypted wif'') (decryptWif K env wifEncrypted password))
      else
        rbind (substr wifEncrypted 0 2) (\<lambda>p.
        CHECK_TYPED (p \<noteq> bs ''6P'') PRIVATE_KEY_ERROR (bs ''Incorrect encrypted wif '' @ wifEncrypted)
          (Inr wifEncrypted)))"

text \<open>The three constructors: from the content of a key file, from the file, from a key.\<close>

definition BtcWallet_data :: "crypto \<Rightarrow> scrypt_env \<Rightarrow> bytes \<Rightarrow> bytes \<Rightarrow> wallet res" where
  "BtcWallet_data K env fileData password =
     rbind (getWifAndAddress K fileData False) (\<lambda>(wifEncrypted, addr).
     rbind (decryptWif2 K env wifEncrypted password) (\<lambda>w.
     if addr = [] then rbind (Wif.getAddress K w False) (\<lambda>(a, tmp). Inr \<lparr>wif = w, address = a\<rparr>)
     else rbind (Wif.getAddress K w False) (\<lambda>(calcAddress, tmp).
       CHECK_TYPED (calcAddress = addr) PRIVATE_KEY_ERROR (bs ''Incorrect encrypted wif: address calc incorrect'')
         (Inr \<lparr>wif = w, address = addr\<rparr>))))"

definition BtcWallet_file :: "crypto \<Rightarrow> scrypt_env \<Rightarrow> filesys \<Rightarrow> bytes \<Rightarrow> bytes \<Rightarrow> bytes \<Rightarrow> wallet res" where
  "BtcWallet_file K env fs folder addr password =
     rbind (wallet_getFullPath fs folder addr) (\<lambda>path. BtcWallet_data K env (loadFile fs path) password)"

definition BtcWallet_wif :: "bytes \<Rightarrow> wallet res" where
  "BtcWallet_wif decryptedWif =
     rbind (substr decryptedWif 0 2) (\<lambda>p.
     CHECK_TYPED (p \<noteq> bs ''6P'') PRIVATE_KEY_ERROR (bs ''Incorrect encrypted wif '' @ decryptedWif)
       (Inr \<lparr>wif = decryptedWif, address = []\<rparr>))"

text \<open>The key comes from the generator (\<open>valid\<close>, \<open>printed\<close>, as for \<open>CreateWIF\<close>). The result is the address
  and the key as it is stored, or the exception, and in both cases the file system as it is then: all is
  checked before the file is written, but \<open>saveToFile\<close> can throw with some directories made.\<close>

definition genPrivateKey ::
    "crypto \<Rightarrow> scrypt_env \<Rightarrow> scrypt_env \<Rightarrow> filesys \<Rightarrow> bool \<Rightarrow> bytes \<Rightarrow> bytes \<Rightarrow> bytes
     \<Rightarrow> (bytes \<times> bytes) res \<times> filesys" where
  "genPrivateKey K env env2 fs valid printed folder password =
     (let isCompressed = True; isTestnet = False
      in case
        rbind (CreateWIF K valid printed isTestnet isCompressed) (\<lambda>w.
        rbind (Wif.getAddress K w isTestnet) (\<lambda>(addressBase58, tmp).
        CHECK (isCompressed = tmp) (bs ''ups'')
        (rbind (if password \<noteq> []
                then rbind (encryptWif K env w password) (\<lambda>w.
                     CHECK_TYPED (take 2 w = bs ''6P'') PRIVATE_KEY_ERROR (bs ''Incorrect encrypted wif '' @ w) (Inr w))
                else CHECK_TYPED (take 2 w \<noteq> bs ''6P'') PRIVATE_KEY_ERROR (bs ''Incorrect encrypted wif '' @ w) (Inr w))
           (\<lambda>w.
         let fileName = makePath folder [convertAddressToFileName addressBase58];
             fileData = w @ WIF_AND_ADDRESS_DELIMITER @ addressBase58
         in rbind (BtcWallet_data K env2 fileData password) (\<lambda>checkWallet.
            CHECK_TYPED (address checkWallet \<noteq> []) PRIVATE_KEY_ERROR (bs ''dont check private key'')
            (Inr (fileName, fileData, addressBase58, w)))))))
      of
        Inl e \<Rightarrow> (Inl e, fs)
      | Inr (fileName, fileData, addressBase58, w) \<Rightarrow>
          (case saveToFile fs fileName fileData of
             (Inl e, fs) \<Rightarrow> (Inl e, fs)
           | (Inr _, fs) \<Rightarrow> (Inr (addressBase58, w), fs)))"

section \<open>Choosing outputs\<close>

definition upper_bound :: "BtcInput list \<Rightarrow> u64 \<Rightarrow> nat" where
  "upper_bound xs v = length (takeWhile (\<lambda>x. utxo_value x \<le> v) xs)"

text \<open>One round of the loop: the index of the element that is taken. \<open>foundIter - 1\<close> is read even
  when \<open>foundIter\<close> is the beginning; taking that element is undefined on every machine.\<close>

definition greedy_pick :: "u64 option \<Rightarrow> int \<Rightarrow> BtcInput list \<Rightarrow> nat res" where
  "greedy_pick before rest xs =
     (let found = upper_bound xs (of_int rest)
      in rbind (if found \<noteq> 0 then Inr (utxo_value (xs ! (found - 1)))
                else (case before of None \<Rightarrow> Inl (Undefined (bs ''element before begin'')) | Some v \<Rightarrow> Inr v))
           (\<lambda>prev.
         if sint prev = rest
         then (if found = 0 then Inl (Undefined (bs ''element before begin'')) else Inr (found - 1))
         else if found = length xs then Inr (found - 1) else Inr found))"

lemma greedy_pick_less: "xs \<noteq> [] \<Longrightarrow> greedy_pick before rest xs = Inr i \<Longrightarrow> i < length xs"
proof -
  assume xs: "xs \<noteq> []" and pick: "greedy_pick before rest xs = Inr i"
  have "upper_bound xs (of_int rest) \<le> length xs" by (simp add: upper_bound_def length_takeWhile_le)
  moreover have "0 < length xs" using xs by simp
  ultimately show ?thesis using pick unfolding greedy_pick_def Let_def
    by (auto simp: rbind_eq_Inr split: if_splits)
qed

function greedy_loop :: "u64 option \<Rightarrow> int \<Rightarrow> int \<Rightarrow> BtcInput list \<Rightarrow> BtcInput list \<Rightarrow> BtcInput list res" where
  "greedy_loop before allValue currValue xs result =
     (if currValue < allValue \<and> xs \<noteq> [] then
        (case i64 (allValue - currValue) of
           Inl e \<Rightarrow> Inl e
         | Inr rest \<Rightarrow> (case greedy_pick before rest xs of
             Inl e \<Rightarrow> Inl e
           | Inr i \<Rightarrow>
               greedy_loop before allValue (sint (of_int currValue + utxo_value (xs ! i)))
                 (take i xs @ drop (Suc i) xs) (result @ [xs ! i])))
      else Inr result)"
  by pat_completeness auto

termination
  by (relation "measure (\<lambda>(before, allValue, currValue, xs, result). length xs)")
    (use greedy_pick_less in fastforce)+

declare greedy_loop.simps [simp del]

definition greedyAlg :: "wallet_env \<Rightarrow> BtcInput list \<Rightarrow> int \<Rightarrow> BtcInput list res" where
  "greedyAlg E elements allValue = greedy_loop (before_begin E) allValue 0 (sort_inputs E elements) []"

definition reduceInputs :: "BtcInput list \<Rightarrow> bytes set \<Rightarrow> BtcInput list" where
  "reduceInputs inputs usedTxs = filter (\<lambda>input. tx_hash input \<notin> usedTxs) inputs"

section \<open>Building the transaction\<close>

fun to_inputs :: "wallet \<Rightarrow> BtcInput list \<Rightarrow> Input list res" where
  "to_inputs w [] = Inr []"
| "to_inputs w (input # inputs) =
     rbind (HexStringToDump (scriptPubkey input)) (\<lambda>script.
     rbind (HexStringToDump (tx_hash input)) (\<lambda>h.
     rbind (to_inputs w inputs) (\<lambda>inputs2.
     Inr (\<lparr>in_wif = wif w, in_tx_hash = h, in_tx_index = tx_index input, in_scriptPubkey = script,
           in_value = utxo_value input\<rparr> # inputs2))))"

definition genTransaction ::
    "crypto \<Rightarrow> wallet \<Rightarrow> BtcInput list \<Rightarrow> u64 \<Rightarrow> u64 \<Rightarrow> bytes \<Rightarrow> bool \<Rightarrow> bytes res" where
  "genTransaction K w inputs transferAmount fee recvAddress testnet =
     rbind (checkAddressBase56 K recvAddress) (\<lambda>_.
     rbind (to_inputs w inputs) (\<lambda>inputs2.
     rbind (BuildBTCTransaction K inputs2 fee transferAmount recvAddress testnet) (\<lambda>tx.
     Inr (DumpToHexString tx))))"

definition calcSizeTransaction :: "bytes \<Rightarrow> nat" where
  "calcSizeTransaction transaction = length transaction div 2"

definition balance_message :: "bytes \<Rightarrow> int \<Rightarrow> int \<Rightarrow> int \<Rightarrow> bytes" where
  "balance_message text balance value fees = text @ to_string balance @ bs ''. Value to send ''
     @ to_string value @ bs ''. Fees '' @ to_string fees"

definition encode ::
    "crypto \<Rightarrow> wallet_env \<Rightarrow> wallet \<Rightarrow> bool \<Rightarrow> int \<Rightarrow> int \<Rightarrow> bytes \<Rightarrow> BtcInput list \<Rightarrow> (bytes \<times> bytes set) res" where
  "encode K E w allMoney value fees toAddress utxos =
     rbind (if \<not> allMoney then rbind (i64 (value + fees)) (\<lambda>allValue. greedyAlg E utxos allValue)
            else Inr utxos) (\<lambda>newUtxos.
     let allUtxoValue = foldl (\<lambda>v utxo. sint (of_int v + utxo_value utxo)) 0 newUtxos
     in rbind (i64 (value + fees)) (\<lambda>needed.
        CHECK_TYPED (needed \<le> allUtxoValue) INCORRECT_USER_DATA
          (balance_message (bs ''Not enough money. Balance '') allUtxoValue value fees)
        (let feesValue = fees
         in rbind (if allMoney then i64 (allUtxoValue - feesValue) else Inr value) (\<lambda>valueToSend.
            CHECK_TYPED (0 < valueToSend) INCORRECT_USER_DATA
              (balance_message (bs ''Not enough money. Balance '') allUtxoValue valueToSend fees)
            (CHECK_TYPED (fees \<le> valueToSend) INCORRECT_VALUE_OR_FEE
              (bs ''Value it should be large than fees. Value '' @ to_string valueToSend @ bs ''. Fees '' @ to_string fees)
            (rbind (genTransaction K w newUtxos (of_int valueToSend) (of_int feesValue) toAddress False)
              (\<lambda>encodedTransaction.
             let usedUtxos = set (map tx_hash newUtxos)
             in Inr (encodedTransaction, usedUtxos))))))))"

text \<open>\<open>std::abs ((int) a - (int) b)\<close>\<close>

definition int_distance :: "nat \<Rightarrow> nat \<Rightarrow> int res" where
  "int_distance a b =
     (let d = sint (of_nat a :: u32) - sint (of_nat b :: u32)
      in if - (2 ^ 31) < d \<and> d < 2 ^ 31 then Inr \<bar>d\<bar> else Inl (Undefined (bs ''signed overflow'')))"

text \<open>The loop; its first argument is \<open>maxIterations\<close>, which the code starts at 10.\<close>

fun build_loop ::
    "nat \<Rightarrow> crypto \<Rightarrow> wallet_env \<Rightarrow> wallet \<Rightarrow> bool \<Rightarrow> int \<Rightarrow> bool \<Rightarrow> int \<Rightarrow> bytes \<Rightarrow> BtcInput list
     \<Rightarrow> int \<Rightarrow> bytes \<Rightarrow> bytes set \<Rightarrow> (bytes \<times> bytes set) res" where
  "build_loop 0 K E w allMoney value auto feesEstimate recvAddress utxos fees oldTransaction oldUsed
     = Inl (StringException (bs ''I can not estimate fees''))"
| "build_loop (Suc maxIterations) K E w allMoney value auto feesEstimate recvAddress utxos fees
       oldTransaction oldUsed =
     (let oldTransactionSize = calcSizeTransaction oldTransaction;
          fees = (if auto then sint ((of_int feesEstimate * of_nat oldTransactionSize) div 1024 :: u64) else fees);
          fees = (if fees < int oldTransactionSize + 30 then int oldTransactionSize + 30 else fees)
      in rbind (encode K E w allMoney value fees recvAddress utxos) (\<lambda>(tmpTransaction, tmpUsedUtxos).
         if tmpTransaction = [] then Inr (oldTransaction, oldUsed)
         else rbind (int_distance (calcSizeTransaction tmpTransaction) oldTransactionSize) (\<lambda>d.
           if d \<le> 30 then Inr (tmpTransaction, tmpUsedUtxos)
           else if maxIterations = 0 then Inl (StringException (bs ''I can not estimate fees''))
           else build_loop maxIterations K E w allMoney value auto feesEstimate recvAddress utxos fees
             tmpTransaction tmpUsedUtxos)))"

definition buildTransaction ::
    "crypto \<Rightarrow> wallet_env \<Rightarrow> wallet \<Rightarrow> BtcInput list \<Rightarrow> u64 \<Rightarrow> bytes \<Rightarrow> bytes \<Rightarrow> bytes \<Rightarrow> (bytes \<times> bytes set) res" where
  "buildTransaction K E w utxos estimateComissionInSatoshi valueStr feesStr recvAddress =
     rbind (if valueStr = bs ''all'' then Inr (True, 0)
            else CHECK_TYPED (isDecimal valueStr) INCORRECT_USER_DATA (bs ''Not hex number value'')
              (rbind (stoll valueStr) (\<lambda>value. Inr (False, value)))) (\<lambda>(allMoney, value).
     rbind (if feesStr \<noteq> bs ''auto''
            then CHECK_TYPED (isDecimal feesStr) INCORRECT_USER_DATA (bs ''Not hex number fees'')
              (rbind (stoll feesStr) (\<lambda>fees. Inr (0, fees)))
            else CHECK_TYPED (0 < estimateComissionInSatoshi) INCORRECT_USER_DATA
              (bs ''Uncnown estimate comission '' @ to_string_nat (unat estimateComissionInSatoshi))
              (Inr (sint estimateComissionInSatoshi, 0))) (\<lambda>(feesEstimate, fees).
     rbind (build_loop 10 K E w allMoney value (feesStr = bs ''auto'') feesEstimate recvAddress utxos fees
              [] {}) (\<lambda>(encodedTransaction, usedTransactions).
     CHECK_TYPED (encodedTransaction \<noteq> []) DONT_SIGN (bs ''Not encode transactions'')
       (Inr (encodedTransaction, usedTransactions)))))"

definition calcHashNotWitness :: "crypto \<Rightarrow> bytes \<Rightarrow> bytes" where
  "calcHashNotWitness K txHex = toHex (calcHashTxNotWitness K (fromHex txHex))"

definition checkAddress :: "crypto \<Rightarrow> bytes \<Rightarrow> unit res" where
  "checkAddress K addr = checkAddressBase56 K addr"

definition getAllWalletsInFolder :: "bytes \<Rightarrow> (bytes \<times> bytes) list" where
  "getAllWalletsInFolder folder = []"

end
