(* ===== verification/WalletSpec.thy ===== *)
theory WalletSpec
  imports BtcWallet
begin

text \<open>
  What the wallet promises: the choice of outputs covers the amount, the fee of a transaction covers
  its size, and a generated key is found again by its address and password.
\<close>

section \<open>Choosing outputs\<close>

definition utxo_sum :: "BtcInput list \<Rightarrow> int" where
  "utxo_sum xs = (\<Sum>x\<leftarrow>xs. int (unat (utxo_value x)))"

lemma utxo_sum_simps [simp]:
  "utxo_sum [] = 0" "utxo_sum (x # xs) = int (unat (utxo_value x)) + utxo_sum xs"
  "utxo_sum (xs @ ys) = utxo_sum xs + utxo_sum ys"
  by (simp_all add: utxo_sum_def)

lemma utxo_sum_nonneg: "0 \<le> utxo_sum xs"
  by (induction xs) simp_all

lemma utxo_sum_mset: "utxo_sum xs = (\<Sum>x\<in>#mset xs. int (unat (utxo_value x)))"
  by (induction xs) simp_all

lemma utxo_sum_subset:
  assumes "mset xs \<subseteq># mset ys"
  shows "utxo_sum xs \<le> utxo_sum ys"
proof -
  from assms obtain Z where "mset ys = mset xs + Z" by (auto simp: subset_mset.le_iff_add)
  then have "utxo_sum ys = utxo_sum xs + (\<Sum>x\<in>#Z. int (unat (utxo_value x)))"
    by (simp add: utxo_sum_mset)
  moreover have "0 \<le> (\<Sum>x\<in>#Z. int (unat (utxo_value x)))" by (induction Z) simp_all
  ultimately show ?thesis by simp
qed

lemma sint_small: "0 \<le> i \<Longrightarrow> i < 2 ^ 63 \<Longrightarrow> sint (of_int i :: u64) = i"
  by (simp add: signed_of_int signed_take_bit_int_eq_self)

lemma sint_add_value:
  assumes "0 \<le> cur" and "cur + int (unat v) < 2 ^ 63"
  shows "sint (of_int cur + v :: u64) = cur + int (unat v)"
proof -
  have "(of_int cur + v :: u64) = of_int (cur + int (unat v))" by simp
  then show ?thesis using assms by (simp only: sint_small)
qed

lemma mset_remove_nth: "i < length xs \<Longrightarrow> mset xs = add_mset (xs ! i) (mset (take i xs @ drop (Suc i) xs))"
  by (metis id_take_nth_drop mset.simps(2) mset_append union_mset_add_mset_right)

text \<open>When the loop returns, what it added covers the amount or is everything, and it stopped as soon
  as it could.\<close>

lemma greedy_loop_spec:
  assumes "greedy_loop before allV cur xs acc = Inr result"
    and "0 \<le> cur" and "cur + utxo_sum xs < 2 ^ 63"
  shows "\<exists>taken. result = acc @ taken \<and> mset taken \<subseteq># mset xs
    \<and> (allV \<le> cur + utxo_sum taken \<or> mset taken = mset xs)
    \<and> (\<forall>n < length taken. cur + utxo_sum (take n taken) < allV)"
  using assms
proof (induction "length xs" arbitrary: cur xs acc)
  case 0
  then show ?case by (simp add: greedy_loop.simps)
next
  case (Suc k)
  show ?case
  proof (cases "cur < allV")
    case False
    then have "result = acc" using Suc.prems(1) by (simp add: greedy_loop.simps)
    with False show ?thesis by (intro exI [of _ "[]"]) simp
  next
    case True
    have "xs \<noteq> []" using Suc.hyps(2) by auto
    with True Suc.prems(1) obtain i where pick: "greedy_pick before (allV - cur) xs = Inr i"
      and rec: "greedy_loop before allV (sint (of_int cur + utxo_value (xs ! i)))
        (take i xs @ drop (Suc i) xs) (acc @ [xs ! i]) = Inr result"
      by (subst (asm) greedy_loop.simps) (auto simp: i64_def split: if_splits sum.splits)
    have i: "i < length xs" using greedy_pick_less [OF \<open>xs \<noteq> []\<close> pick] .
    let ?ys = "take i xs @ drop (Suc i) xs" and ?x = "xs ! i"
    have ms: "mset xs = add_mset ?x (mset ?ys)" by (rule mset_remove_nth [OF i])
    have sum: "utxo_sum xs = int (unat (utxo_value ?x)) + utxo_sum ?ys"
      unfolding utxo_sum_mset ms by simp
    have cur': "sint (of_int cur + utxo_value ?x :: u64) = cur + int (unat (utxo_value ?x))"
      using Suc.prems(2,3) sum utxo_sum_nonneg [of ?ys] by (intro sint_add_value) linarith+
    have "k = length ?ys" using Suc.hyps(2) i by simp
    from Suc.hyps(1) [OF this rec [unfolded cur']] Suc.prems(2,3) sum obtain taken where
      taken: "result = (acc @ [?x]) @ taken" "mset taken \<subseteq># mset ?ys"
      "allV \<le> cur + int (unat (utxo_value ?x)) + utxo_sum taken \<or> mset taken = mset ?ys"
      "\<forall>n < length taken. cur + int (unat (utxo_value ?x)) + utxo_sum (take n taken) < allV"
      by auto
    show ?thesis
    proof (intro exI conjI)
      show "result = acc @ (?x # taken)" using taken(1) by simp
      show "mset (?x # taken) \<subseteq># mset xs" unfolding ms using taken(2) by simp
      show "allV \<le> cur + utxo_sum (?x # taken) \<or> mset (?x # taken) = mset xs"
        unfolding ms using taken(3) by auto
      show "\<forall>n < length (?x # taken). cur + utxo_sum (take n (?x # taken)) < allV"
        using taken(4) True by (auto simp: less_Suc_eq_0_disj)
    qed
  qed
qed

text \<open>It stops with an error in one case only: the amount is not covered, every remaining output exceeds
  what is missing, and the read before the first element ends the run or yields just that amount.\<close>

lemma sorted_remove_nth:
  assumes "sorted (map f xs)" and "i < length xs"
  shows "sorted (map f (take i xs @ drop (Suc i) xs))"
proof -
  have "sorted (map f (take i xs @ xs ! i # drop (Suc i) xs))" using assms by (simp flip: id_take_nth_drop)
  then show ?thesis by (auto simp: sorted_append)
qed

definition stops_short :: "u64 option \<Rightarrow> int \<Rightarrow> BtcInput list \<Rightarrow> bool" where
  "stops_short before missing left \<longleftrightarrow>
     left \<noteq> [] \<and> 0 < missing \<and> list_all (\<lambda>u. missing < int (unat (utxo_value u))) left
     \<and> (case before of None \<Rightarrow> True | Some v \<Rightarrow> sint v = missing)"

lemma greedy_pick_error:
  assumes "greedy_pick before rest xs = Inl e" and "xs \<noteq> []" and "0 < rest" "rest < 2 ^ 63"
    and "sorted (map utxo_value xs)"
  shows "e = Undefined (bs ''element before begin'') \<and> stops_short before rest xs"
proof -
  have "upper_bound xs (of_int rest) = 0" and e: "e = Undefined (bs ''element before begin'')"
    "case before of None \<Rightarrow> True | Some v \<Rightarrow> sint v = rest"
    using assms(1) by (auto simp: greedy_pick_def Let_def split: if_split_asm option.split_asm)
  moreover obtain x ys where xs: "xs = x # ys" using assms(2) by (cases xs) auto
  ultimately have "of_int rest < utxo_value x" by (simp add: upper_bound_def split: if_split_asm)
  then have "\<forall>u \<in> set xs. of_int rest < utxo_value u" using assms(5) by (auto simp: xs)
  moreover have "uint (of_int rest :: u64) = rest"
    using assms(3,4) by (simp add: unsigned_of_int take_bit_int_eq_self)
  ultimately have "\<forall>u \<in> set xs. rest < int (unat (utxo_value u))" by (simp add: word_less_def)
  then show ?thesis using assms(2,3) e by (simp add: stops_short_def list_all_iff)
qed

lemma greedy_loop_error:
  assumes "greedy_loop before allV cur xs acc = Inl e" and "0 \<le> cur" and "cur + utxo_sum xs < 2 ^ 63"
    and "allV < 2 ^ 63" and "sorted (map utxo_value xs)"
  shows "e = Undefined (bs ''element before begin'')
    \<and> (\<exists>taken left. mset xs = mset (taken @ left) \<and> stops_short before (allV - (cur + utxo_sum taken)) left)"
  using assms(1-3,5)
proof (induction "length xs" arbitrary: cur xs acc)
  case 0
  then show ?case by (simp add: greedy_loop.simps)
next
  case (Suc k)
  have "xs \<noteq> []" using Suc.hyps(2) by auto
  have less: "cur < allV" using Suc.prems(1) by (subst (asm) greedy_loop.simps) (simp split: if_split_asm)
  then have rest: "i64 (allV - cur) = Inr (allV - cur)" "0 < allV - cur" "allV - cur < 2 ^ 63"
    using Suc.prems(2) assms(4) by (simp_all add: i64_def)
  show ?case
  proof (cases "greedy_pick before (allV - cur) xs")
    case (Inl e')
    then have "e' = e" using Suc.prems(1) less \<open>xs \<noteq> []\<close> rest(1) by (subst (asm) greedy_loop.simps) simp
    with greedy_pick_error [OF Inl \<open>xs \<noteq> []\<close> rest(2,3) Suc.prems(4)]
    have "e = Undefined (bs ''element before begin'')" "stops_short before (allV - (cur + utxo_sum [])) xs" by simp_all
    moreover have "mset xs = mset ([] @ xs)" by simp
    ultimately show ?thesis by blast
  next
    case (Inr i)
    have i: "i < length xs" using greedy_pick_less [OF \<open>xs \<noteq> []\<close> Inr] .
    let ?ys = "take i xs @ drop (Suc i) xs" and ?x = "xs ! i"
    have ms: "mset xs = add_mset ?x (mset ?ys)" by (rule mset_remove_nth [OF i])
    have sum: "utxo_sum xs = int (unat (utxo_value ?x)) + utxo_sum ?ys" unfolding utxo_sum_mset ms by simp
    have cur': "sint (of_int cur + utxo_value ?x :: u64) = cur + int (unat (utxo_value ?x))"
      using Suc.prems(2,3) sum utxo_sum_nonneg [of ?ys] by (intro sint_add_value) linarith+
    have rec: "greedy_loop before allV (cur + int (unat (utxo_value ?x))) ?ys (acc @ [?x]) = Inl e"
      using Suc.prems(1) less \<open>xs \<noteq> []\<close> unfolding greedy_loop.simps [of before allV cur xs] cur' [symmetric]
      by (simp add: rest(1) Inr)
    have "k = length ?ys" using Suc.hyps(2) i by simp
    from Suc.hyps(1) [OF this rec _ _ sorted_remove_nth [OF Suc.prems(4) i]] Suc.prems(2,3) sum
    obtain taken left where *: "e = Undefined (bs ''element before begin'')" "mset ?ys = mset (taken @ left)"
      "stops_short before (allV - (cur + int (unat (utxo_value ?x)) + utxo_sum taken)) left" by auto
    then have "mset xs = mset ((?x # taken) @ left)"
      "stops_short before (allV - (cur + utxo_sum (?x # taken))) left"
      unfolding ms by (simp_all add: add.assoc)
    with *(1) show ?thesis by blast
  qed
qed

text \<open>C28: For amounts that fit, the choice of outputs comes to an end inside the vector. What it returns are
  some of the given outputs, each at most as often as given, that together cover the amount, or all of
  them if they do not suffice; and it stops as soon as the amount is covered. It fails to return in one
  situation only, undefined behaviour in the code: outputs are left, each of them exceeds the amount still missing,
  and the read before the first of them ends the run or yields exactly the missing amount. Nothing is
  assumed about that read.\<close>

theorem greedy_covers:
  assumes "wallet_env_ok E" and "allValue < 2 ^ 63" and "utxo_sum utxos < 2 ^ 63"
  shows "case greedyAlg E utxos allValue of
      Inl e \<Rightarrow> e = Undefined (bs ''element before begin'')
        \<and> (\<exists>taken left. mset utxos = mset (taken @ left) \<and> left \<noteq> [] \<and> utxo_sum taken < allValue
            \<and> list_all (\<lambda>u. allValue - utxo_sum taken < int (unat (utxo_value u))) left
            \<and> (case before_begin E of None \<Rightarrow> True | Some v \<Rightarrow> sint v = allValue - utxo_sum taken))
    | Inr chosen \<Rightarrow> mset chosen \<subseteq># mset utxos
        \<and> (allValue \<le> utxo_sum chosen \<or> mset chosen = mset utxos)
        \<and> (\<forall>n < length chosen. utxo_sum (take n chosen) < allValue)"
proof -
  have ms: "mset (sort_inputs E utxos) = mset utxos" and sorted: "sorted (map utxo_value (sort_inputs E utxos))"
    using assms(1) by (simp_all add: wallet_env_ok_def)
  have sum: "0 + utxo_sum (sort_inputs E utxos) < 2 ^ 63" using assms(3) ms by (simp add: utxo_sum_mset)
  show ?thesis
  proof (cases "greedy_loop (before_begin E) allValue 0 (sort_inputs E utxos) []")
    case (Inl e)
    from greedy_loop_error [OF Inl _ sum assms(2) sorted] obtain taken left where
      "e = Undefined (bs ''element before begin'')" "mset utxos = mset (taken @ left)"
      "stops_short (before_begin E) (allValue - utxo_sum taken) left"
      unfolding ms add_0 by auto
    then show ?thesis
      unfolding greedyAlg_def Inl sum.case stops_short_def
      by (intro conjI exI [of _ taken] exI [of _ left]) simp_all
  next
    case (Inr chosen)
    from greedy_loop_spec [OF Inr _ sum] show ?thesis unfolding greedyAlg_def Inr sum.case ms by simp
  qed
qed

text \<open>C38: The loop reads the element before the first one whenever every output exceeds the missing
  amount. If that read ends the run, or that memory happens to hold the amount, so that the loop goes on to
  take and erase that element, it is undefined behaviour, for every wallet all of whose outputs exceed the
  amount.\<close>

theorem greedy_reads_before_begin:
  assumes "wallet_env_ok E" and "utxos \<noteq> []" and "0 < allValue" and "allValue < 2 ^ 63"
    and "list_all (\<lambda>u. of_int allValue < utxo_value u) utxos"
    and "before_begin E \<in> {None, Some (of_int allValue)}"
  shows "greedyAlg E utxos allValue = Inl (Undefined (bs ''element before begin''))"
proof -
  let ?xs = "sort_inputs E utxos"
  have ms: "mset ?xs = mset utxos" using assms(1) by (simp add: wallet_env_ok_def)
  then have xs: "?xs \<noteq> []" "\<forall>u \<in> set ?xs. of_int allValue < utxo_value u"
    using assms(2,5) mset_eq_setD [OF ms] by (auto simp: list_all_iff)
  then have "upper_bound ?xs (of_int allValue) = 0"
    by (cases ?xs) (auto simp: upper_bound_def)
  then have "greedy_pick (before_begin E) allValue ?xs = Inl (Undefined (bs ''element before begin''))"
    using assms(3,4,6) by (auto simp: greedy_pick_def Let_def sint_small)
  then show ?thesis
    using xs(1) assms(3,4) by (simp add: greedyAlg_def greedy_loop.simps i64_def)
qed

section \<open>The fee and the size\<close>

lemma greedyAlg_spec:
  assumes "wallet_env_ok E" and "utxo_sum utxos < 2 ^ 63" and "greedyAlg E utxos allV = Inr chosen"
  shows "mset chosen \<subseteq># mset utxos"
proof -
  have ms: "mset (sort_inputs E utxos) = mset utxos" using assms(1) by (simp add: wallet_env_ok_def)
  then have "0 + utxo_sum (sort_inputs E utxos) < 2 ^ 63" using assms(2) by (simp add: utxo_sum_mset)
  from greedy_loop_spec [OF assms(3) [unfolded greedyAlg_def] _ this] ms show ?thesis by auto
qed

lemma fold_values:
  assumes "0 \<le> v" and "v + utxo_sum xs < 2 ^ 63"
  shows "foldl (\<lambda>v utxo. sint (of_int v + utxo_value utxo)) v xs = v + utxo_sum xs"
  using assms
proof (induction xs arbitrary: v)
  case (Cons x xs)
  have "sint (of_int v + utxo_value x :: u64) = v + int (unat (utxo_value x))"
    using Cons.prems utxo_sum_nonneg [of xs] by (intro sint_add_value) auto
  with Cons.IH [of "v + int (unat (utxo_value x))"] Cons.prems show ?case by simp
qed simp

lemma encode_Inr:
  assumes "encode K E w allMoney value fees addr utxos = Inr (tx, used)"
    and "wallet_env_ok E" and "utxo_sum utxos < 2 ^ 63"
  obtains chosen send where "mset chosen \<subseteq># mset utxos" and "used = tx_hash ` set chosen"
    and "genTransaction K w chosen (of_int send) (of_int fees) addr False = Inr tx"
    and "0 < send" and "fees \<le> send" and "send + fees \<le> utxo_sum chosen" and "\<not> allMoney \<longrightarrow> send = value"
proof -
  from assms(1) obtain chosen where
    chosen: "(if \<not> allMoney then rbind (i64 (value + fees)) (\<lambda>allValue. greedyAlg E utxos allValue) else Inr utxos)
      = Inr chosen"
    by (auto simp: encode_def rbind_eq_Inr)
  have sub: "mset chosen \<subseteq># mset utxos"
    using chosen greedyAlg_spec [OF assms(2,3)] by (auto simp: rbind_eq_Inr split: if_splits)
  have small: "utxo_sum chosen < 2 ^ 63" using utxo_sum_subset [OF sub] assms(3) by simp
  then have total: "foldl (\<lambda>v utxo. sint (of_int v + utxo_value utxo)) 0 chosen = utxo_sum chosen"
    using fold_values [of 0 chosen] by simp
  from assms(1) obtain send where "value + fees \<le> utxo_sum chosen"
    and send: "(if allMoney then i64 (utxo_sum chosen - fees) else Inr value) = Inr send"
    and "0 < send" "fees \<le> send" "used = tx_hash ` set chosen"
    and "genTransaction K w chosen (of_int send) (of_int fees) addr False = Inr tx"
    unfolding encode_def chosen rbind_simps Let_def total
    by (auto simp: rbind_eq_Inr CHECK_TYPED_eq_Inr i64_def split: if_split_asm)
  moreover have "send + fees \<le> utxo_sum chosen" "\<not> allMoney \<longrightarrow> send = value"
    using send \<open>value + fees \<le> utxo_sum chosen\<close> by (auto simp: i64_def split: if_split_asm)
  ultimately show thesis using that sub by blast
qed

text \<open>What the loop returns was encoded with a fee of at least 30 more than the size before, from
  which the new size differs by at most 30.\<close>

lemma sint_u32_small: "n < 2 ^ 31 \<Longrightarrow> sint (of_nat n :: u32) = int n"
  by (simp add: signed_of_nat signed_take_bit_int_eq_self)

lemma int_distance_small:
  assumes "int_distance a b = Inr d" and "d \<le> 30" and "a < 2 ^ 31"
  shows "a \<le> b + 30"
proof (cases "b < 2 ^ 31")
  case True
  then show ?thesis
    using assms by (auto simp: int_distance_def Let_def sint_u32_small split: if_split_asm)
qed (use assms(3) in simp)

lemma build_loop_Inr:
  assumes "build_loop n K E w allMoney value auto estimate addr utxos fees old oldUsed = Inr (tx, used)"
    and sane: "\<And>fees tx u. 0 \<le> fees \<Longrightarrow> encode K E w allMoney value fees addr utxos = Inr (tx, u)
      \<Longrightarrow> tx \<noteq> [] \<and> calcSizeTransaction tx < 2 ^ 31"
  shows "\<exists>fees'. encode K E w allMoney value fees' addr utxos = Inr (tx, used)
    \<and> int (calcSizeTransaction tx) \<le> fees'"
  using assms(1)
proof (induction n arbitrary: fees old oldUsed)
  case (Suc n)
  let ?size = "calcSizeTransaction old"
  define f1 where "f1 = (if auto then sint ((of_int estimate * of_nat ?size) div 1024 :: u64) else fees)"
  define f where "f = (if f1 < int ?size + 30 then int ?size + 30 else f1)"
  have f: "0 \<le> f" by (simp add: f_def)
  from Suc.prems obtain tmp u where enc: "encode K E w allMoney value f addr utxos = Inr (tmp, u)"
    and rest: "(if tmp = [] then Inr (old, oldUsed)
         else rbind (int_distance (calcSizeTransaction tmp) ?size) (\<lambda>d.
           if d \<le> 30 then Inr (tmp, u)
           else if n = 0 then Inl (StringException (bs ''I can not estimate fees''))
           else build_loop n K E w allMoney value auto estimate addr utxos f tmp u)) = Inr (tx, used)"
    unfolding build_loop.simps Let_def f1_def [symmetric] f_def [symmetric] rbind_eq_Inr by fastforce
  then obtain d where dist: "int_distance (calcSizeTransaction tmp) ?size = Inr d"
    and rest': "(if d \<le> 30 then Inr (tmp, u)
           else if n = 0 then Inl (StringException (bs ''I can not estimate fees''))
           else build_loop n K E w allMoney value auto estimate addr utxos f tmp u) = Inr (tx, used)"
    using sane [OF f enc] by (auto simp: rbind_eq_Inr)
  show ?case
  proof (cases "d \<le> 30")
    case True
    then have "tmp = tx" "u = used" using rest' by simp_all
    moreover have "int (calcSizeTransaction tx) \<le> f"
      using int_distance_small [OF dist True] sane [OF f enc] \<open>tmp = tx\<close> by (simp add: f_def)
    ultimately show ?thesis using enc by blast
  next
    case False
    then have "build_loop n K E w allMoney value auto estimate addr utxos f tmp u = Inr (tx, used)"
      using rest' by (simp split: if_split_asm)
    then show ?thesis by (rule Suc.IH)
  qed
qed simp

lemma to_inputs_Inr:
  assumes "to_inputs w xs = Inr ys"
  shows "map in_value ys = map utxo_value xs \<and> list_all (\<lambda>y. in_wif y = wif w) ys
    \<and> map (\<lambda>y. Inr (in_tx_hash y)) ys = map (\<lambda>x. HexStringToDump (tx_hash x)) xs
    \<and> map (\<lambda>y. Inr (in_scriptPubkey y)) ys = map (\<lambda>x. HexStringToDump (scriptPubkey x)) xs"
  using assms
proof (induction xs arbitrary: ys)
  case (Cons x xs)
  then obtain h script zs where "HexStringToDump (tx_hash x) = Inr h" "HexStringToDump (scriptPubkey x) = Inr script"
    "to_inputs w xs = Inr zs" "ys = \<lparr>in_wif = wif w, in_tx_hash = h, in_tx_index = tx_index x,
        in_scriptPubkey = script, in_value = utxo_value x\<rparr> # zs"
    by (auto simp: rbind_eq_Inr)
  with Cons.IH [of zs] show ?case by simp
qed simp

lemma sum_list_subset:
  fixes f :: "'a \<Rightarrow> nat"
  assumes "mset xs \<subseteq># mset ys"
  shows "(\<Sum>x\<leftarrow>xs. f x) \<le> (\<Sum>y\<leftarrow>ys. f y)"
proof -
  from assms obtain Z where "mset ys = mset xs + Z" by (auto simp: subset_mset.le_iff_add)
  then have "sum_mset (image_mset f (mset ys)) = sum_mset (image_mset f (mset xs)) + sum_mset (image_mset f Z)" by simp
  then show ?thesis by (simp flip: sum_mset_sum_list)
qed

lemma utxo_sum_nat: "utxo_sum xs = int (\<Sum>x\<leftarrow>xs. unat (utxo_value x))"
  by (induction xs) simp_all

text \<open>The receiver's address is one that has a script, if a transaction is built.\<close>

lemma sent_script:
  assumes K: "crypto_ok K" and keys: "list_all (\<lambda>i. key_of K i \<noteq> None) inputs"
    and small: "list_all (\<lambda>i. length (in_scriptPubkey i) + 9 < 2 ^ 64) inputs"
    and sent: "BuildBTCTransaction K inputs fee amt addr tn = Inr raw"
  obtains script where "AddressToPubkeyScript addr True = Inr script"
proof -
  let ?ts = "map (transfer_of K addr) inputs"
  have add: "add_inputs K addr (new_BTCTransaction tn) inputs = Inr (new_BTCTransaction tn\<lparr>m_Transfers := ?ts\<rparr>)"
    using keys by (subst add_inputs_eq [OF K]) (auto simp: list_all_iff new_BTCTransaction_def)
  have "map scriptpubkey ?ts = map in_scriptPubkey inputs" by (rule map_transfer_of(1) [OF keys])
  then have "\<forall>s \<in> set (map scriptpubkey ?ts). length s + 9 < 2 ^ 64"
    using small by (simp only: list_all_iff set_map ball_simps)
  then have "\<forall>t \<in> set ?ts. length (scriptpubkey t) + 9 < 2 ^ 64" by (simp only: set_map ball_simps)
  from dump_inputs_spec [OF this] obtain ts' d where
    dump: "dump_inputs [0xFF, 0xFF, 0xFF, 0xFF] (version (new_BTCTransaction tn) @ PackInteger (of_nat (length inputs))) ?ts
      = (d, ts')" and unp: "map unplaced ts' = map unplaced ?ts" by blast
  have seq: "sequence (new_BTCTransaction tn\<lparr>m_Transfers := ?ts\<rparr>) = [0xFF, 0xFF, 0xFF, 0xFF]"
    "version (new_BTCTransaction tn\<lparr>m_Transfers := ?ts\<rparr>) = version (new_BTCTransaction tn)"
    by (simp_all add: new_BTCTransaction_def)
  have transfers: "m_Transfers (new_BTCTransaction tn\<lparr>m_Transfers := ?ts\<rparr>) = ?ts" by simp
  show thesis
  proof (cases inputs)
    case Nil
    then have "ts' = []" using unp by simp
    then have idx: "vec_index ts' 0 = Inl (Undefined (bs ''vector index''))" by (simp add: vec_index_def)
    show thesis
      using sent unfolding BuildBTCTransaction_def add rbind_simps BuildTransaction_def buildSignedDump_def Let_def
        transfers seq length_map dump prod.case idx
      by (simp add: CHECK_def split: if_split_asm)
  next
    case (Cons i us)
    then obtain t us' where t: "ts' = t # us'" "unplaced t = unplaced (transfer_of K addr i)"
      using unp by (cases ts') auto
    from keys Cons obtain sk pub where key: "key_of K i = Some (sk, pub)" by auto
    have first: "vec_index ts' 0 = Inr t" "receiveAddress t = addr"
      using t(1) unplaced_fields(7) [OF t(2)] transfer_of_fields(7) [OF key] by (simp_all add: vec_index_def)
    show thesis
    proof (cases "AddressToPubkeyScript addr True")
      case (Inl e)
      show thesis
        using sent unfolding BuildBTCTransaction_def add rbind_simps BuildTransaction_def buildSignedDump_def Let_def
          transfers seq length_map dump prod.case first Inl
        by (simp add: CHECK_def split: if_split_asm)
    qed (rule that)
  qed
qed

definition utxos_ok :: "BtcInput list \<Rightarrow> bool" where
  "utxos_ok utxos \<longleftrightarrow> list_all (\<lambda>u. length (tx_hash u) = 64) utxos \<and> utxo_sum utxos < 2 ^ 63
     \<and> (\<Sum>u\<leftarrow>utxos. length (scriptPubkey u) + 400) < 2 ^ 28"

lemma chosen_inputs:
  assumes ok: "utxos_ok utxos" and sub: "mset chosen \<subseteq># mset utxos" and ys: "to_inputs w chosen = Inr ys"
  shows "list_all (\<lambda>i. length (in_tx_hash i) = 32) ys"
    and "(\<Sum>i\<leftarrow>ys. length (in_tx_hash i) + length (in_scriptPubkey i) + 200) < 2 ^ 28"
    and "400 * length ys < 2 ^ 28" and "list_all (\<lambda>i. length (in_scriptPubkey i) + 9 < 2 ^ 64) ys"
proof -
  note * = to_inputs_Inr [OF ys]
  have all: "\<forall>u \<in> set chosen. length (tx_hash u) = 64"
    using ok mset_subset_eqD [OF sub] unfolding utxos_ok_def list_all_iff by (metis set_mset_mset)
  have bound: "(\<Sum>u\<leftarrow>chosen. length (scriptPubkey u) + 400) < 2 ^ 28"
    using sum_list_subset [OF sub, of "\<lambda>u. length (scriptPubkey u) + 400"] ok
    unfolding utxos_ok_def by linarith
  have "list_all (\<lambda>i. length (in_tx_hash i) = 32) ys
    \<and> (\<Sum>i\<leftarrow>ys. length (in_tx_hash i) + length (in_scriptPubkey i) + 200)
        \<le> (\<Sum>u\<leftarrow>chosen. length (scriptPubkey u) + 400)
    \<and> 400 * length ys \<le> (\<Sum>u\<leftarrow>chosen. length (scriptPubkey u) + 400)
    \<and> list_all (\<lambda>i. length (in_scriptPubkey i) + 9 < 2 ^ 64) ys"
    using ys all bound
  proof (induction chosen arbitrary: ys)
    case (Cons u chosen)
    then obtain h script zs where h: "HexStringToDump (tx_hash u) = Inr h"
      and script: "HexStringToDump (scriptPubkey u) = Inr script" and zs: "to_inputs w chosen = Inr zs"
      and yz: "ys = \<lparr>in_wif = wif w, in_tx_hash = h, in_tx_index = tx_index u,
        in_scriptPubkey = script, in_value = utxo_value u\<rparr> # zs"
      by (auto simp: rbind_eq_Inr)
    have "length (tx_hash u) = 64" "length (scriptPubkey u) < 2 ^ 28" using Cons.prems(2,3) by auto
    then have "length h = 32" "length script \<le> length (scriptPubkey u) + 1"
      using length_HexStringToDump [OF _ h] length_HexStringToDump [OF _ script] by simp_all
    moreover have "length script + 9 < 2 ^ 64"
      using \<open>length script \<le> length (scriptPubkey u) + 1\<close> \<open>length (scriptPubkey u) < 2 ^ 28\<close> by simp
    ultimately show ?case using Cons.IH [OF zs] Cons.prems(2,3) unfolding yz by simp
  qed simp
  with bound show "list_all (\<lambda>i. length (in_tx_hash i) = 32) ys"
    "(\<Sum>i\<leftarrow>ys. length (in_tx_hash i) + length (in_scriptPubkey i) + 200) < 2 ^ 28"
    "400 * length ys < 2 ^ 28" "list_all (\<lambda>i. length (in_scriptPubkey i) + 9 < 2 ^ 64) ys" by linarith+
qed

lemma unat_of_int: "0 \<le> i \<Longrightarrow> i < 2 ^ 64 \<Longrightarrow> int (unat (of_int i :: u64)) = i"
  by (simp add: unsigned_of_int take_bit_int_eq_self)

lemma genTransaction_spec:
  assumes K: "crypto_ok K" and wif: "WIFToPrivkey (wif w) = Inr (sk, c)" "ec_pubkey_create K sk = Some pub"
    and ok: "utxos_ok utxos" and sub: "mset chosen \<subseteq># mset utxos"
    and money: "0 < send" "0 \<le> fees" "send + fees \<le> utxo_sum chosen"
    and gen: "genTransaction K w chosen (of_int send) (of_int fees) addr tn = Inr tx"
  shows "\<exists>raw t. HexStringToDump tx = Inr raw \<and> length tx = 2 * length raw \<and> length raw < 2 ^ 30 \<and> raw \<noteq> [] \<and> read_tx raw = Some (t, [])
    \<and> map (\<lambda>i. Inr (rev (prev_hash i))) (tx_ins t) = map (\<lambda>u. HexStringToDump (tx_hash u)) chosen
    \<and> (\<Sum>out\<leftarrow>tx_outs t. int (unat (amount out))) + fees = utxo_sum chosen"
proof -
  from gen obtain ys raw where ys: "to_inputs w chosen = Inr ys"
    and raw: "BuildBTCTransaction K ys (of_int fees) (of_int send) addr tn = Inr raw" and tx: "tx = DumpToHexString raw"
    by (auto simp: genTransaction_def rbind_eq_Inr)
  note spec = to_inputs_Inr [OF ys] and sizes = chosen_inputs [OF ok sub ys]
  have "key_of K y \<noteq> None" if "in_wif y = wif w" for y using that wif by (simp add: key_of_def)
  then have keys: "list_all (\<lambda>i. key_of K i \<noteq> None) ys" using spec unfolding list_all_iff by blast
  have vals: "map in_value ys = map utxo_value chosen" using spec by blast
  have "(\<Sum>i\<leftarrow>ys. unat (in_value i)) = (\<Sum>x\<leftarrow>map in_value ys. unat x)" by (simp add: comp_def)
  also have "\<dots> = (\<Sum>x\<leftarrow>chosen. unat (utxo_value x))" unfolding vals by (simp add: comp_def)
  finally have sum: "int (\<Sum>i\<leftarrow>ys. unat (in_value i)) = utxo_sum chosen" by (simp add: utxo_sum_nat)
  have "utxo_sum chosen < 2 ^ 63" using utxo_sum_subset [OF sub] ok by (simp add: utxos_ok_def)
  then have "int (\<Sum>i\<leftarrow>ys. unat (in_value i)) < int (2 ^ 63)" unfolding sum by simp
  then have small: "(\<Sum>i\<leftarrow>ys. unat (in_value i)) < 2 ^ 63" by (simp only: of_nat_less_iff)
  have amounts: "int (unat (of_int send :: u64)) = send" "int (unat (of_int fees :: u64)) = fees"
    by (rule unat_of_int; use money \<open>utxo_sum chosen < 2 ^ 63\<close> in simp)+
  have enough: "unat (of_int send :: u64) + unat (of_int fees :: u64) \<le> (\<Sum>i\<leftarrow>ys. unat (in_value i))"
    using money(3) sum amounts by linarith
  have "ys \<noteq> []" using sum money by auto
  obtain script where script: "AddressToPubkeyScript addr True = Inr script"
    by (rule sent_script [OF K keys sizes(4) raw])
  have sum64: "(\<Sum>i\<leftarrow>ys. unat (in_value i)) < 2 ^ 64" using small by simp
  have size64: "(\<Sum>i\<leftarrow>ys. length (in_tx_hash i) + length (in_scriptPubkey i) + 200) + 200 < 2 ^ 64"
    using sizes(2) by simp
  note conserved = sent_conserved [OF K keys \<open>ys \<noteq> []\<close> sizes(1) script enough sum64 size64 raw]
  then obtain t where t: "read_tx raw = Some (t, [])" "map prev_hash (tx_ins t) = map (\<lambda>i. rev (in_tx_hash i)) ys"
    "(\<Sum>out\<leftarrow>tx_outs t. unat (amount out)) + unat (of_int fees :: u64) = (\<Sum>i\<leftarrow>ys. unat (in_value i))"
    "raw \<noteq> []" "length raw \<le> 200 * length ys + 110"
    by blast
  have "map (\<lambda>i. Inr (rev (prev_hash i))) (tx_ins t) = map (\<lambda>h. Inr (rev h)) (map prev_hash (tx_ins t))" by simp
  also have "\<dots> = map (\<lambda>y. Inr (in_tx_hash y)) ys" unfolding t(2) by simp
  also have "\<dots> = map (\<lambda>u. HexStringToDump (tx_hash u)) chosen" using spec by blast
  finally have hashes: "map (\<lambda>i. Inr (rev (prev_hash i))) (tx_ins t) = map (\<lambda>u. HexStringToDump (tx_hash u)) chosen" .
  have ints: "int (\<Sum>out\<leftarrow>os. unat (amount out)) = (\<Sum>out\<leftarrow>os. int (unat (amount out)))" for os
    by (induction os) simp_all
  have total: "(\<Sum>out\<leftarrow>tx_outs t. int (unat (amount out))) + fees = utxo_sum chosen"
    using arg_cong [OF t(3), of int] ints [of "tx_outs t"] unfolding of_nat_add sum amounts(2) by (simp only:)
  have len: "length raw < 2 ^ 30" using t(5) sizes(3) by simp
  show ?thesis
    using HexStringToDump_DumpToHexString [OF len] length_DumpToHexString [of raw] len t(1,4) hashes total tx by auto
qed

text \<open>C3: Every transaction that \<open>buildTransaction\<close> returns, whatever text the value and the fee were
  given as, decodes to a transaction that spends some of the given outputs (each at most once) and
  leaves the miners at least one unit per byte of its size; the set of used transactions is that of
  the outputs it spends.\<close>

theorem fee_covers_size:
  assumes "crypto_ok K" and "wallet_env_ok E" and "utxos_ok utxos"
    and "WIFToPrivkey (wif w) = Inr (sk, c)" and "ec_pubkey_create K sk = Some pub"
    and "buildTransaction K E w utxos estimate valueStr feesStr addr = Inr (tx, used)"
  shows "case HexStringToDump tx of Inl e \<Rightarrow> False
    | Inr raw \<Rightarrow> (case read_tx raw of None \<Rightarrow> False
      | Some (t, rest) \<Rightarrow> rest = [] \<and> (\<exists>chosen. mset chosen \<subseteq># mset utxos \<and> used = tx_hash ` set chosen
          \<and> map (\<lambda>i. Inr (rev (prev_hash i))) (tx_ins t) = map (\<lambda>u. HexStringToDump (tx_hash u)) chosen
          \<and> (\<Sum>out\<leftarrow>tx_outs t. int (unat (amount out))) + int (length raw) \<le> utxo_sum chosen))"
proof -
  note gen = genTransaction_spec [OF assms(1,4,5,3)]
  have sum: "utxo_sum utxos < 2 ^ 63" using assms(3) by (simp add: utxos_ok_def)
  have spec: "\<exists>raw t chosen. HexStringToDump tx = Inr raw \<and> length tx = 2 * length raw \<and> length raw < 2 ^ 30
      \<and> raw \<noteq> [] \<and> read_tx raw = Some (t, []) \<and> mset chosen \<subseteq># mset utxos \<and> used = tx_hash ` set chosen
      \<and> map (\<lambda>i. Inr (rev (prev_hash i))) (tx_ins t) = map (\<lambda>u. HexStringToDump (tx_hash u)) chosen
      \<and> (\<Sum>out\<leftarrow>tx_outs t. int (unat (amount out))) + fees = utxo_sum chosen"
    if f: "0 \<le> fees" and e: "encode K E w allMoney v fees addr utxos = Inr (tx, used)"
    for allMoney v fees tx and used :: "bytes set"
  proof -
    obtain chosen send where *: "mset chosen \<subseteq># mset utxos" "used = tx_hash ` set chosen"
      "genTransaction K w chosen (of_int send) (of_int fees) addr False = Inr tx"
      "0 < send" "send + fees \<le> utxo_sum chosen"
      by (rule encode_Inr [OF e assms(2) sum])
    from gen [OF *(1,4) f *(5,3)] *(1,2) show ?thesis by blast
  qed
  from assms(6) obtain allMoney v auto feesEstimate fees0 where
    loop: "build_loop 10 K E w allMoney v auto feesEstimate addr utxos fees0 [] {} = Inr (tx, used)"
    unfolding buildTransaction_def by (auto simp: rbind_eq_Inr CHECK_TYPED_eq_Inr simp del: build_loop.simps)
  have "tx' \<noteq> [] \<and> calcSizeTransaction tx' < 2 ^ 31"
    if "0 \<le> fees" "encode K E w allMoney v fees addr utxos = Inr (tx', u)" for fees tx' u
    using spec [OF that] by (auto simp: calcSizeTransaction_def)
  then have "\<exists>fees. encode K E w allMoney v fees addr utxos = Inr (tx, used) \<and> int (calcSizeTransaction tx) \<le> fees"
    by (rule build_loop_Inr [OF loop])
  then obtain fees where fees: "encode K E w allMoney v fees addr utxos = Inr (tx, used)"
    "int (calcSizeTransaction tx) \<le> fees" by blast
  then have "0 \<le> fees" by linarith
  from spec [OF this fees(1)] obtain raw t chosen where *: "HexStringToDump tx = Inr raw" "length tx = 2 * length raw"
    "read_tx raw = Some (t, [])" "mset chosen \<subseteq># mset utxos" "used = tx_hash ` set chosen"
    "map (\<lambda>i. Inr (rev (prev_hash i))) (tx_ins t) = map (\<lambda>u. HexStringToDump (tx_hash u)) chosen"
    "(\<Sum>out\<leftarrow>tx_outs t. int (unat (amount out))) + fees = utxo_sum chosen" by blast
  have "(\<Sum>out\<leftarrow>tx_outs t. int (unat (amount out))) + int (length raw) \<le> utxo_sum chosen"
    using *(2,7) fees(2) unfolding calcSizeTransaction_def by linarith
  with *(3-6) show ?thesis unfolding *(1) by auto
qed

section \<open>Key files\<close>

lemma str_find_delimiter: "32 \<notin> set w \<Longrightarrow> str_find [32] (w @ 32 # r) = Some (length w)"
  by (induction w) auto

lemma base58_chars:
  assumes "ch \<in> set (base58 p)"
  shows "ch \<noteq> 32" "tolower ch \<noteq> slash" "tolower ch \<noteq> 45"
proof -
  have "ch \<in> set pszBase58" using assms base58_alphabet by blast
  then show "ch \<noteq> 32" "tolower ch \<noteq> slash" "tolower ch \<noteq> 45"
    unfolding pszBase58_def by (auto simp: bs_def tolower_def slash_def)
qed

lemma path_append_inj:
  assumes "path_append f x = path_append f y" and "x \<noteq> []" "y \<noteq> []" and "hd x \<noteq> slash" "hd y \<noteq> slash"
  shows "x = y"
  using assms by (simp add: path_append_def split: if_split_asm)

lemma getAddress_Inr:
  assumes K: "crypto_ok K" and "Wif.getAddress K w t = Inr (a, c)"
  obtains sk pub where "WIFToPrivkey w = Inr (sk, c)" and "ec_pubkey_create K sk = Some pub"
    and "a = base58 (address_bytes K (ec_pubkey_serialize K c pub) t)" and "a \<noteq> []"
proof -
  obtain sk c' where wif: "WIFToPrivkey w = Inr (sk, c')"
    using assms(2) getAddress_Inl by (cases "WIFToPrivkey w") auto
  from assms(2) getAddress_eq [OF K wif, of t] obtain pub where "ec_pubkey_create K sk = Some pub"
    and a: "a = base58 (address_bytes K (ec_pubkey_serialize K c' pub) t)" and "c' = c"
    by (auto split: option.splits)
  moreover have "a \<noteq> []"
  proof
    assume "a = []"
    let ?p = "address_bytes K (ec_pubkey_serialize K c' pub) t"
    have len: "length ?p = 25" using crypto_lengths [OF K] by (simp add: address_bytes_def pubkey_hash_def Let_def)
    have "base58 ?p = base58 []" using a \<open>a = []\<close> by (simp add: base58_def)
    then have "?p = []" using DecodeBase58_base58 [of ?p] DecodeBase58_base58 [of "[]"] len by simp
    with len show False by simp
  qed
  ultimately show thesis using wif that by blast
qed

text \<open>A fresh key whose address could be computed has exactly 32 bytes.\<close>

lemma CreateWIF_key:
  assumes K: "crypto_ok K" and "CreateWIF K valid printed t True = Inr w" and "WIFToPrivkey w = Inr (sk, True)"
  shows "w = wif_text K sk t True" and "\<exists>p. w = base58 p"
proof -
  from assms(2) obtain key where small: "length key \<le> 2 ^ 30" "privateKeyToWif K key t True = Inr w"
    by (auto simp: CreateWIF_def Let_def res_simps dest: HexStringToDump_bound)
  then have w: "w = wif_text K key t True" using small by (simp add: privateKeyToWif_eq)
  then show "\<exists>p. w = base58 p" by (auto simp: wif_text_def Let_def)
  have "length key = 32" "sk = take 32 key"
    using assms(3) crypto_lengths [OF K]
    using small by (auto simp: w wif_text_def Let_def WIFToPrivkey_base58 split: if_split_asm)
  then show "w = wif_text K sk t True" using w by simp
qed

text \<open>The content of a key file gives its wallet back.\<close>

lemma BtcWallet_data_eq:
  assumes "32 \<notin> set e" and "addr \<noteq> []" and "decryptWif2 K env e password = Inr w"
    and "Wif.getAddress K w False = Inr (addr, c)"
  shows "BtcWallet_data K env (e @ WIF_AND_ADDRESS_DELIMITER @ addr) password = Inr \<lparr>wif = w, address = addr\<rparr>"
proof -
  have delim: "WIF_AND_ADDRESS_DELIMITER = [32]" by (simp add: WIF_AND_ADDRESS_DELIMITER_def bs_def)
  have "getWifAndAddress K (e @ [32] @ addr) False = Inr (e, addr)"
    using str_find_delimiter [OF assms(1), of addr]
    by (simp add: getWifAndAddress_def delim substr_from_def)
  then show ?thesis using assms(2-4) by (simp add: BtcWallet_data_def delim)
qed

text \<open>The file a key is saved to is the one that is opened for its address.\<close>

lemma file_name:
  assumes save: "saveToFile fs (makePath folder [convertAddressToFileName addr]) data = (Inr (), fs')"
    and fresh: "isExist fs (makePath folder [toLower addr]) = Inr False"
    and addr: "addr \<noteq> []" "addr = base58 p"
  shows "wallet_getFullPath fs' folder addr = Inr (makePath folder [convertAddressToFileName addr])"
proof -
  let ?low = "toLower addr" and ?file = "convertAddressToFileName addr"
  have neq: "tolower ch \<noteq> slash" "slash \<noteq> tolower ch" "45 \<noteq> tolower ch" if "ch \<in> set addr" for ch
    using base58_chars(2,3) [of ch p] that addr(2) by (auto dest: sym)
  have low: "?low \<noteq> []" "hd ?low \<noteq> slash" "slash \<notin> set ?low" "45 \<notin> set ?low"
    using addr(1) neq by (auto simp: toLower_def hd_map)
  have conv: "?file = toLower (take (size_sub (length addr) 3) addr) @ [45, 45, 45]"
    by (simp add: convertAddressToFileName_def toLower_def bs_def tolower_def)
  have chars: "slash \<notin> set ?file"
    unfolding conv using neq by (auto simp: toLower_def slash_def dest: in_set_takeD)
  have "?file \<noteq> []" "45 \<in> set ?file" by (simp_all add: conv)
  then have hd: "hd ?file \<noteq> slash" using chars by (metis hd_in_set)
  have "path_append folder ?low \<noteq> path_append folder ?file"
    using path_append_inj [OF _ low(1) \<open>?file \<noteq> []\<close> low(2) hd] low(4) \<open>45 \<in> set ?file\<close> by metis
  moreover have "path_append folder ?low \<notin> set (ancestors (parent_path (path_append folder ?file)))"
  proof
    assume "path_append folder ?low \<in> set (ancestors (parent_path (path_append folder ?file)))"
    from length_ancestors [OF this] parent_path_append [OF chars \<open>?file \<noteq> []\<close>, of folder]
    have "length (path_append folder ?low) \<le> length folder" by linarith
    moreover have "length folder + length ?low \<le> length (path_append folder ?low)"
      using length_path_append(2) [of folder ?low] low(1) by auto
    moreover have "0 < length ?low" using low(1) by (simp only: length_greater_0_conv not_False_eq_True)
    ultimately show False by linarith
  qed
  ultimately have "isExist fs' (makePath folder [?low]) = Inr False"
    using saveToFile_frame(3) [OF save fresh] by (simp add: getFullPath2_def getFullPath_def)
  then show ?thesis by (simp add: wallet_getFullPath_def)
qed

text \<open>The form in which \<open>genPrivateKey\<close> stores a key, and that the password opens it.\<close>

definition stored_key :: "crypto \<Rightarrow> scrypt_env \<Rightarrow> bytes \<Rightarrow> bytes \<Rightarrow> bytes res" where
  "stored_key K env key password =
     (if password \<noteq> [] then rbind (encryptWif K env key password) (\<lambda>w.
        CHECK_TYPED (take 2 w = bs ''6P'') PRIVATE_KEY_ERROR (bs ''Incorrect encrypted wif '' @ w) (Inr w))
      else CHECK_TYPED (take 2 key \<noteq> bs ''6P'') PRIVATE_KEY_ERROR (bs ''Incorrect encrypted wif '' @ key) (Inr key))"

text \<open>What is computed before the file system is touched: the address, and the key as it is stored.\<close>

definition fresh_wallet :: "crypto \<Rightarrow> scrypt_env \<Rightarrow> scrypt_env \<Rightarrow> bool \<Rightarrow> bytes \<Rightarrow> bytes \<Rightarrow> (bytes \<times> bytes) res" where
  "fresh_wallet K env env2 valid printed password =
     rbind (CreateWIF K valid printed False True) (\<lambda>key.
     rbind (Wif.getAddress K key False) (\<lambda>(addr, c).
     CHECK c (bs ''ups'')
     (rbind (stored_key K env key password) (\<lambda>stored.
      rbind (BtcWallet_data K env2 (stored @ WIF_AND_ADDRESS_DELIMITER @ addr) password) (\<lambda>w.
      CHECK_TYPED (address w \<noteq> []) PRIVATE_KEY_ERROR (bs ''dont check private key'')
      (Inr (addr, stored)))))))"

lemma genPrivateKey_eq:
  "genPrivateKey K env env2 fs valid printed folder password =
     (case fresh_wallet K env env2 valid printed password of
        Inl e \<Rightarrow> (Inl e, fs)
      | Inr (addr, stored) \<Rightarrow>
          (case saveToFile fs (makePath folder [convertAddressToFileName addr]) (stored @ WIF_AND_ADDRESS_DELIMITER @ addr) of
             (Inl e, fs) \<Rightarrow> (Inl e, fs)
           | (Inr _, fs) \<Rightarrow> (Inr (addr, stored), fs)))"
  by (simp only: genPrivateKey_def fresh_wallet_def stored_key_def Let_def eq_commute [of True] eq_True)
    (simp add: rbind_def CHECK_def CHECK_TYPED_def split: sum.split prod.split)

text \<open>An exception leaves every file as it was; only directories can have been made.\<close>

lemma genPrivateKey_frame:
  assumes "genPrivateKey K env env2 fs valid printed folder password = (r, fs')"
  shows "r = Inl e \<Longrightarrow> files fs' = files fs" and "dirs fs \<subseteq> dirs fs'"
  using assms saveToFile_frame(4,5)
  by (fastforce simp: genPrivateKey_eq split: sum.split_asm prod.split_asm)+

lemma stored_reads:
  assumes "crypto_ok K" and "scrypt_env_ok env" and "scrypt_env_ok env3"
    and create: "CreateWIF K valid printed False True = Inr key"
    and addr: "Wif.getAddress K key False = Inr (addr, True)"
    and stored: "stored_key K env key password = Inr stored"
  shows "decryptWif2 K env3 stored password = Inr key" and "32 \<notin> set stored"
proof -
  obtain sk pub where key: "WIFToPrivkey key = Inr (sk, True)" "ec_pubkey_create K sk = Some pub"
    by (rule getAddress_Inr [OF assms(1) addr])
  note wif = CreateWIF_key [OF assms(1) create key(1)]
  have "decryptWif2 K env3 stored password = Inr key \<and> (\<exists>p. stored = base58 p)"
  proof (cases "password = []")
    case True
    then show ?thesis using stored wif(2) by (auto simp: stored_key_def decryptWif2_def CHECK_TYPED_eq_Inr)
  next
    case False
    obtain e where e: "encryptWif K env key password = Inr e" "take 2 e = bs ''6P''"
      "decryptWif K env3 e password = Inr (wif_text K sk False True)"
      by (rule encrypt_decrypt [OF assms(1,2,3) key])
    moreover have "e = base58
        (encrypted_body K password sk True addr @ take 4 (doubleHash K (encrypted_body K password sk True addr)))"
      using e(1) encryptWif_eq [OF assms(1,2) key(1) addr, of password] by simp
    moreover have "stored = e" using stored e(1,2) False by (simp add: stored_key_def)
    ultimately show ?thesis using False wif(1) by (simp add: decryptWif2_def) blast
  qed
  then show "decryptWif2 K env3 stored password = Inr key" and "32 \<notin> set stored"
    using base58_chars(1) by blast+
qed

lemma generated_opens:
  assumes "crypto_ok K" and "scrypt_env_ok env" and "scrypt_env_ok env3"
    and "genPrivateKey K env env2 fs valid printed folder password = (Inr (addr, stored), fs')"
    and "may_write fs (makePath folder [convertAddressToFileName addr])"
    and "isExist fs (makePath folder [toLower addr]) = Inr False"
  shows "case BtcWallet_file K env3 fs' folder addr password of Inl e \<Rightarrow> False
    | Inr w \<Rightarrow> address w = addr \<and> CreateWIF K valid printed False True = Inr (wif w)"
proof -
  from assms(4) obtain key where create: "CreateWIF K valid printed False True = Inr key"
    and addr: "Wif.getAddress K key False = Inr (addr, True)"
    and stored: "stored_key K env key password = Inr stored"
    and save: "saveToFile fs (makePath folder [convertAddressToFileName addr])
        (stored @ WIF_AND_ADDRESS_DELIMITER @ addr) = (Inr (), fs')"
    unfolding genPrivateKey_eq
    by (auto simp: fresh_wallet_def rbind_eq_Inr CHECK_TYPED_eq_Inr CHECK_eq_Inr split: sum.split_asm prod.split_asm)
  obtain p where a: "addr = base58 p" "addr \<noteq> []" by (metis getAddress_Inr [OF assms(1) addr])
  note reads = stored_reads [OF assms(1,2,3) create addr stored]
  from BtcWallet_data_eq [OF reads(2) a(2) reads(1) addr]
  have "BtcWallet_data K env3 (stored @ WIF_AND_ADDRESS_DELIMITER @ addr) password = Inr \<lparr>wif = key, address = addr\<rparr>" .
  moreover have "loadFile fs' (makePath folder [convertAddressToFileName addr]) = stored @ WIF_AND_ADDRESS_DELIMITER @ addr"
    by (rule saveToFile_frame(2) [OF save refl assms(5)])
  ultimately show ?thesis by (simp add: BtcWallet_file_def file_name [OF save assms(6) a(2,1)] create del: makePath.simps)
qed

text \<open>C4: A generated key is found again. When \<open>genPrivateKey\<close> succeeds, its file could be written, and no
  file under the plain address hides it, then opening the wallet by the returned address and the same
  password yields that address and exactly the key that was generated, encrypted or not.\<close>

theorem wallet_reopens:
  assumes "crypto_ok K" and "scrypt_env_ok env" and "scrypt_env_ok env3"
    and "genPrivateKey K env env2 fs valid printed folder password = (Inr (addr, stored), fs')"
    and "may_write fs (makePath folder [convertAddressToFileName addr])"
    and "isExist fs (makePath folder [toLower addr]) = Inr False"
  shows "case BtcWallet_file K env3 fs' folder addr password of Inl e \<Rightarrow> False
    | Inr w \<Rightarrow> address w = addr \<and> CreateWIF K valid printed False True = Inr (wif w)"
  using assms by (rule generated_opens)

section \<open>Examples\<close>

definition example_env :: wallet_env where
  "example_env = \<lparr>sort_inputs = sort_key utxo_value, before_begin = Some 0\<rparr>"

lemma example_env_ok: "wallet_env_ok example_env" "wallet_env_ok (example_env\<lparr>before_begin := b\<rparr>)"
  by (simp_all add: wallet_env_ok_def example_env_def)

definition example_utxo :: BtcInput where
  "example_utxo = \<lparr>tx_hash = DumpToHexString (replicate 32 9), tx_index = 1,
     scriptPubkey = DumpToHexString (replicate 25 3), utxo_value = 1000\<rparr>"

theorem greedy_covers_witness:
  "(case greedyAlg example_env [example_utxo] 900 of Inl e \<Rightarrow> False
    | Inr chosen \<Rightarrow> mset chosen \<subseteq># mset [example_utxo]
       \<and> (900 \<le> utxo_sum chosen \<or> mset chosen = mset [example_utxo])
       \<and> (\<forall>n < length chosen. utxo_sum (take n chosen) < 900))
   \<and> (case greedyAlg (example_env\<lparr>before_begin := None\<rparr>) [example_utxo] 900 of
        Inl e \<Rightarrow> e = Undefined (bs ''element before begin'') | Inr chosen \<Rightarrow> mset chosen \<subseteq># mset [example_utxo])"
proof -
  have small: "(900 :: int) < 2 ^ 63" "utxo_sum [example_utxo] < 2 ^ 63" by (simp_all add: example_utxo_def)
  show ?thesis
    using greedy_covers [OF example_env_ok(1) small] greedy_covers [OF example_env_ok(2) [of None] small]
    by (simp split: sum.splits) (auto simp: example_env_def)
qed

theorem greedy_reads_before_begin_witness:
  "greedyAlg (example_env\<lparr>before_begin := Some 900\<rparr>) [example_utxo] 900
   = Inl (Undefined (bs ''element before begin''))"
  by (rule greedy_reads_before_begin [OF example_env_ok(2)]) (simp_all add: example_utxo_def example_env_def)

definition example_wallet :: wallet where
  "example_wallet = \<lparr>wif = wif_text example_crypto example_key False True, address = example_address\<rparr>"

lemma example_wallet_key: "WIFToPrivkey (wif example_wallet) = Inr (example_key, True)"
  "ec_pubkey_create example_crypto example_key = Some (example_key @ example_key)"
  using WIFToPrivkey_wif_text [OF crypto_ok_example, of example_key False True]
  by (simp_all add: example_wallet_def example_key_def) (simp add: example_crypto_def)

lemma example_utxos_ok: "utxos_ok [example_utxo]"
  by (simp add: utxos_ok_def example_utxo_def length_DumpToHexString)

lemma example_to_inputs: "to_inputs example_wallet [example_utxo] = Inr [example_input]"
  using HexStringToDump_DumpToHexString [of "replicate 25 3"] HexStringToDump_DumpToHexString [of "replicate 32 9"]
  by (simp add: example_utxo_def example_input_def example_wallet_def)

lemma example_checkAddress: "checkAddressBase56 example_crypto example_address = Inr ()"
  using crypto_lengths [OF crypto_ok_example]
  by (simp add: checkAddressBase56_eq [OF crypto_ok_example] example_address_def address_bytes_def pubkey_hash_def
      Let_def DecodeBase58_base58)

lemma example_encode:
  "\<exists>tx. encode example_crypto example_env example_wallet False 500 400 example_address [example_utxo]
      = Inr (tx, {tx_hash example_utxo}) \<and> tx \<noteq> [] \<and> calcSizeTransaction tx \<le> 310"
proof -
  obtain raw where raw: "BuildBTCTransaction example_crypto [example_input] 400 500 example_address False = Inr raw"
    using example_sent [of 500 400] by auto
  have "unat (500::u64) + unat (400::u64) \<le> (\<Sum>i\<leftarrow>[example_input]. unat (in_value i))"
    "(\<Sum>i\<leftarrow>[example_input]. unat (in_value i)) < 2 ^ 64"
    unfolding example_input_simps by simp_all
  from sent_conserved [OF crypto_ok_example example_input_simps(1,2,6) script_example this
      example_input_simps(3) raw]
  have size: "raw \<noteq> []" "length raw \<le> 310" by auto
  have "greedyAlg example_env [example_utxo] 900 = Inr [example_utxo]"
    by (simp add: greedyAlg_def greedy_loop.simps greedy_pick_def upper_bound_def example_env_def example_utxo_def
        i64_def Let_def)
  moreover have "genTransaction example_crypto example_wallet [example_utxo] 500 400 example_address False
      = Inr (DumpToHexString raw)"
    using raw by (simp only: genTransaction_def example_checkAddress example_to_inputs rbind_simps)
  moreover have "utxo_value example_utxo = 1000" by (simp add: example_utxo_def)
  moreover have "length (DumpToHexString raw) = 2 * length raw"
    using size(2) by (intro length_DumpToHexString) simp
  then have "DumpToHexString raw \<noteq> []" "calcSizeTransaction (DumpToHexString raw) \<le> 310"
    using size by (auto simp: calcSizeTransaction_def)
  ultimately show ?thesis by (simp add: encode_def i64_def Let_def)
qed

lemma int_distance_eq: "a < 2 ^ 31 \<Longrightarrow> b < 2 ^ 31 \<Longrightarrow> int_distance a b = Inr \<bar>int a - int b\<bar>"
  by (simp add: int_distance_def Let_def sint_u32_small)

lemma stoll_example: "stoll (bs ''500'') = Inr 500" "stoll (bs ''400'') = Inr 400"
  by (simp_all add: stoll_def sto_range_def strto_decimal_def bs_def c_str_def isspace_def is_digit_def Let_def)

lemma example_build:
  "\<exists>tx used. buildTransaction example_crypto example_env example_wallet [example_utxo] 1 (bs ''500'') (bs ''400'')
      example_address = Inr (tx, used)"
proof -
  obtain tx where enc: "encode example_crypto example_env example_wallet False 500 400 example_address [example_utxo]
      = Inr (tx, {tx_hash example_utxo})" and tx: "tx \<noteq> []" "calcSizeTransaction tx \<le> 310"
    using example_encode by blast
  have last: "build_loop (Suc n) example_crypto example_env example_wallet False 500 False 0 example_address [example_utxo]
      400 tx used = Inr (tx, {tx_hash example_utxo})" for n used
    using tx enc by (simp add: Let_def int_distance_eq)
  have "build_loop (Suc (Suc 8)) example_crypto example_env example_wallet False 500 False 0 example_address [example_utxo]
      400 [] {} = Inr (tx, {tx_hash example_utxo})"
    using tx enc last [of 8] unfolding build_loop.simps(2) [of "Suc 8"]
    by (simp add: Let_def int_distance_eq calcSizeTransaction_def [of "[]"] del: build_loop.simps)
  then have "build_loop 10 example_crypto example_env example_wallet False 500 False 0 example_address [example_utxo]
      400 [] {} = Inr (tx, {tx_hash example_utxo})" by (simp only: numeral_eq_Suc pred_numeral_simps) simp
  moreover have "isDecimal (bs ''500'')" "isDecimal (bs ''400'')" "bs ''500'' \<noteq> bs ''all''" "bs ''400'' \<noteq> bs ''auto''"
    by (simp_all add: isDecimal_iff is_digit_def bs_def)
  ultimately show ?thesis using tx(1) stoll_example
    by (simp add: buildTransaction_def del: build_loop.simps)
qed

theorem fee_covers_size_witness:
  "case buildTransaction example_crypto example_env example_wallet [example_utxo] 1 (bs ''500'') (bs ''400'') example_address of
     Inl e \<Rightarrow> False
   | Inr (tx, used) \<Rightarrow> (case HexStringToDump tx of Inl e \<Rightarrow> False
     | Inr raw \<Rightarrow> (case read_tx raw of None \<Rightarrow> False
       | Some (t, rest) \<Rightarrow> rest = [] \<and> (\<exists>chosen. mset chosen \<subseteq># mset [example_utxo] \<and> used = tx_hash ` set chosen
          \<and> map (\<lambda>i. Inr (rev (prev_hash i))) (tx_ins t) = map (\<lambda>u. HexStringToDump (tx_hash u)) chosen
          \<and> (\<Sum>out\<leftarrow>tx_outs t. int (unat (amount out))) + int (length raw) \<le> utxo_sum chosen)))"
proof -
  obtain tx used where run: "buildTransaction example_crypto example_env example_wallet [example_utxo] 1 (bs ''500'')
      (bs ''400'') example_address = Inr (tx, used)" using example_build by blast
  from fee_covers_size [OF crypto_ok_example example_env_ok(1) example_utxos_ok example_wallet_key run]
  show ?thesis unfolding run by (simp only: sum.case prod.case)
qed

definition example_fs :: filesys where
  "example_fs = \<lparr>files = Map.empty, dirs = {}, status_fails = (\<lambda>_. False), may_create = (\<lambda>_. True), may_write = (\<lambda>_. True)\<rparr>"

lemma example_CreateWIF:
  "CreateWIF example_crypto True (DumpToHexString example_key @ bs ''h'') False True = Inr (wif example_wallet)"
proof -
  have hex: "\<forall>d \<in> set (DumpToHexString example_key). d \<in> set hex"
    by (auto simp: DumpToHexString_eq example_key_def hex_def bs_def)
  have len: "length (DumpToHexString example_key) \<le> 64" by (simp add: length_DumpToHexString example_key_def)
  obtain sk where sk: "CreateWIF example_crypto True (DumpToHexString example_key @ bs ''h'') False True
      = Inr (wif_text example_crypto sk False True)" "length sk = 32"
      "DumpToHexString sk = replicate (64 - length (DumpToHexString example_key)) 48 @ DumpToHexString example_key"
    by (rule CreateWIF_eq [OF crypto_ok_example hex len])
  have "length (DumpToHexString example_key) = 64" by (simp add: length_DumpToHexString example_key_def)
  then have "DumpToHexString sk = DumpToHexString example_key" using sk(3) by simp
  then have "sk = example_key"
    using HexStringToDump_DumpToHexString [of sk] HexStringToDump_DumpToHexString [of example_key] sk(2)
    by (simp add: example_key_def)
  then show ?thesis using sk(1) by (simp add: example_wallet_def)
qed

lemma example_saves: "parent_path p \<noteq> [] \<Longrightarrow> \<exists>fs'. saveToFile example_fs p d = (Inr (), fs')"
proof -
  assume folder: "parent_path p \<noteq> []"
  have "\<exists>m. missing_dirs example_fs ds = Inr m" for ds
    by (induction ds) (auto simp: isExist_def example_fs_def)
  then obtain m where m: "missing_dirs example_fs (ancestors (parent_path p)) = Inr m" by blast
  have "\<exists>fs'. make_dirs fs ds = (Inr (), fs')" if "may_create fs = (\<lambda>_. True)" for fs ds
    using that by (induction fs ds rule: make_dirs.induct) auto
  moreover have "may_create example_fs = (\<lambda>_. True)" by (simp add: example_fs_def)
  ultimately obtain fs' where "make_dirs example_fs m = (Inr (), fs')" by blast
  then show ?thesis using folder by (simp add: saveToFile_def createDirectories_def m)
qed

lemma example_generates:
  "\<exists>fs' stored. genPrivateKey example_crypto example_scrypt_env example_scrypt_env example_fs True
      (DumpToHexString example_key @ bs ''h'') (bs ''wallet'') (bs ''secret'') = (Inr (example_address, stored), fs')"
proof -
  have addr: "Wif.getAddress example_crypto (wif example_wallet) False = Inr (example_address, True)"
    using example_getAddress by (simp add: example_wallet_def)
  obtain e where e: "encryptWif example_crypto example_scrypt_env (wif example_wallet) (bs ''secret'') = Inr e"
    "take 2 e = bs ''6P''"
    "decryptWif example_crypto example_scrypt_env e (bs ''secret'') = Inr (wif_text example_crypto example_key False True)"
    by (rule encrypt_decrypt [OF crypto_ok_example scrypt_env_ok_example scrypt_env_ok_example example_wallet_key])
  have dec: "decryptWif2 example_crypto example_scrypt_env e (bs ''secret'') = Inr (wif example_wallet)"
    using e by (simp add: decryptWif2_def bs_def example_wallet_def)
  have "example_address \<noteq> []"
    by (rule getAddress_Inr [OF crypto_ok_example addr])
  moreover have "32 \<notin> set e"
    using e(1) encryptWif_eq [OF crypto_ok_example scrypt_env_ok_example example_wallet_key(1) addr, of "bs ''secret''"]
      base58_chars(1) by fastforce
  ultimately have data: "BtcWallet_data example_crypto example_scrypt_env (e @ WIF_AND_ADDRESS_DELIMITER @ example_address)
      (bs ''secret'') = Inr \<lparr>wif = wif example_wallet, address = example_address\<rparr>"
    using BtcWallet_data_eq [OF _ _ dec addr] by blast
  let ?file = "makePath (bs ''wallet'') [convertAddressToFileName example_address]"
  have "parent_path ?file \<noteq> []"
    unfolding makePath.simps getFullPath2_def getFullPath_def
    by (rule parent_path_nonempty) (simp_all add: bs_def convertAddressToFileName_def toLower_def)
  then obtain fs' where "saveToFile example_fs ?file (e @ WIF_AND_ADDRESS_DELIMITER @ example_address) = (Inr (), fs')"
    using example_saves by blast
  moreover have "bs ''secret'' \<noteq> []" by (simp add: bs_def)
  ultimately show ?thesis
    using e(1,2) data \<open>example_address \<noteq> []\<close>
    unfolding genPrivateKey_def Let_def example_CreateWIF rbind_simps addr prod.case
    by (simp del: makePath.simps)
qed

theorem wallet_reopens_witness:
  "case genPrivateKey example_crypto example_scrypt_env example_scrypt_env example_fs True
      (DumpToHexString example_key @ bs ''h'') (bs ''wallet'') (bs ''secret'') of (Inl e, fs') \<Rightarrow> False
   | (Inr (addr, stored), fs') \<Rightarrow>
      (case BtcWallet_file example_crypto example_scrypt_env fs' (bs ''wallet'') addr (bs ''secret'') of
         Inl e \<Rightarrow> False | Inr w \<Rightarrow> address w = example_address)"
proof -
  obtain fs' stored where run: "genPrivateKey example_crypto example_scrypt_env example_scrypt_env example_fs True
      (DumpToHexString example_key @ bs ''h'') (bs ''wallet'') (bs ''secret'') = (Inr (example_address, stored), fs')"
    using example_generates by blast
  from wallet_reopens [OF crypto_ok_example scrypt_env_ok_example scrypt_env_ok_example run]
  show ?thesis unfolding run by (simp add: example_fs_def isExist_def split: sum.splits)
qed

end
