(* ===== verification/EthTx.thy ===== *)
theory EthTx
  imports StrUtils
begin

text \<open>
  \<open>src/src/ethtx/rlp.cpp\<close> (the list encoding of Ethereum) and \<open>src/src/ethtx/ethtx.cpp\<close> (signing an
  Ethereum transaction), with \<open>SettingsToRLP\<close> of \<open>utils2.cpp\<close>. The encoding is compared with a reader
  written from its definition in the Ethereum yellow paper, whose lengths are big-endian.
\<close>

section \<open>\<open>rlp.cpp\<close>\<close>

fun NumberSize :: "nat \<Rightarrow> nat" where
  "NumberSize val = (if val \<noteq> 0 then Suc (NumberSize (val div 256)) else 0)"

declare NumberSize.simps [simp del]

definition EncodeField :: "bytes \<Rightarrow> bytes" where
  "EncodeField field =
     (let fs = length field
      in if fs = 1 \<and> field ! 0 \<le> 0x7F then (if field ! 0 = 0 then [0x80] else field)
         else if fs \<le> 55 then (0x80 + of_nat fs) # field
         else if 55 < fs \<and> fs < 0xFFFFFFFFFFFFFFFF then
           (let sizelen = NumberSize fs; bigint = IntegerToBuffer (of_nat fs :: u64)
            in (0xB7 + of_nat sizelen) # take sizelen bigint @ field)
         else [])"

definition CalcTotalSize :: "bytes \<Rightarrow> bytes" where
  "CalcTotalSize dump =
     (let ds = length dump
      in if ds \<le> 55 then (0xC0 + of_nat ds) # dump
         else (let sizelen = NumberSize ds; bigint = IntegerToBuffer (of_nat ds :: u64)
               in (0xF7 + of_nat sizelen) # take sizelen bigint @ dump))"

definition RLP :: "bytes list \<Rightarrow> bytes" where
  "RLP fields = (let dump = concat (map EncodeField fields) in CalcTotalSize dump)"

text \<open>The fields are passed by reference: the result is the encoding and the fields afterwards.\<close>

definition SettingsToRLP :: "bytes list \<Rightarrow> bool \<Rightarrow> bytes \<times> bytes list" where
  "SettingsToRLP fields adddefault =
     (let fields = (if adddefault then fields @ [[1], [], []] else fields) in (RLP fields, fields))"

section \<open>The standard's reader\<close>

definition be_value :: "bytes \<Rightarrow> nat" where
  "be_value b = horner_sum unat 256 (rev b)"

definition read_sized :: "nat \<Rightarrow> bytes \<Rightarrow> (bytes \<times> bytes) option" where
  "read_sized n b = (if length b < n then None else Some (take n b, drop n b))"

definition read_long :: "nat \<Rightarrow> bytes \<Rightarrow> (bytes \<times> bytes) option" where
  "read_long k b = (if length b < k then None else read_sized (be_value (take k b)) (drop k b))"

fun read_item :: "bytes \<Rightarrow> (bytes \<times> bytes) option" where
  "read_item [] = None"
| "read_item (b # r) =
     (if b < 0x80 then Some ([b], r)
      else if b \<le> 0xB7 then read_sized (unat b - 0x80) r
      else if b \<le> 0xBF then read_long (unat b - 0xB7) r
      else None)"

fun read_items :: "nat \<Rightarrow> bytes \<Rightarrow> bytes list option" where
  "read_items n [] = Some []"
| "read_items 0 b = None"
| "read_items (Suc n) b =
     (case read_item b of None \<Rightarrow> None | Some (x, r) \<Rightarrow> map_option ((#) x) (read_items n r))"

definition read_list :: "bytes \<Rightarrow> bytes list option" where
  "read_list b =
     (case b of [] \<Rightarrow> None
      | h # r \<Rightarrow>
          (case (if h < 0xC0 then None else if h \<le> 0xF7 then read_sized (unat h - 0xC0) r
                 else read_long (unat h - 0xF7) r) of
             None \<Rightarrow> None
           | Some (payload, rest) \<Rightarrow> if rest = [] then read_items (length payload) payload else None))"

lemma length_gt_55: "\<not> length f \<le> 55 \<Longrightarrow> f \<noteq> []"
  by (cases f) simp_all

lemma NumberSize_small: "0 < n \<Longrightarrow> n < 256 \<Longrightarrow> NumberSize n = 1"
  by (simp add: NumberSize.simps [of n] NumberSize.simps [of 0])

lemma NumberSize_two: "256 \<le> n \<Longrightarrow> n < 65536 \<Longrightarrow> NumberSize n = 2"
proof -
  assume n: "256 \<le> n" "n < 65536"
  then have "0 < n div 256" "n div 256 < 256" by (simp_all add: div_greater_zero_iff)
  from NumberSize_small [OF this] n show ?thesis by (simp add: NumberSize.simps [of n])
qed

lemma buffer_prefix:
  assumes "n < 2 ^ 64"
  shows "take 1 (IntegerToBuffer (of_nat n :: u64)) = [of_nat (n mod 256)]"
    and "take 2 (IntegerToBuffer (of_nat n :: u64)) = [of_nat (n mod 256), of_nat (n div 256 mod 256)]"
proof -
  have u: "unat (of_nat n :: u64) = n" using assms by (simp add: unsigned_of_nat take_bit_nat_eq_self)
  have a: "(ucast ((of_nat n :: u64) mod 256) :: byte) = of_nat (n mod 256)"
  proof (rule word_unat_eq_iff [THEN iffD2])
    show "unat (ucast ((of_nat n :: u64) mod 256) :: byte) = unat (of_nat (n mod 256) :: byte)"
      using unat_ucast_mod_256 [of "of_nat n :: u64"] u by (simp add: unat_of_nat_byte)
  qed
  have b: "(ucast ((of_nat n :: u64) div 256 mod 256) :: byte) = of_nat (n div 256 mod 256)"
  proof (rule word_unat_eq_iff [THEN iffD2])
    show "unat (ucast ((of_nat n :: u64) div 256 mod 256) :: byte) = unat (of_nat (n div 256 mod 256) :: byte)"
      using unat_ucast_mod_256(1) [of "(of_nat n :: u64) div 256"] unat_ucast_mod_256(2) [of "of_nat n :: u64"] u
      by (simp add: unat_of_nat_byte)
  qed
  have eight: "LENGTH(64) div 8 = Suc (Suc 6)" by simp
  have "IntegerToBuffer (of_nat n :: u64) = ucast ((of_nat n :: u64) mod 256)
      # ucast ((of_nat n :: u64) div 256 mod 256) # integer_bytes 6 ((of_nat n :: u64) div 256 div 256)"
    unfolding IntegerToBuffer_def eight integer_bytes.simps ..
  then show "take 1 (IntegerToBuffer (of_nat n :: u64)) = [of_nat (n mod 256)]"
    "take 2 (IntegerToBuffer (of_nat n :: u64)) = [of_nat (n mod 256), of_nat (n div 256 mod 256)]"
    unfolding a b by simp_all
qed

text \<open>Fields of fewer than 256 bytes are read back, except that the one-byte field 0 reads as empty.\<close>

definition rlp_norm :: "bytes \<Rightarrow> bytes" where
  "rlp_norm f = (if f = [0] then [] else f)"

lemma byte_less_eq_iff: "(of_nat a :: byte) \<le> of_nat b \<longleftrightarrow> a \<le> b" if "a < 256" "b < 256"
  using that by (simp add: word_le_nat_alt unat_of_nat_byte)

lemma read_item_EncodeField:
  assumes "length f < 256"
  shows "read_item (EncodeField f @ rest) = Some (rlp_norm f, rest)"
proof (cases "length f = 1 \<and> f ! 0 \<le> 0x7F")
  case True
  then obtain c where f: "f = [c]" "c \<le> 0x7F" by (cases f) auto
  have "c < 0x80" using f(2) by (simp add: word_less_nat_alt word_le_nat_alt)
  then show ?thesis using f
    by (cases "c = 0") (simp_all add: EncodeField_def rlp_norm_def read_sized_def)
next
  case False
  have norm: "rlp_norm f = f" using False by (auto simp: rlp_norm_def)
  show ?thesis
  proof (cases "length f \<le> 55")
    case True
    let ?b = "0x80 + of_nat (length f) :: byte"
    have b: "?b = of_nat (0x80 + length f)" by simp
    have "unat ?b = 0x80 + length f" unfolding b using True by (intro unat_of_nat_byte) simp
    then have "\<not> ?b < 0x80" "?b \<le> 0xB7" "unat ?b - 0x80 = length f"
      using True by (simp_all add: word_less_nat_alt word_le_nat_alt)
    moreover have "EncodeField f = ?b # f" using False True by (auto simp: EncodeField_def Let_def)
    ultimately show ?thesis by (simp add: norm read_sized_def)
  next
    case False
    have len: "55 < length f" "length f < 0xFFFFFFFFFFFFFFFF" using False assms by simp_all
    have "NumberSize (length f) = 1" using False assms by (intro NumberSize_small) (simp_all add: length_gt_55)
    moreover have "take 1 (IntegerToBuffer (of_nat (length f) :: u64)) = [of_nat (length f)]"
      using buffer_prefix(1) [of "length f"] assms by simp
    ultimately have "EncodeField f = 0xB8 # of_nat (length f) # f"
      using \<open>\<not> (length f = 1 \<and> f ! 0 \<le> 0x7F)\<close> len by (simp add: EncodeField_def Let_def)
    moreover have "be_value [of_nat (length f)] = length f"
      using assms by (simp add: be_value_def unat_of_nat_byte)
    ultimately show ?thesis by (simp add: norm read_long_def read_sized_def)
  qed
qed

lemma EncodeField_not_Nil: "length f < 256 \<Longrightarrow> 0 < length (EncodeField f)"
  by (auto simp: EncodeField_def Let_def)

lemma read_items_concat:
  assumes "\<forall>f \<in> set fs. length f < 256" and "length (concat (map EncodeField fs)) \<le> n"
  shows "read_items n (concat (map EncodeField fs)) = Some (map rlp_norm fs)"
  using assms
proof (induction fs arbitrary: n)
  case (Cons f fs)
  let ?rest = "concat (map EncodeField fs)"
  have f: "length f < 256" using Cons.prems(1) by simp
  obtain c r where e: "EncodeField f = c # r" using EncodeField_not_Nil [OF f] by (cases "EncodeField f") auto
  from Cons.prems(2) obtain m where n: "n = Suc m" "length ?rest \<le> m" by (cases n) (auto simp: e)
  have "read_item (c # r @ ?rest) = Some (rlp_norm f, ?rest)"
    using read_item_EncodeField [OF f, of ?rest] by (simp add: e)
  with Cons.IH [OF _ n(2)] Cons.prems(1) show ?case by (simp add: e n(1))
qed simp

lemma read_list_CalcTotalSize:
  assumes "length dump < 256"
  shows "read_list (CalcTotalSize dump) = read_items (length dump) dump"
proof (cases "length dump \<le> 55")
  case True
  let ?b = "0xC0 + of_nat (length dump) :: byte"
  have b: "?b = of_nat (0xC0 + length dump)" by simp
  have "unat ?b = 0xC0 + length dump" unfolding b using True by (intro unat_of_nat_byte) simp
  then have "\<not> ?b < 0xC0" "?b \<le> 0xF7" "unat ?b - 0xC0 = length dump"
    using True by (simp_all add: word_less_nat_alt word_le_nat_alt)
  then show ?thesis using True by (simp add: CalcTotalSize_def read_list_def read_sized_def)
next
  case False
  have "NumberSize (length dump) = 1" using False assms by (intro NumberSize_small) (simp_all add: length_gt_55)
  moreover have "take 1 (IntegerToBuffer (of_nat (length dump) :: u64)) = [of_nat (length dump)]"
    using buffer_prefix(1) [of "length dump"] assms by simp
  ultimately have "CalcTotalSize dump = 0xF8 # of_nat (length dump) # dump"
    using False by (simp add: CalcTotalSize_def Let_def)
  moreover have "be_value [of_nat (length dump)] = length dump" "dump \<noteq> []"
    using assms length_gt_55 [OF False] by (simp_all add: be_value_def unat_of_nat_byte)
  ultimately show ?thesis by (simp add: read_list_def read_long_def read_sized_def)
qed

lemma read_list_RLP:
  assumes "\<forall>f \<in> set fs. length f < 256" and "length (concat (map EncodeField fs)) < 256"
  shows "read_list (RLP fs) = Some (map rlp_norm fs)"
  using read_list_CalcTotalSize [OF assms(2)] read_items_concat [OF assms(1) order_refl]
  by (simp add: RLP_def)

lemma length_EncodeField_le: "length f < 256 \<Longrightarrow> length (EncodeField f) \<le> length f + (if length f \<le> 55 then 1 else 2)"
  using NumberSize_small [of "length f"] length_gt_55 [of f] by (cases "length f \<le> 55") (auto simp: EncodeField_def Let_def)

lemma length_CalcTotalSize_le: "length (CalcTotalSize dump) \<le> length dump + 9"
  by (simp add: CalcTotalSize_def Let_def)

section \<open>\<open>ethtx.cpp\<close>\<close>

text \<open>The libraries: Keccak-256, and secp256k1's recoverable signatures, serialised to 64 bytes and a
  recovery id.\<close>

record eth_lib =
  keccak256 :: "bytes \<Rightarrow> bytes"
  sign_recoverable :: "bytes \<Rightarrow> bytes \<Rightarrow> bytes option"
  serialize_compact :: "bytes \<Rightarrow> (bytes \<times> nat) option"

definition eth_lib_ok :: "eth_lib \<Rightarrow> bool" where
  "eth_lib_ok L \<longleftrightarrow> (\<forall>m. length (keccak256 L m) = 32)
     \<and> (\<forall>sig s v. serialize_compact L sig = Some (s, v) \<longrightarrow> length s = 64 \<and> v < 4)"

definition check_0x :: "bytes \<Rightarrow> bytes \<Rightarrow> 'a res \<Rightarrow> 'a res" where
  "check_0x s message k =
     CHECK_TYPED (str_find (bs ''0x'') s = Some 0) INCORRECT_USER_DATA message k"

definition SignTransaction ::
    "eth_lib \<Rightarrow> bytes \<Rightarrow> bytes \<Rightarrow> bytes \<Rightarrow> bytes \<Rightarrow> bytes \<Rightarrow> bytes \<Rightarrow> bytes \<Rightarrow> bytes res" where
  "SignTransaction L rawprivkey nonce gasPrice gasLimit to val data =
     check_0x nonce (bs ''Incorrect nonce '' @ nonce)
     (check_0x gasPrice (bs ''Incorrect gasPrice '' @ gasPrice)
     (check_0x gasLimit (bs ''Incorrect gasLimit '' @ gasLimit)
     (check_0x to (bs ''Incorrect to '' @ to)
     (CHECK_TYPED (length to = 42) INCORRECT_USER_DATA (bs ''Incorrect to '' @ to)
     (check_0x val (bs ''Incorrect value '' @ val)
     (rbind (if data \<noteq> [] then check_0x data (bs ''Incorrect value '' @ val) (Inr ()) else Inr ()) (\<lambda>_.
      rbind (substr_from nonce 2) (\<lambda>nonce.
      rbind (substr_from gasPrice 2) (\<lambda>gasPrice.
      rbind (substr_from gasLimit 2) (\<lambda>gasLimit.
      rbind (substr_from to 2) (\<lambda>to.
      rbind (substr_from val 2) (\<lambda>val.
      rbind (if data \<noteq> [] then substr_from data 2 else Inr data) (\<lambda>data.
      rbind (HexStringToDump nonce) (\<lambda>n.
      rbind (HexStringToDump gasPrice) (\<lambda>gp.
      rbind (HexStringToDump gasLimit) (\<lambda>gl.
      rbind (HexStringToDump to) (\<lambda>t.
      rbind (HexStringToDump val) (\<lambda>vl.
      rbind (HexStringToDump data) (\<lambda>d.
      let settings = [n, gp, gl, t, vl, d];
          (rlp, settings) = SettingsToRLP settings True;
          hs = keccak256 L rlp
      in rbind (read_c_str 32 rawprivkey) (\<lambda>seckey.
         case sign_recoverable L hs seckey of
           None \<Rightarrow> Inl (TypedException DONT_SIGN (bs ''secp256k1_ecdsa_sign_recoverable error''))
         | Some rawSig \<Rightarrow> (case serialize_compact L rawSig of
             None \<Rightarrow> Inl (TypedException DONT_SIGN
               (bs ''secp256k1_ecdsa_recoverable_signature_serialize_compact error''))
           | Some (signature, v) \<Rightarrow>
             (let v = (if v = 0 \<or> v = 1 then v + 37 else v);
                  settings = butlast (butlast (butlast settings));
                  settings = settings @ [[of_nat v], take 32 signature, take 32 (drop 32 signature)];
                  (transaction, settings) = SettingsToRLP settings False
              in Inr (bs ''0x'' @ DumpToHexString transaction)))))))))))))))))))))))"

definition createHashTx :: "eth_lib \<Rightarrow> bytes \<Rightarrow> bytes" where
  "createHashTx L tx = keccak256 L tx"

section \<open>Properties\<close>

text \<open>C19: For fields below 256 bytes that together take fewer than 256, the standard's reader gets back
  the fields that \<open>RLP\<close> encoded, except that a field of the single byte 0 is read as the empty field
  (which is how the standard writes the number 0).\<close>

theorem rlp_roundtrip:
  assumes "list_all (\<lambda>f. length f < 256) fs" and "length (concat (map EncodeField fs)) < 256"
  shows "read_list (RLP fs) = Some (map rlp_norm fs)"
  using assms read_list_RLP by (simp add: list_all_iff)

theorem rlp_roundtrip_witness:
  "read_list (RLP [[0], [1], replicate 60 7]) = Some [[], [1], replicate 60 7]"
  using rlp_roundtrip [of "[[0], [1], replicate 60 7]"]
  by (simp add: EncodeField_def Let_def NumberSize_small rlp_norm_def) (simp add: numeral_eq_Suc)

text \<open>C39: A field of 256 to 65535 bytes gets its two length bytes in the wrong order: the standard's
  reader does not read it back, unless the two bytes happen to be equal.\<close>

theorem rlp_long_field:
  assumes "256 \<le> length field" and "length field < 65536" and "length field mod 256 \<noteq> length field div 256"
  shows "read_item (EncodeField field) \<noteq> Some (field, [])"
proof -
  let ?n = "length field"
  have small: "?n div 256 < 256" using assms(2) by simp
  have "take 2 (IntegerToBuffer (of_nat ?n :: u64)) = [of_nat (?n mod 256), of_nat (?n div 256)]"
    using buffer_prefix(2) [of ?n] assms(2) small by simp
  moreover have "NumberSize ?n = 2" using assms(1,2) by (rule NumberSize_two)
  ultimately have enc: "EncodeField field = 0xB9 # of_nat (?n mod 256) # of_nat (?n div 256) # field"
    using assms(1,2) by (simp add: EncodeField_def Let_def)
  have val: "be_value [of_nat (?n mod 256), of_nat (?n div 256)] = ?n div 256 + 256 * (?n mod 256)"
    using small by (simp add: be_value_def unat_of_nat_byte)
  have "?n div 256 + 256 * (?n mod 256) \<noteq> ?n"
  proof
    assume "?n div 256 + 256 * (?n mod 256) = ?n"
    moreover have "256 * (?n div 256) + ?n mod 256 = ?n" by simp
    ultimately show False using assms(3) by linarith
  qed
  then show ?thesis
    unfolding enc by (auto simp: read_long_def val read_sized_def)
qed

theorem rlp_long_field_witness:
  "read_item (EncodeField (replicate 256 7)) \<noteq> Some (replicate 256 7, [])"
  by (rule rlp_long_field) simp_all

lemma length_HexStringToDump_drop2:
  "length s \<le> 66 \<Longrightarrow> HexStringToDump (drop 2 s) = Inr d \<Longrightarrow> length d \<le> 32"
  using length_HexStringToDump [of "drop 2 s" d] by simp

lemma drop_three: "butlast (butlast (butlast [a, b, c, d, e, f, x, y, z])) = [a, b, c, d, e, f]"
  by simp

text \<open>A transaction that was signed: what was read from the arguments, and what is printed.\<close>

lemma SignTransaction_Inr:
  assumes "SignTransaction L key nonce gasPrice gasLimit to val data = Inr tx"
  obtains sk n gp gl t vl d sig s v where "read_c_str 32 key = Inr sk"
    "HexStringToDump (drop 2 nonce) = Inr n" "HexStringToDump (drop 2 gasPrice) = Inr gp"
    "HexStringToDump (drop 2 gasLimit) = Inr gl" "HexStringToDump (drop 2 to) = Inr t"
    "HexStringToDump (drop 2 val) = Inr vl" "HexStringToDump (drop 2 data) = Inr d" "length to = 42"
    "sign_recoverable L (keccak256 L (RLP [n, gp, gl, t, vl, d, [1], [], []])) sk = Some sig"
    "serialize_compact L sig = Some (s, v)"
    "tx = bs ''0x'' @ DumpToHexString (RLP [n, gp, gl, t, vl, d,
      [of_nat (if v = 0 \<or> v = 1 then v + 37 else v)], take 32 s, take 32 (drop 32 s)])"
proof -
  have data: "HexStringToDump d = HexStringToDump (drop 2 data)"
    if "(if data \<noteq> [] then substr_from data 2 else Inr data) = Inr d" for d
    using that by (auto simp: res_simps split: if_split_asm)
  from assms obtain sk n gp gl t vl d d' where sk: "read_c_str 32 key = Inr sk" and d': "(if data \<noteq> [] then substr_from data 2 else Inr data) = Inr d'"
    "HexStringToDump d' = Inr d" and
    hex: "HexStringToDump (drop 2 nonce) = Inr n" "HexStringToDump (drop 2 gasPrice) = Inr gp"
      "HexStringToDump (drop 2 gasLimit) = Inr gl" "HexStringToDump (drop 2 to) = Inr t"
      "HexStringToDump (drop 2 val) = Inr vl" "length to = 42"
    and signed: "(case sign_recoverable L (keccak256 L (RLP [n, gp, gl, t, vl, d, [1], [], []])) sk of
           None \<Rightarrow> Inl (TypedException DONT_SIGN (bs ''secp256k1_ecdsa_sign_recoverable error''))
         | Some rawSig \<Rightarrow> (case serialize_compact L rawSig of
             None \<Rightarrow> Inl (TypedException DONT_SIGN
               (bs ''secp256k1_ecdsa_recoverable_signature_serialize_compact error''))
           | Some (signature, v) \<Rightarrow> Inr (bs ''0x'' @ DumpToHexString (RLP [n, gp, gl, t, vl, d,
               [of_nat (if v = 0 \<or> v = 1 then v + 37 else v)], take 32 signature, take 32 (drop 32 signature)])))) = Inr tx"
    unfolding SignTransaction_def check_0x_def rbind_eq_Inr CHECK_TYPED_eq_Inr SettingsToRLP_def Let_def prod.case
      if_True if_False append.simps drop_three
    by (auto simp: substr_from_eq_Inr)
  from signed obtain sig where sig: "sign_recoverable L (keccak256 L (RLP [n, gp, gl, t, vl, d, [1], [], []])) sk = Some sig"
    by (cases "sign_recoverable L (keccak256 L (RLP [n, gp, gl, t, vl, d, [1], [], []])) sk") simp_all
  with signed obtain s v where sv: "serialize_compact L sig = Some (s, v)"
    and tx: "tx = bs ''0x'' @ DumpToHexString (RLP [n, gp, gl, t, vl, d,
      [of_nat (if v = 0 \<or> v = 1 then v + 37 else v)], take 32 s, take 32 (drop 32 s)])"
    by (cases "serialize_compact L sig") (auto simp del: of_nat_add)
  have "HexStringToDump (drop 2 data) = Inr d" using data [OF d'(1)] d'(2) by simp
  with sk hex sig sv tx show thesis using that by blast
qed

text \<open>The nine fields of a signed transaction are short enough to be read back.\<close>

lemma read_signed_fields:
  assumes ds: "ds = [n, gp, gl, t, vl, d]" "\<forall>f \<in> set ds. length f \<le> 32" and t: "length t = 20"
    and s: "length x = 32" "length y = 32" and v: "v \<in> {2, 3, 37, 38 :: nat}"
  defines "fs \<equiv> ds @ [[of_nat v], x, y]"
  shows "read_list (RLP fs) = Some (map rlp_norm ds @ [[of_nat v], x, y])" and "length (RLP fs) < 2 ^ 30"
proof -
  have small: "\<forall>f \<in> set fs. length f < 256" using ds(2) s by (auto simp: fs_def)
  have field: "length (EncodeField f) \<le> length f + 1" if "length f \<le> 32" for f
    using length_EncodeField_le [of f] that by simp
  have one: "length (EncodeField [of_nat v]) = 1" using v by (auto simp: EncodeField_def)
  have len: "length n \<le> 32" "length gp \<le> 32" "length gl \<le> 32" "length vl \<le> 32" "length d \<le> 32"
    using ds by simp_all
  have total: "length (concat (map EncodeField fs)) < 256"
    using len [THEN field] field [of t] field [of x] field [of y] one len t s by (simp add: fs_def ds(1))
  have "length (RLP fs) < 300"
    using length_CalcTotalSize_le [of "concat (map EncodeField fs)"] total unfolding RLP_def Let_def by linarith
  then show "length (RLP fs) < 2 ^ 30" by simp
  have "[of_nat v :: byte] \<noteq> [0]" using v by auto
  then have "rlp_norm x = x" "rlp_norm y = y" "rlp_norm [of_nat v] = [of_nat v]"
    using s by (auto simp: rlp_norm_def dest: arg_cong [of _ _ length])
  then show "read_list (RLP fs) = Some (map rlp_norm ds @ [[of_nat v], x, y])"
    using read_list_RLP [OF small total] by (simp add: fs_def)
qed

text \<open>C18: What \<open>SignTransaction\<close> returns is, in hexadecimal, the list of the six numbers it was given,
  the recovery id plus 37 (chain 1) and the two halves of the signature; the signature is that of
  the hash of the six numbers with \<open>1\<close>, \<open>0\<close>, \<open>0\<close> in place of the signature, under the 32 bytes that are read of the
  key. This is for arguments of at most 66 characters, \<open>0x\<close> and 32 bytes, the data among them: longer data is
  what \<open>rlp_long_field\<close> is about.\<close>

theorem eth_transaction_reads_back:
  assumes "eth_lib_ok L"
    and "SignTransaction L key nonce gasPrice gasLimit to val data = Inr tx"
    and "length nonce \<le> 66" "length gasPrice \<le> 66" "length gasLimit \<le> 66" "length val \<le> 66" "length data \<le> 66"
  shows "\<exists>sk ds raw sig s v. read_c_str 32 key = Inr sk
    \<and> map (HexStringToDump \<circ> drop 2) [nonce, gasPrice, gasLimit, to, val, data] = map Inr ds
    \<and> sign_recoverable L (keccak256 L (RLP (ds @ [[1], [], []]))) sk = Some sig
    \<and> serialize_compact L sig = Some (s, v)
    \<and> take 2 tx = bs ''0x'' \<and> HexStringToDump (drop 2 tx) = Inr raw
    \<and> read_list raw = Some (map rlp_norm ds @ [[of_nat (if v < 2 then v + 37 else v)], take 32 s, drop 32 s])"
proof -
  from assms(2) obtain sk n gp gl t vl d sig s v where sk: "read_c_str 32 key = Inr sk"
    and hex: "HexStringToDump (drop 2 nonce) = Inr n" "HexStringToDump (drop 2 gasPrice) = Inr gp"
      "HexStringToDump (drop 2 gasLimit) = Inr gl" "HexStringToDump (drop 2 to) = Inr t"
      "HexStringToDump (drop 2 val) = Inr vl" "HexStringToDump (drop 2 data) = Inr d" "length to = 42"
    and sig: "sign_recoverable L (keccak256 L (RLP [n, gp, gl, t, vl, d, [1], [], []])) sk = Some sig"
      "serialize_compact L sig = Some (s, v)"
    and tx: "tx = bs ''0x'' @ DumpToHexString (RLP [n, gp, gl, t, vl, d,
      [of_nat (if v = 0 \<or> v = 1 then v + 37 else v)], take 32 s, take 32 (drop 32 s)])"
    by (rule SignTransaction_Inr)
  have s: "length s = 64" "v < 4" using assms(1) sig(2) by (auto simp: eth_lib_ok_def)
  define v' where "v' = (if v < 2 then v + 37 else v)"
  have v': "(if v = 0 \<or> v = 1 then v + 37 else v) = v'" "v' \<in> {2, 3, 37, 38}" using s(2) by (auto simp: v'_def)
  have t: "length t = 20" using length_HexStringToDump [OF _ hex(4)] hex(7) by simp
  have "\<forall>f \<in> set [n, gp, gl, t, vl, d]. length f \<le> 32"
    using length_HexStringToDump_drop2 [OF assms(3) hex(1)] length_HexStringToDump_drop2 [OF assms(4) hex(2)]
      length_HexStringToDump_drop2 [OF assms(5) hex(3)] length_HexStringToDump_drop2 [OF assms(6) hex(5)]
      length_HexStringToDump_drop2 [OF assms(7) hex(6)] t by simp
  note fields = read_signed_fields [OF refl this t _ _ v'(2), of "take 32 s" "drop 32 s"]
  have "HexStringToDump (drop 2 tx) = Inr (RLP ([n, gp, gl, t, vl, d] @ [[of_nat v'], take 32 s, drop 32 s]))"
    "take 2 tx = bs ''0x''"
    using s fields(2) unfolding tx v' by (simp_all add: HexStringToDump_DumpToHexString)
  with sk hex sig fields(1) s show ?thesis unfolding v'_def
    by (intro exI [of _ sk] exI [of _ "[n, gp, gl, t, vl, d]"] exI conjI) simp_all
qed

definition example_eth :: eth_lib where
  "example_eth = \<lparr>keccak256 = (\<lambda>m. replicate 32 (of_nat (length m))),
     sign_recoverable = (\<lambda>h k. Some (h @ k)), serialize_compact = (\<lambda>sig. Some (take 64 (sig @ replicate 64 0), 1))\<rparr>"

lemma hex_example: "HexStringToDump (bs ''01'') = Inr [1]" "HexStringToDump [] = Inr []"
  by (subst HexStringToDump_eq; simp add: bs_def hex_nibble_def push_bit_eq_mult)+

lemma hex_example_to: "HexStringToDump (DumpToHexString (replicate 20 0x11)) = Inr (replicate 20 0x11)"
  "length (DumpToHexString (replicate 20 0x11)) = 40"
  by (rule HexStringToDump_DumpToHexString, simp) (simp add: length_DumpToHexString)

theorem eth_transaction_reads_back_witness:
  "case SignTransaction example_eth (replicate 32 7) (bs ''0x01'') (bs ''0x01'') (bs ''0x01'') (bs ''0x'' @ DumpToHexString (replicate 20 0x11))
      (bs ''0x01'') [] of
     Inl e \<Rightarrow> False
   | Inr tx \<Rightarrow> (\<exists>raw fs. HexStringToDump (drop 2 tx) = Inr raw \<and> read_list raw = Some fs \<and> fs ! 6 = [38])"
proof -
  have "\<exists>tx. SignTransaction example_eth (replicate 32 7) (bs ''0x01'') (bs ''0x01'') (bs ''0x01'') (bs ''0x'' @ DumpToHexString (replicate 20 0x11))
      (bs ''0x01'') [] = Inr tx"
    using hex_example hex_example_to by (simp add: SignTransaction_def check_0x_def bs_def substr_from_def SettingsToRLP_def
        Let_def example_eth_def)
  then obtain tx where tx: "SignTransaction example_eth (replicate 32 7) (bs ''0x01'') (bs ''0x01'') (bs ''0x01'')
      (bs ''0x'' @ DumpToHexString (replicate 20 0x11)) (bs ''0x01'') [] = Inr tx" by blast
  have "eth_lib_ok example_eth" by (auto simp: eth_lib_ok_def example_eth_def min_def)
  from eth_transaction_reads_back [OF this tx]
  have "\<exists>sk ds raw sig s v. read_c_str 32 (replicate 32 7) = Inr sk \<and> map (HexStringToDump \<circ> drop 2)
        [bs ''0x01'', bs ''0x01'', bs ''0x01'', bs ''0x'' @ DumpToHexString (replicate 20 0x11), bs ''0x01'', []] = map Inr ds
      \<and> sign_recoverable example_eth (keccak256 example_eth (RLP (ds @ [[1], [], []]))) sk = Some sig
      \<and> serialize_compact example_eth sig = Some (s, v)
      \<and> take 2 tx = bs ''0x'' \<and> HexStringToDump (drop 2 tx) = Inr raw
      \<and> read_list raw = Some (map rlp_norm ds @ [[of_nat (if v < 2 then v + 37 else v)], take 32 s, drop 32 s])"
    by (simp only: length_bs) simp
  then obtain ds raw sig s v where ds: "map (HexStringToDump \<circ> drop 2)
        [bs ''0x01'', bs ''0x01'', bs ''0x01'', bs ''0x'' @ DumpToHexString (replicate 20 0x11), bs ''0x01'', []] = map Inr ds"
    and sig: "serialize_compact example_eth sig = Some (s, v)" and raw: "HexStringToDump (drop 2 tx) = Inr raw"
    and fs: "read_list raw = Some (map rlp_norm ds @ [[of_nat (if v < 2 then v + 37 else v)], take 32 s, drop 32 s])"
    by blast
  have "length ds = 6" using arg_cong [OF ds, of length] by simp
  moreover have "v = 1" using sig by (simp add: example_eth_def)
  ultimately have "(map rlp_norm ds @ [[of_nat (if v < 2 then v + 37 else v)], take 32 s, drop 32 s]) ! 6 = [38]"
    by (simp add: nth_append)
  with raw fs show ?thesis unfolding tx sum.case by blast
qed

end
