(* ===== verification/JsonRpc.thy ===== *)
theory JsonRpc
  imports StrUtils
begin

text \<open>
  \<open>src/src/json_rpc.h\<close> and \<open>json_rpc.cpp\<close>: reading a JSON-RPC request or response, writing one, and
  the conversions of a JSON value to text and to hexadecimal.

  RapidJSON and GMP are parameters: a record with the parser, the printer and GMP's conversions. A
  JSON value is the datatype below; an integer is kept as such (the library tells the C++ types it
  fits), any other number by the text \<open>operator<<\<close> prints for it. Members keep their order and may
  repeat; the first one of a name is found. Looking up a member of a value that is not an object is
  outside RapidJSON's contract (its assertion is compiled out in a release build): an outcome of its
  own.
\<close>

section \<open>JSON values\<close>

datatype json =
    JNull
  | JBool bool
  | JInt int
  | JDouble bytes
  | JString bytes
  | JArray "json list"
  | JObject "(bytes \<times> json) list"

datatype rj_type = kNullType | kFalseType | kTrueType | kObjectType | kArrayType | kStringType | kNumberType

fun GetType :: "json \<Rightarrow> rj_type" where
  "GetType JNull = kNullType"
| "GetType (JBool b) = (if b then kTrueType else kFalseType)"
| "GetType (JInt i) = kNumberType"
| "GetType (JDouble d) = kNumberType"
| "GetType (JString s) = kStringType"
| "GetType (JArray xs) = kArrayType"
| "GetType (JObject ms) = kObjectType"

text \<open>\<open>rapidjson::Value (type)\<close>\<close>

fun new_value :: "rj_type \<Rightarrow> json" where
  "new_value kNullType = JNull"
| "new_value kFalseType = JBool False"
| "new_value kTrueType = JBool True"
| "new_value kObjectType = JObject []"
| "new_value kArrayType = JArray []"
| "new_value kStringType = JString []"
| "new_value kNumberType = JInt 0"

definition IsInt :: "int \<Rightarrow> bool" where "IsInt i \<longleftrightarrow> - (2 ^ 31) \<le> i \<and> i < 2 ^ 31"
definition IsUint :: "int \<Rightarrow> bool" where "IsUint i \<longleftrightarrow> 0 \<le> i \<and> i < 2 ^ 32"

fun IsObject :: "json \<Rightarrow> bool" where
  "IsObject (JObject ms) = True"
| "IsObject _ = False"

record json_lib =
  parse_json :: "bytes \<Rightarrow> json option"
  print_json :: "json \<Rightarrow> bytes"
  mpz_parse :: "bytes \<Rightarrow> int option"   \<comment> \<open>\<open>mpz_class (s, 10)\<close>; \<open>None\<close>: \<open>std::invalid_argument\<close>\<close>
  mpz_hex :: "int \<Rightarrow> bytes"              \<comment> \<open>\<open>get_str (16)\<close>\<close>

section \<open>\<open>json_rpc_reader\<close>\<close>

text \<open>\<open>get\<close>: \<open>None\<close> is the null pointer.\<close>

definition get :: "bytes \<Rightarrow> json \<Rightarrow> json option res" where
  "get name root =
     (case root of JObject ms \<Rightarrow> Inr (map_of ms name)
      | _ \<Rightarrow> Inl (Undefined (bs ''FindMember: not an object'')))"

definition reader_parse :: "json_lib \<Rightarrow> bytes \<Rightarrow> json option" where
  "reader_parse L text = parse_json L (c_str text)"

definition stringify :: "json_lib \<Rightarrow> json \<Rightarrow> bytes" where
  "stringify L doc = c_str (print_json L doc)"

definition get_id :: "json \<Rightarrow> u32 res" where
  "get_id doc =
     rbind (get (bs ''id'') doc) (\<lambda>id.
     case id of
       None \<Rightarrow> Inr 0
     | Some (JString s) \<Rightarrow> rbind (stoi (c_str s)) (\<lambda>i. Inr (of_int i))
     | Some (JInt i) \<Rightarrow> Inr (if IsInt i then of_int i else if IsUint i then of_int i else 0)
     | Some _ \<Rightarrow> Inr 0)"

text \<open>\<open>get_value\<close> for a string.\<close>

definition get_string :: "bytes \<Rightarrow> json \<Rightarrow> bytes option" where
  "get_string name root =
     (case root of
        JObject ms \<Rightarrow> (case map_of ms name of Some (JString s) \<Rightarrow> Some s | _ \<Rightarrow> None)
      | _ \<Rightarrow> None)"

definition get_method :: "json \<Rightarrow> bytes" where
  "get_method doc = (case get_string (bs ''method'') doc of None \<Rightarrow> [] | Some s \<Rightarrow> s)"

definition get_error :: "json \<Rightarrow> json option res" where "get_error = get (bs ''error'')"
definition get_result :: "json \<Rightarrow> json option res" where "get_result = get (bs ''result'')"
definition get_params :: "json \<Rightarrow> json option res" where "get_params = get (bs ''params'')"

section \<open>\<open>json_rpc_writer\<close>\<close>

fun has_member :: "bytes \<Rightarrow> (bytes \<times> json) list \<Rightarrow> bool" where
  "has_member name [] = False"
| "has_member name ((n, v) # ms) = (n = name \<or> has_member name ms)"

fun put_member :: "bytes \<Rightarrow> json \<Rightarrow> (bytes \<times> json) list \<Rightarrow> (bytes \<times> json) list" where
  "put_member name v [] = [(name, v)]"
| "put_member name v ((n, w) # ms) = (if n = name then (n, v) # ms else (n, w) # put_member name v ms)"

text \<open>\<open>get_value (root, name, Type)\<close> returns a reference. Assigning through it is \<open>set_value\<close>; reading
  it, with the member created when it is missing, is \<open>get_value\<close>.\<close>

definition get_value :: "json \<Rightarrow> bytes \<Rightarrow> rj_type \<Rightarrow> (json \<times> json) res" where
  "get_value root name type =
     (case root of
        JObject ms \<Rightarrow>
          (case map_of ms name of
             Some v \<Rightarrow> Inr (root, v)
           | None \<Rightarrow> Inr (JObject (ms @ [(name, new_value type)]), new_value type))
      | _ \<Rightarrow> Inl (Undefined (bs ''FindMember: not an object'')))"

definition set_value :: "json \<Rightarrow> bytes \<Rightarrow> json \<Rightarrow> json res" where
  "set_value root name v =
     (case root of
        JObject ms \<Rightarrow> Inr (JObject (put_member name v ms))
      | _ \<Rightarrow> Inl (Undefined (bs ''FindMember: not an object'')))"

definition json_rpc_ver :: bytes where "json_rpc_ver = bs ''2.0''"

definition writer_reset :: "json \<Rightarrow> json" where
  "writer_reset doc =
     (let id = (case doc of JObject ms \<Rightarrow> (case map_of ms (bs ''id'') of Some v \<Rightarrow> v | None \<Rightarrow> JNull) | _ \<Rightarrow> JNull)
      in JObject (put_member (bs ''id'') id (put_member (bs ''jsonrpc'') (JString json_rpc_ver) [])))"

definition new_writer :: json where "new_writer = writer_reset JNull"

text \<open>A text that does not parse leaves the document as it was.\<close>

definition writer_parse :: "json_lib \<Rightarrow> json \<Rightarrow> bytes \<Rightarrow> json \<times> bool" where
  "writer_parse L doc text =
     (case parse_json L (c_str text) of None \<Rightarrow> (doc, False) | Some v \<Rightarrow> (v, True))"

definition set_method :: "json \<Rightarrow> bytes \<Rightarrow> json res" where
  "set_method doc v = set_value doc (bs ''method'') (JString v)"

definition set_result :: "json \<Rightarrow> json \<Rightarrow> json res" where
  "set_result doc v = set_value doc (bs ''result'') v"

definition add :: "json \<Rightarrow> bytes \<Rightarrow> json \<Rightarrow> json res" where
  "add doc name v = set_value doc name v"

definition add_value :: "json \<Rightarrow> bytes \<Rightarrow> json \<Rightarrow> json res" where
  "add_value doc name v = set_value doc name v"

definition add_in :: "bytes \<Rightarrow> json \<Rightarrow> bytes \<Rightarrow> json \<Rightarrow> json res" where
  "add_in outer doc name v =
     rbind (get_value doc outer kObjectType) (\<lambda>(doc, obj).
     rbind (set_value obj name v) (\<lambda>obj. set_value doc outer obj))"

definition add_result :: "json \<Rightarrow> bytes \<Rightarrow> json \<Rightarrow> json res" where "add_result = add_in (bs ''result'')"
definition add_param :: "json \<Rightarrow> bytes \<Rightarrow> json \<Rightarrow> json res" where "add_param = add_in (bs ''params'')"

definition set_error :: "json \<Rightarrow> int \<Rightarrow> bytes \<Rightarrow> json res" where
  "set_error doc code message =
     set_value doc (bs ''error'') (JObject [(bs ''code'', JInt code), (bs ''message'', JString message)])"

definition set_error_value :: "json \<Rightarrow> json \<Rightarrow> json res" where
  "set_error_value doc v = set_value doc (bs ''error'') v"

definition set_id :: "json \<Rightarrow> u32 \<Rightarrow> json res" where
  "set_id doc v = set_value doc (bs ''id'') (if v = 0 then JNull else JInt (uint v))"

definition is_error :: "json \<Rightarrow> bool res" where
  "is_error doc =
     (case doc of JObject ms \<Rightarrow> Inr (has_member (bs ''error'') ms)
      | _ \<Rightarrow> Inl (Undefined (bs ''FindMember: not an object'')))"

text \<open>\<open>get_params\<close> of the writer returns a reference that the callers turn into an array and fill.\<close>

definition set_params :: "json \<Rightarrow> json \<Rightarrow> json res" where
  "set_params doc v = rbind (get_value doc (bs ''params'') kObjectType) (\<lambda>(doc, _). set_value doc (bs ''params'') v)"

definition push_back :: "json \<Rightarrow> json \<Rightarrow> json res" where
  "push_back arr v =
     (case arr of JArray xs \<Rightarrow> Inr (JArray (xs @ [v])) | _ \<Rightarrow> Inl (Undefined (bs ''PushBack: not an array'')))"

section \<open>\<open>json_utils\<close>\<close>

definition val2str :: "json option \<Rightarrow> bytes option" where
  "val2str v =
     (case v of
        None \<Rightarrow> None
      | Some (JString s) \<Rightarrow> Some (c_str s)
      | Some (JInt i) \<Rightarrow> Some (to_string i)
      | Some (JDouble d) \<Rightarrow> Some d
      | Some _ \<Rightarrow> None)"

text \<open>\<open>Inr None\<close> is \<open>return false\<close>.\<close>

definition val2hex :: "json_lib \<Rightarrow> json option \<Rightarrow> bytes option res" where
  "val2hex L v =
     (case val2str v of
        None \<Rightarrow> Inr None
      | Some tmp \<Rightarrow>
          if tmp = [] then Inr None
          else if take 2 tmp \<noteq> bs ''0x'' then
            (case mpz_parse L tmp of
               None \<Rightarrow> Inl (StdException InvalidArgument)
             | Some mpz \<Rightarrow> Inr (Some (bs ''0x'' @ mpz_hex L mpz)))
          else Inr (Some tmp))"

section \<open>Facts\<close>

lemma map_of_put_member: "map_of (put_member name v ms) n = (if n = name then Some v else map_of ms n)"
  by (induction ms) auto

lemma has_member_iff: "has_member name ms \<longleftrightarrow> name \<in> fst ` set ms"
  by (induction ms) auto

lemma has_member_map_of: "has_member name ms \<longleftrightarrow> map_of ms name \<noteq> None"
  by (induction ms) auto

lemma fst_put_member:
  "map fst (put_member name v ms) = (if name \<in> fst ` set ms then map fst ms else map fst ms @ [name])"
  by (induction ms) force+

lemma val2hex_prefix: "val2hex L v = Inr (Some t) \<Longrightarrow> take 2 t = bs ''0x''"
  by (auto simp: val2hex_def split: option.splits if_splits)

text \<open>The invariant of a writer: an object with the protocol version and an id, no name twice.\<close>

definition writer_ok :: "json \<Rightarrow> bool" where
  "writer_ok doc \<longleftrightarrow>
     (case doc of
        JObject ms \<Rightarrow> distinct (map fst ms) \<and> map_of ms (bs ''jsonrpc'') = Some (JString json_rpc_ver)
          \<and> map_of ms (bs ''id'') \<noteq> None
      | _ \<Rightarrow> False)"

lemma names_differ:
  "bs ''id'' \<noteq> bs ''jsonrpc''" "bs ''error'' \<noteq> bs ''id''" "bs ''error'' \<noteq> bs ''jsonrpc''"
  "bs ''method'' \<noteq> bs ''jsonrpc''" "bs ''result'' \<noteq> bs ''jsonrpc''" "bs ''params'' \<noteq> bs ''jsonrpc''"
  "bs ''error'' \<noteq> bs ''result''" "bs ''id'' \<noteq> bs ''result''" "bs ''token'' \<noteq> bs ''jsonrpc''"
  "bs ''method'' \<noteq> bs ''id''" "bs ''error'' \<noteq> bs ''method''" "bs ''token'' \<noteq> bs ''error''"
  by (simp_all add: bs_def)

lemma set_value_ok:
  assumes "writer_ok doc" and "name \<noteq> bs ''jsonrpc''"
  shows "\<exists>doc'. set_value doc name v = Inr doc' \<and> writer_ok doc' \<and> get name doc' = Inr (Some v)
    \<and> (\<forall>n. n \<noteq> name \<longrightarrow> get n doc' = get n doc)"
  using assms
  by (cases doc) (auto simp: writer_ok_def set_value_def get_def map_of_put_member fst_put_member)

lemma set_value_writer_ok:
  "set_value doc name v = Inr w \<Longrightarrow> writer_ok doc \<Longrightarrow> name \<noteq> bs ''jsonrpc'' \<Longrightarrow> writer_ok w"
  using set_value_ok [of doc name v] by auto

lemma get_set_value:
  "set_value doc name v = Inr w \<Longrightarrow> get n w = (if n = name then Inr (Some v) else get n doc)"
  by (cases doc) (auto simp: set_value_def get_def map_of_put_member)

lemma writer_reset_ok: "writer_ok (writer_reset doc)"
  by (simp add: writer_ok_def writer_reset_def Let_def names_differ names_differ [symmetric])

lemma get_writer_reset:
  "get n (writer_reset doc) = Inr (if n = bs ''id'' then Some (case get (bs ''id'') doc of Inr (Some v) \<Rightarrow> v | _ \<Rightarrow> JNull)
     else if n = bs ''jsonrpc'' then Some (JString json_rpc_ver) else None)"
  by (cases doc) (auto simp: writer_reset_def get_def Let_def names_differ names_differ [symmetric] split: option.split)

section \<open>Properties\<close>

text \<open>\<open>add_result\<close> and \<open>add_param\<close> go into a member: they need it to be an object, or absent.\<close>

definition object_or_absent :: "bytes \<Rightarrow> json \<Rightarrow> bool" where
  "object_or_absent name doc =
     (case doc of JObject ms \<Rightarrow> (case map_of ms name of None \<Rightarrow> True | Some v \<Rightarrow> IsObject v) | _ \<Rightarrow> False)"

lemma add_in_ok:
  assumes "writer_ok doc" and "outer \<noteq> bs ''jsonrpc''"
  shows "case add_in outer doc name v of
      Inl e \<Rightarrow> e = Undefined (bs ''FindMember: not an object'') \<and> \<not> object_or_absent outer doc
    | Inr doc' \<Rightarrow> writer_ok doc' \<and> object_or_absent outer doc"
proof -
  obtain ms where ms: "doc = JObject ms" using assms(1) by (cases doc) (simp_all add: writer_ok_def)
  show ?thesis
  proof (cases "map_of ms outer")
    case None
    then have "writer_ok (JObject (ms @ [(outer, JObject [])]))"
      using assms by (auto simp: writer_ok_def ms dest: map_of_SomeD split: option.split)
    from set_value_ok [OF this assms(2)] None show ?thesis
      by (auto simp: add_in_def get_value_def set_value_def object_or_absent_def ms)
  next
    case (Some w)
    show ?thesis
    proof (cases "IsObject w")
      case True
      then obtain ws where "w = JObject ws" by (cases w) simp_all
      then show ?thesis using Some set_value_ok [OF assms]
        by (auto simp: add_in_def get_value_def object_or_absent_def ms set_value_def)
    next
      case False
      then show ?thesis using Some
        by (cases w) (simp_all add: add_in_def get_value_def object_or_absent_def ms set_value_def)
    qed
  qed
qed

text \<open>C30: What every operation of a writer does to its invariant (an object with the protocol version and an
  id and without a repeated name). A new and a reset writer have it; on a document that has it, the
  operations that put a member succeed and keep it, \<open>add\<close> and \<open>add_value\<close> for every name but that of the version
  itself; \<open>add_result\<close> and \<open>add_param\<close> do exactly when the member they go into is an object or
  absent, and are undefined behaviour on any other; \<open>is_error\<close> answers. \<open>parse\<close> alone can lose it: it leaves the
  document if the text does not parse, and else puts whatever was parsed in its place.\<close>

theorem writer_invariant:
  assumes "writer_ok doc" and "name \<noteq> bs ''jsonrpc''"
  shows "writer_ok new_writer \<and> writer_ok (writer_reset doc)
    \<and> list_all (\<lambda>r. case r of Inl e \<Rightarrow> False | Inr doc' \<Rightarrow> writer_ok doc')
        [set_method doc m, set_result doc v, set_error doc code msg, set_error_value doc v, set_id doc i,
         set_params doc v, add doc name v, add_value doc name v]
    \<and> list_all (\<lambda>(outer, r). case r of
          Inl e \<Rightarrow> e = Undefined (bs ''FindMember: not an object'') \<and> \<not> object_or_absent outer doc
        | Inr doc' \<Rightarrow> writer_ok doc' \<and> object_or_absent outer doc)
        [(bs ''result'', add_result doc n v), (bs ''params'', add_param doc n v)]
    \<and> is_error doc = rbind (get (bs ''error'') doc) (\<lambda>e. Inr (e \<noteq> None))
    \<and> writer_parse L doc txt = (case parse_json L (c_str txt) of None \<Rightarrow> (doc, False) | Some doc' \<Rightarrow> (doc', True))"
proof -
  have keep: "case set_value d n v of Inl e \<Rightarrow> False | Inr doc' \<Rightarrow> writer_ok doc'"
    if "writer_ok d" "n \<noteq> bs ''jsonrpc''" for d n v
  proof -
    from set_value_ok [OF that, of v] obtain d' where "set_value d n v = Inr d'" "writer_ok d'" by blast
    then show ?thesis by simp
  qed
  have "\<exists>d r. get_value doc (bs ''params'') kObjectType = Inr (d, r) \<and> writer_ok d"
    using assms(1) names_differ(6)
    by (cases doc) (auto simp: get_value_def writer_ok_def split: option.split dest: map_of_SomeD)
  then have "case set_params doc v of Inl e \<Rightarrow> False | Inr doc' \<Rightarrow> writer_ok doc'"
    using keep names_differ(6) by (auto simp: set_params_def)
  moreover have "is_error doc = rbind (get (bs ''error'') doc) (\<lambda>e. Inr (e \<noteq> None))"
    using assms(1) by (cases doc) (simp_all add: is_error_def get_def writer_ok_def has_member_map_of)
  ultimately show ?thesis
    using assms keep names_differ add_in_ok [OF assms(1) names_differ(5), of n v] add_in_ok [OF assms(1) names_differ(6), of n v]
    by (simp add: new_writer_def writer_reset_ok set_method_def set_result_def set_error_def set_error_value_def
        set_id_def add_def add_value_def add_result_def add_param_def writer_parse_def)
qed

theorem writer_invariant_witness:
  "list_all (\<lambda>r. case r of Inl e \<Rightarrow> False | Inr doc' \<Rightarrow> writer_ok doc')
      [set_method new_writer (bs ''m''), set_result new_writer JNull, set_error new_writer 1 (bs ''e''),
       set_error_value new_writer JNull, set_id new_writer 7, set_params new_writer JNull,
       add new_writer (bs ''token'') JNull, add_value new_writer (bs ''token'') JNull]
    \<and> (case add_result new_writer (bs ''a'') JNull of Inl e \<Rightarrow> False | Inr doc' \<Rightarrow> writer_ok doc')
    \<and> is_error new_writer = Inr False"
proof -
  have ok: "writer_ok new_writer" "bs ''token'' \<noteq> bs ''jsonrpc''"
    by (simp_all add: new_writer_def writer_reset_ok names_differ)
  have "object_or_absent (bs ''result'') new_writer" "get (bs ''error'') new_writer = Inr None"
    by (simp_all add: object_or_absent_def get_def new_writer_def writer_reset_def byte_simps)
  then show ?thesis
    using writer_invariant [OF ok, of "bs ''m''" JNull 1 "bs ''e''" 7 "bs ''a''"]
    by (auto split: sum.splits)
qed

text \<open>The id a writer is given is the id a reader finds in the document, for all 32-bit ids (0 is
  written as \<open>null\<close>), and resetting the writer, as every error reply does, keeps it.\<close>

theorem id_roundtrip:
  assumes "writer_ok doc"
  shows "rbind (set_id doc i) get_id = Inr i
    \<and> rbind (rbind (set_id doc i) (\<lambda>doc. set_error (writer_reset doc) code msg)) get_id = Inr i"
proof -
  have read: "get_id d = Inr i" if "get (bs ''id'') d = Inr (Some (if i = 0 then JNull else JInt (uint i)))" for d
  proof -
    have "uint i < 2 ^ 32" using uint_bounded [of i] by simp
    then show ?thesis using that by (auto simp: get_id_def IsInt_def IsUint_def)
  qed
  from set_value_ok [OF assms names_differ(1), of "if i = 0 then JNull else JInt (uint i)"]
  obtain doc' where doc': "set_id doc i = Inr doc'"
    "get (bs ''id'') doc' = Inr (Some (if i = 0 then JNull else JInt (uint i)))"
    unfolding set_id_def by blast
  from set_value_ok [OF writer_reset_ok names_differ(3),
      of doc' "JObject [(bs ''code'', JInt code), (bs ''message'', JString msg)]"]
  obtain doc'' where "set_error (writer_reset doc') code msg = Inr doc''"
    "get (bs ''id'') doc'' = get (bs ''id'') (writer_reset doc')"
    unfolding set_error_def using names_differ(2) by metis
  then show ?thesis using doc' read by (simp add: get_writer_reset)
qed

theorem id_roundtrip_witness:
  "rbind (set_id new_writer 7) get_id = Inr 7
    \<and> rbind (rbind (set_id new_writer 7) (\<lambda>doc. set_error (writer_reset doc) (- 32601) (bs ''Method not found''))) get_id = Inr 7"
  by (rule id_roundtrip) (simp add: new_writer_def writer_reset_ok)

end
