(* ===== verification/TaskUtils.thy ===== *)
theory TaskUtils
  imports StrUtils
begin

text \<open>
  \<open>src/src/task_handlers/utils.h\<close> and \<open>utils.cpp\<close>: splitting a server address, big numbers in
  hexadecimal, the length-prefixed integer of \<open>write_compact_int\<close>, the one-shot timer and the
  stop watch. GMP's conversions and the clock are parameters.
\<close>

section \<open>\<open>parse_address\<close>\<close>

text \<open>The references \<open>port\<close>, \<open>path\<close> and \<open>use_ssl\<close> keep their old value where the address has none; the
  result is \<open>host\<close>, \<open>port\<close>, \<open>path\<close>, \<open>use_ssl\<close>.\<close>

definition parse_address :: "bytes \<Rightarrow> bytes \<Rightarrow> bytes \<Rightarrow> bool \<Rightarrow> bytes \<times> bytes \<times> bytes \<times> bool" where
  "parse_address addr port path use_ssl =
     (let tmp = addr;
          (port, tmp) = (case str_find (bs ''http://'') tmp of
             Some pos \<Rightarrow> (bs ''80'', drop (pos + 7) tmp) | None \<Rightarrow> (port, tmp));
          (port, tmp, use_ssl) = (case str_find (bs ''https://'') tmp of
             Some pos \<Rightarrow> (bs ''443'', drop (pos + 8) tmp, True) | None \<Rightarrow> (port, tmp, use_ssl));
          (port, tmp) = (case str_find (bs '':'') tmp of
             Some pos \<Rightarrow> (drop (pos + 1) tmp, take pos tmp) | None \<Rightarrow> (port, tmp));
          (path, tmp) = (case str_find (bs ''/'') tmp of
             Some pos \<Rightarrow> (drop pos tmp, take pos tmp) | None \<Rightarrow> (path, tmp))
      in (tmp, port, path, use_ssl))"

section \<open>Numbers\<close>

text \<open>\<open>set_str\<close> is \<open>mpz_class::set_str (s, 16)\<close> as a function of the text and the old value (its result is
  ignored); \<open>get_str\<close> is \<open>get_str (16)\<close>.\<close>

definition hex2mpz :: "(bytes \<Rightarrow> int \<Rightarrow> int) \<Rightarrow> bytes \<Rightarrow> int \<Rightarrow> int" where
  "hex2mpz set_str src dst =
     (if src = [] then dst
      else let src = (if take 2 src = bs ''0x'' then drop 2 src else src) in set_str src dst)"

definition mpz2hex :: "(int \<Rightarrow> bytes) \<Rightarrow> int \<Rightarrow> bytes" where
  "mpz2hex get_str src =
     (let dst = get_str src
      in if dst = [] then bs ''0x0''
         else if take 2 dst \<noteq> bs ''0x'' then bs ''0x'' @ dst else dst)"

text \<open>The loop from the last byte of the value in memory down; then the marker and the bytes.\<close>

fun significant :: "bytes \<Rightarrow> nat \<Rightarrow> nat" where
  "significant p 0 = 0"
| "significant p (Suc sz) = (if p ! sz \<noteq> 0 then Suc sz else significant p sz)"

definition compact_marker :: "nat \<Rightarrow> byte res" where
  "compact_marker sz =
     (if sz \<le> 2 then Inr 0xfa
      else if sz \<le> 4 then Inr 0xfb
      else if sz \<le> 8 then Inr 0xfc
      else if sz \<le> 16 then Inr 0xfd
      else if sz \<le> 32 then Inr 0xfe
      else if sz \<le> 64 then Inr 0xff
      else Inl (StdException InvalidArgument))"

definition write_compact_int :: "'a::len word \<Rightarrow> bytes \<Rightarrow> bytes res" where
  "write_compact_int v buf =
     (let p = IntegerToBuffer v;
          sz = (if v = 0 then 1 else significant p (length p))
      in if 0xfa \<le> unat v
         then rbind (compact_marker sz) (\<lambda>marker. Inr (buf @ marker # take sz p))
         else Inr (buf @ take sz p))"

section \<open>\<open>Timer\<close>\<close>

text \<open>A thread waits on the future of the last \<open>run_once\<close>; an earlier one has lost its promise and does
  nothing. When the wait times out the handler runs, if one is set, and is cleared after it returns:
  \<open>timer_fire\<close> gives the handler to run and \<open>timer_fired\<close> is the assignment after it.\<close>

record 'h timer =
  t_handler :: "'h option"
  t_waiting :: bool

definition new_timer :: "'h timer" where
  "new_timer = \<lparr>t_handler = None, t_waiting = False\<rparr>"

definition timer_run_once :: "'h timer \<Rightarrow> 'h timer" where
  "timer_run_once t = t\<lparr>t_waiting := True\<rparr>"

definition timer_start :: "'h \<Rightarrow> bool \<Rightarrow> 'h timer \<Rightarrow> 'h timer" where
  "timer_start h immediately t =
     (let t = t\<lparr>t_handler := Some h\<rparr> in if immediately then timer_run_once t else t)"

definition timer_stop :: "'h timer \<Rightarrow> 'h timer" where
  "timer_stop t = t\<lparr>t_handler := None\<rparr>"

definition timer_fire :: "'h timer \<Rightarrow> 'h option \<times> 'h timer" where
  "timer_fire t = (t_handler t, t\<lparr>t_waiting := False\<rparr>)"

definition timer_fired :: "'h timer \<Rightarrow> 'h timer" where
  "timer_fired t = t\<lparr>t_handler := None\<rparr>"

section \<open>\<open>time_duration\<close>\<close>

text \<open>The clock is an argument; \<open>stop\<close> also gives the elapsed time it logs.\<close>

record stopwatch =
  m_run :: bool
  m_msg :: bytes
  m_start :: int

definition duration_start :: "int \<Rightarrow> stopwatch \<Rightarrow> stopwatch" where
  "duration_start now d = (if \<not> m_run d then d\<lparr>m_run := True, m_start := now\<rparr> else d)"

definition new_duration :: "bool \<Rightarrow> bytes \<Rightarrow> int \<Rightarrow> stopwatch" where
  "new_duration start message now =
     (let d = \<lparr>m_run = False, m_msg = message, m_start = 0\<rparr> in if start then duration_start now d else d)"

definition duration_stop :: "int \<Rightarrow> stopwatch \<Rightarrow> stopwatch \<times> int option" where
  "duration_stop now d =
     (if m_run d then (d\<lparr>m_run := False\<rparr>, Some (now - m_start d)) else (d, None))"

lemma duration_stop_twice: "snd (duration_stop t' (fst (duration_stop t d))) = None"
  by (simp add: duration_stop_def)

section \<open>Facts\<close>

lemma significant_le: "significant p n \<le> n"
  by (induction n) auto

lemma significant_zero: "significant p n \<le> i \<Longrightarrow> i < n \<Longrightarrow> p ! i = 0"
proof (induction n)
  case (Suc n)
  then show ?case by (cases "p ! n = 0") (auto simp: less_Suc_eq)
qed simp

text \<open>The bytes that are written determine the value: what is left out is zero.\<close>

lemma significant_padding:
  "take (significant p (length p)) p @ replicate (length p - significant p (length p)) 0 = p"
proof (rule nth_equalityI)
  show "length (take (significant p (length p)) p @ replicate (length p - significant p (length p)) 0) = length p"
    using significant_le [of p "length p"] by simp
next
  fix i
  assume "i < length (take (significant p (length p)) p @ replicate (length p - significant p (length p)) 0)"
  then have i: "i < length p" using significant_le [of p "length p"] by simp
  show "(take (significant p (length p)) p @ replicate (length p - significant p (length p)) 0) ! i = p ! i"
    using i significant_le [of p "length p"] significant_zero [of p "length p" i] by (simp add: nth_append)
qed

lemma str_find_None_char: "c \<in> set pat \<Longrightarrow> c \<notin> set xs \<Longrightarrow> str_find pat xs = None"
proof (induction xs)
  case (Cons x xs)
  then have "take (length pat) (x # xs) \<noteq> pat" by (metis in_set_takeD)
  with Cons show ?case by simp
qed auto

lemma str_find_single: "c \<notin> set xs \<Longrightarrow> str_find [c] (xs @ c # ys) = Some (length xs)"
  by (induction xs) auto

lemma str_find_at: "str_find pat xs = Some k \<Longrightarrow> take (length pat) (drop k xs) = pat"
proof (induction xs arbitrary: k)
  case (Cons x xs)
  then show ?case by (cases k) (auto split: if_splits)
qed (auto split: if_splits)

lemma nth_take_drop: "m < length pat \<Longrightarrow> length pat \<le> length xs - k \<Longrightarrow> take (length pat) (drop k xs) ! m = xs ! (k + m)"
  by simp

text \<open>A scheme does not occur in an address without one.\<close>

lemma no_scheme:
  assumes "bs '':'' = [c]" and "c \<notin> set h" "c \<notin> set q" and "q = [] \<or> hd q \<noteq> 47"
    and "pat = bs ''http://'' \<or> pat = bs ''https://''"
  shows "str_find pat (h @ c # q) = None"
proof (rule ccontr)
  assume "str_find pat (h @ c # q) \<noteq> None"
  then obtain k where "str_find pat (h @ c # q) = Some k" by blast
  then have at: "take (length pat) (drop k (h @ c # q)) = pat" by (rule str_find_at)
  obtain n where n: "n + 1 < length pat" "pat ! n = c" "pat ! (n + 1) = 47"
    using assms(1,5)
  proof (elim disjE)
    assume "pat = bs ''http://''"
    then show thesis using that [of 4] assms(1) by (simp add: byte_simps)
  next
    assume "pat = bs ''https://''"
    then show thesis using that [of 5] assms(1) by (simp add: byte_simps)
  qed
  have room: "length pat \<le> length (h @ c # q) - k" using arg_cong [OF at, of length] by simp
  then have len: "k + n + 1 < length (h @ c # q)" using n(1) by linarith
  have nth: "(h @ c # q) ! (k + m) = pat ! m" if "m < length pat" for m
    using nth_take_drop [OF that room] unfolding at by simp
  have c: "(h @ c # q) ! (k + n) = c" "(h @ c # q) ! (k + (n + 1)) = 47"
    using nth [of n] nth [of "n + 1"] n by simp_all
  have "k + n = length h"
  proof (rule ccontr)
    assume "k + n \<noteq> length h"
    then consider "k + n < length h" | "length h < k + n" by linarith
    then show False
    proof cases
      case 1
      then show ?thesis using c(1) assms(2) by (simp add: nth_append) (metis nth_mem)
    next
      case 2
      then have "q ! (k + n - length h - 1) = c" "k + n - length h - 1 < length q"
        using c(1) len by (simp_all add: nth_append nth_Cons')
      then show ?thesis using assms(3) by (metis nth_mem)
    qed
  qed
  then have "q ! 0 = 47" "q \<noteq> []" using c(2) len by (simp_all add: nth_append)
  then show False using assms(4) by (simp add: hd_conv_nth)
qed

section \<open>Properties\<close>

text \<open>What \<open>parse_address\<close> makes of an address of a host, without a colon or slash, and a path, empty or
  beginning with a slash and without a colon. A scheme sets the port (and TLS), and an address without
  one leaves the port alone. After an explicit port the path is not split off: it ends up in the port.\<close>

theorem parse_address_parts:
  assumes "58 \<notin> set host" "47 \<notin> set host" "58 \<notin> set path" "path = [] \<or> hd path = 47"
    and "58 \<notin> set port" "port \<noteq> []" "hd port \<noteq> 47" "47 \<notin> set port"
  shows "parse_address (bs ''http://'' @ host @ path) p0 q0 ssl = (host, bs ''80'', if path = [] then q0 else path, ssl)
    \<and> parse_address (bs ''https://'' @ host @ path) p0 q0 ssl = (host, bs ''443'', if path = [] then q0 else path, True)
    \<and> parse_address (host @ path) p0 q0 ssl = (host, p0, if path = [] then q0 else path, ssl)
    \<and> parse_address (host @ bs '':'' @ port @ path) p0 q0 ssl = (host, port @ path, q0, ssl)"
proof -
  note [simp] = byte_simps
  have none: "str_find (bs ''http://'') (host @ path) = None" "str_find (bs ''https://'') (host @ path) = None"
    "str_find (bs '':'') (host @ path) = None"
    using assms(1,3) by (auto intro: str_find_None_char [where c = 58])
  have path: "str_find (bs ''/'') (host @ path) = (if path = [] then None else Some (length host))"
  proof (cases path)
    case Nil
    then show ?thesis using assms(2) by (simp add: str_find_None_char [where c = 47])
  next
    case (Cons c cs)
    then have "c = 47" using assms(4) by simp
    then show ?thesis using str_find_single [OF assms(2)] Cons by simp
  qed
  have rest: "58 \<notin> set (port @ path)" "port @ path = [] \<or> hd (port @ path) \<noteq> 47" using assms by simp_all
  have scheme: "str_find (bs ''http://'') (host @ 58 # port @ path) = None"
    "str_find (bs ''https://'') (host @ 58 # port @ path) = None"
    by (rule no_scheme [OF _ assms(1) rest]; simp)+
  have colon: "str_find (bs '':'') (host @ 58 # port @ path) = Some (length host)"
    using str_find_single [OF assms(1)] by simp
  have slash: "str_find (bs ''/'') host = None"
    using assms(2) by (simp add: str_find_None_char [where c = 47])
  show ?thesis
    using none path scheme colon slash by (simp add: parse_address_def)
qed

theorem parse_address_parts_witness:
  "parse_address (bs ''http://a/p'') [] [] False = (bs ''a'', bs ''80'', bs ''/p'', False)
    \<and> parse_address (bs ''a:8080/p'') [] [] False = (bs ''a'', bs ''8080/p'', [], False)"
  using parse_address_parts [of "bs ''a''" "bs ''/p''" "bs ''8080''" "[]" "[]" False] by (simp add: byte_simps)

end
