(* ===== verification/HttpRequest.thy ===== *)
theory HttpRequest
  imports JsonRpc TaskUtils
begin

text \<open>
  \<open>src/src/http_json_rpc_request.h\<close> and \<open>http_json_rpc_request.cpp\<close>: one request to the remote server, as
  a state machine. Boost.Asio starts the operations the handlers ask for and calls the next handler
  with an error code of its choice; the two timers fire in threads of their own. A step of the
  machine is one handler: the handlers that touch the result begin by stopping the request timer,
  whose mutex is held while its own handler runs, so they do not overlap.

  What runs outside (the operations themselves, closing and shutting down sockets, the certificate
  check, which accepts everything) is not part of the state. \<open>error_code\<close> is a category and a value.
\<close>

section \<open>State\<close>

type_synonym error_code = "nat \<times> int"

record http_lib = json_lib +
  message :: "error_code \<Rightarrow> bytes"
  reason :: "nat \<Rightarrow> bytes"            \<comment> \<open>\<open>operator<<\<close> of \<open>http::status\<close>\<close>

datatype operation = Resolve | Connect | Handshake | Write | Read
datatype timeout = RequestTimeout | ConnectTimeout

record request =
  m_host :: bytes
  header_host :: bytes
  target :: bytes
  req_body :: bytes
  m_use_ssl :: bool
  m_async :: bool
  m_timer :: "timeout timer"
  m_connect_timer :: "timeout timer"
  req_result :: json
  m_callback :: bool
  pending_op :: "operation option"   \<comment> \<open>the asynchronous operation under way\<close>
  resolving :: "bytes \<times> bytes"        \<comment> \<open>host and port of \<open>async_resolve\<close>\<close>
  io_stopped :: bool                 \<comment> \<open>\<open>m_io_ctx.stop ()\<close> was called\<close>
  calls :: "bytes list"              \<comment> \<open>\<open>get_result ()\<close> at each call of the callback\<close>

section \<open>Making a request\<close>

definition set_path :: "bytes \<Rightarrow> request \<Rightarrow> request" where
  "set_path path r =
     (let t = path; t = (if t = [] \<or> t ! 0 \<noteq> 47 then 47 # t else t) in r\<lparr>target := t\<rparr>)"

definition new_request :: "bytes \<Rightarrow> request" where
  "new_request host =
     (let (addr, port, path, ssl) = parse_address host [] [] False
      in set_path path
          \<lparr>m_host = host, header_host = addr, target = bs ''/'', req_body = [], m_use_ssl = ssl, m_async = True,
           m_timer = new_timer, m_connect_timer = new_timer, req_result = new_writer, m_callback = False,
           pending_op = None, resolving = ([], []), io_stopped = False, calls = []\<rparr>)"

definition set_body :: "json_lib \<Rightarrow> bytes \<Rightarrow> request \<Rightarrow> request res" where
  "set_body L body r =
     (let r = r\<lparr>req_body := req_body r @ c_str body\<rparr>
      in case reader_parse L body of
           None \<Rightarrow> Inr r
         | Some doc \<Rightarrow> rbind (get_id doc) (\<lambda>id. rbind (set_id (req_result r) id) (\<lambda>w. Inr (r\<lparr>req_result := w\<rparr>))))"

definition get_result_text :: "json_lib \<Rightarrow> request \<Rightarrow> bytes" where
  "get_result_text L r = stringify L (req_result r)"

definition execute_async :: "bool \<Rightarrow> request \<Rightarrow> request" where
  "execute_async callback r =
     (let r = (if callback then r\<lparr>m_callback := True\<rparr> else r);
          (addr, port, path, ssl) = parse_address (m_host r) [] [] (m_use_ssl r)
      in r\<lparr>m_use_ssl := ssl, resolving := (addr, port), pending_op := Some Resolve\<rparr>)"

definition execute_sync :: "request \<Rightarrow> request" where
  "execute_sync r = (let r = execute_async False r in r\<lparr>m_async := False\<rparr>)"

section \<open>Handlers\<close>

definition perform_callback :: "http_lib \<Rightarrow> request \<Rightarrow> request" where
  "perform_callback L r =
     (if m_callback r
      then r\<lparr>calls := calls r @ [get_result_text (json_lib.truncate L) r], m_callback := False\<rparr>
      else r)"

definition stop_io :: "request \<Rightarrow> request" where
  "stop_io r = (if \<not> m_async r \<and> \<not> io_stopped r then r\<lparr>io_stopped := True\<rparr> else r)"

definition error_handler :: "http_lib \<Rightarrow> error_code \<Rightarrow> request \<Rightarrow> (bool \<times> request) res" where
  "error_handler L e r =
     (if snd e = 0 then Inr (False, r)
      else let r = r\<lparr>m_timer := timer_stop (m_timer r), m_connect_timer := timer_stop (m_connect_timer r)\<rparr>
           in rbind (set_error (req_result r) 32000 (c_str (message L e))) (\<lambda>w.
              let r = perform_callback L (r\<lparr>req_result := w\<rparr>); r = stop_io r
              in Inr (True, r)))"

definition on_request_timeout :: "http_lib \<Rightarrow> request \<Rightarrow> request res" where
  "on_request_timeout L r =
     (let r = r\<lparr>m_connect_timer := timer_stop (m_connect_timer r)\<rparr>
      in rbind (set_error (req_result r) 32001 (bs ''Request timeout'')) (\<lambda>w.
         Inr (perform_callback L (r\<lparr>req_result := w\<rparr>))))"

definition on_connect_timeout :: "request \<Rightarrow> request" where
  "on_connect_timeout r = r\<lparr>m_connect_timer := timer_run_once (m_connect_timer r)\<rparr>"

definition on_resolve :: "http_lib \<Rightarrow> error_code \<Rightarrow> request \<Rightarrow> request res" where
  "on_resolve L e r =
     rbind (error_handler L e r) (\<lambda>(failed, r).
     Inr (if failed then r
          else r\<lparr>m_connect_timer := timer_start ConnectTimeout True (m_connect_timer r),
                 pending_op := Some Connect\<rparr>))"

definition ECANCELED :: int where "ECANCELED = 125"
definition ETIMEDOUT :: int where "ETIMEDOUT = 110"

definition on_connect :: "http_lib \<Rightarrow> error_code \<Rightarrow> request \<Rightarrow> request res" where
  "on_connect L e r =
     (let r = r\<lparr>m_connect_timer := timer_stop (m_connect_timer r)\<rparr>;
          ec = e; ec = (if snd ec = ECANCELED then (fst ec, ETIMEDOUT) else ec)
      in rbind (error_handler L ec r) (\<lambda>(failed, r).
         Inr (if failed then r
              else let r = r\<lparr>m_timer := timer_start RequestTimeout True (m_timer r)\<rparr>
                   in if m_use_ssl r then r\<lparr>pending_op := Some Handshake\<rparr> else r\<lparr>pending_op := Some Write\<rparr>)))"

definition on_handshake :: "http_lib \<Rightarrow> error_code \<Rightarrow> request \<Rightarrow> request res" where
  "on_handshake L e r =
     rbind (error_handler L e r) (\<lambda>(failed, r). Inr (if failed then r else r\<lparr>pending_op := Some Write\<rparr>))"

definition on_write :: "http_lib \<Rightarrow> error_code \<Rightarrow> request \<Rightarrow> request res" where
  "on_write L e r =
     rbind (error_handler L e r) (\<lambda>(failed, r). Inr (if failed then r else r\<lparr>pending_op := Some Read\<rparr>))"

definition on_read :: "http_lib \<Rightarrow> error_code \<Rightarrow> nat \<Rightarrow> bytes \<Rightarrow> request \<Rightarrow> request res" where
  "on_read L e status body r =
     rbind (error_handler L e r) (\<lambda>(failed, r).
     if failed then Inr r
     else let r = r\<lparr>m_timer := timer_stop (m_timer r)\<rparr>;
              (doc, succ) = writer_parse (json_lib.truncate L) (req_result r) (c_str body)
          in rbind (if \<not> succ \<and> status \<noteq> 200
                    then set_error doc 32002 (bs ''Incorrect response http status: '' @ reason L status)
                    else Inr doc) (\<lambda>doc.
             let r = perform_callback L (r\<lparr>req_result := doc\<rparr>); r = stop_io r
             in Inr r))"

definition fire_request_timer :: "http_lib \<Rightarrow> request \<Rightarrow> request res" where
  "fire_request_timer L r =
     (let (h, t) = timer_fire (m_timer r); r = r\<lparr>m_timer := t\<rparr>
      in if h \<noteq> None
         then rbind (on_request_timeout L r) (\<lambda>r. Inr (r\<lparr>m_timer := timer_fired (m_timer r)\<rparr>))
         else Inr r)"

definition fire_connect_timer :: "request \<Rightarrow> request" where
  "fire_connect_timer r =
     (let (h, t) = timer_fire (m_connect_timer r); r = r\<lparr>m_connect_timer := t\<rparr>
      in if h \<noteq> None
         then (let r = on_connect_timeout r in r\<lparr>m_connect_timer := timer_fired (m_connect_timer r)\<rparr>)
         else r)"

section \<open>Steps\<close>

definition completes :: "operation \<Rightarrow> request \<Rightarrow> request \<Rightarrow> bool" where
  "completes x r r0 \<longleftrightarrow> pending_op r = Some x \<and> \<not> io_stopped r \<and> r0 = r\<lparr>pending_op := None\<rparr>"

inductive step :: "http_lib \<Rightarrow> request \<Rightarrow> request res \<Rightarrow> bool" for L where
  resolved: "completes Resolve r r0 \<Longrightarrow> step L r (on_resolve L e r0)"
| connected: "completes Connect r r0 \<Longrightarrow> step L r (on_connect L e r0)"
| shaken: "completes Handshake r r0 \<Longrightarrow> step L r (on_handshake L e r0)"
| written: "completes Write r r0 \<Longrightarrow> step L r (on_write L e r0)"
| read: "completes Read r r0 \<Longrightarrow> step L r (on_read L e status body r0)"
| request_timer: "t_waiting (m_timer r) \<Longrightarrow> step L r (fire_request_timer L r)"
| connect_timer: "t_waiting (m_connect_timer r) \<Longrightarrow> step L r (Inr (fire_connect_timer r))"

inductive_cases step_cases: "step L r s"

inductive reachable :: "http_lib \<Rightarrow> request \<Rightarrow> request \<Rightarrow> bool" for L r where
  start: "reachable L r r"
| further: "reachable L r s \<Longrightarrow> step L s (Inr t) \<Longrightarrow> reachable L r t"

section \<open>Invariant and progress\<close>

text \<open>While the callback is due an operation is under way, and from the connection on the request timer
  runs. A handler that may write an error finds the envelope the constructor made.\<close>

definition after_connect :: "request \<Rightarrow> bool" where
  "after_connect r \<longleftrightarrow> pending_op r \<in> {Some Handshake, Some Write, Some Read}"

definition request_ok :: "request \<Rightarrow> bool" where
  "request_ok r \<longleftrightarrow>
     m_async r \<and> \<not> io_stopped r
   \<and> (pending_op r \<noteq> None \<longrightarrow> writer_ok (req_result r))
   \<and> (t_handler (m_timer r) \<noteq> None \<longrightarrow> after_connect r \<and> t_waiting (m_timer r))
   \<and> (m_callback r \<longrightarrow> pending_op r \<noteq> None)
   \<and> (m_callback r \<and> after_connect r \<longrightarrow> t_handler (m_timer r) \<noteq> None)
   \<and> length (calls r) = (if m_callback r then 0 else 1)"

fun rank :: "operation option \<Rightarrow> nat" where
  "rank None = 0"
| "rank (Some Read) = 1"
| "rank (Some Write) = 2"
| "rank (Some Handshake) = 3"
| "rank (Some Connect) = 4"
| "rank (Some Resolve) = 5"

definition timer_work :: "'h timer \<Rightarrow> nat" where
  "timer_work t = (if t_handler t = None then 0 else 2) + (if t_waiting t then 1 else 0)"

definition work :: "request \<Rightarrow> nat" where
  "work r = 8 * rank (pending_op r) + timer_work (m_timer r) + timer_work (m_connect_timer r)"

lemmas timer_simps = timer_start_def timer_stop_def timer_run_once_def timer_fire_def timer_fired_def Let_def

lemma set_error_ok:
  "writer_ok doc \<Longrightarrow> \<exists>w. set_error doc code msg = Inr w \<and> writer_ok w"
  unfolding set_error_def using set_value_ok [OF _ names_differ(3)] by blast

lemma error_handler_ok:
  assumes "writer_ok (req_result r)" and "m_async r"
  obtains "snd e = 0" "error_handler L e r = Inr (False, r)"
  | w where "snd e \<noteq> 0" "writer_ok w" "error_handler L e r = Inr (True, perform_callback L
      (r\<lparr>m_timer := timer_stop (m_timer r), m_connect_timer := timer_stop (m_connect_timer r), req_result := w\<rparr>))"
proof (cases "snd e = 0")
  case False
  obtain w where "set_error (req_result r) 32000 (c_str (message L e)) = Inr w" "writer_ok w"
    using set_error_ok [OF assms(1)] by blast
  then show thesis
    using False assms(2) that(2) [of w] by (simp add: error_handler_def stop_io_def perform_callback_def Let_def)
qed (use that(1) in \<open>simp add: error_handler_def\<close>)

lemma timer_work_simps [simp]:
  "timer_work (timer_stop t) = (if t_waiting t then 1 else 0)"
  "timer_work (timer_start h True t) = 3"
  "timer_work t \<le> 3"
  by (simp_all add: timer_work_def timer_simps)

lemma timer_stop_simps [simp]:
  "t_handler (timer_stop t) = None" "t_waiting (timer_stop t) = t_waiting t"
  "t_handler (timer_start h True t) = Some h" "t_waiting (timer_start h True t)"
  by (simp_all add: timer_simps)

lemma perform_callback_simps [simp]:
  "m_callback (perform_callback L r) = False"
  "length (calls (perform_callback L r)) = length (calls r) + (if m_callback r then 1 else 0)"
  "m_async (perform_callback L r) = m_async r" "io_stopped (perform_callback L r) = io_stopped r"
  "pending_op (perform_callback L r) = pending_op r" "req_result (perform_callback L r) = req_result r"
  "m_timer (perform_callback L r) = m_timer r" "m_connect_timer (perform_callback L r) = m_connect_timer r"
  by (simp_all add: perform_callback_def)

lemma completes_ok:
  assumes "completes x r r0" and "request_ok r"
  shows "writer_ok (req_result r0)" "m_async r0" "length (calls r0) = (if m_callback r0 then 0 else 1)"
    "\<not> io_stopped r0" "t_handler (m_timer r0) \<noteq> None \<longrightarrow> after_connect r \<and> t_waiting (m_timer r0)"
    "m_callback r0 \<and> after_connect r \<longrightarrow> t_handler (m_timer r0) \<noteq> None"
    "work r = 8 * rank (Some x) + timer_work (m_timer r0) + timer_work (m_connect_timer r0)"
    "pending_op r0 = None" "after_connect r \<longleftrightarrow> x \<in> {Handshake, Write, Read}"
  using assms by (auto simp: completes_def request_ok_def work_def after_connect_def)

lemma waiting_work: "(if t_waiting t then 1 else 0) \<le> timer_work t"
  by (simp add: timer_work_def)

lemma read_ok:
  assumes "completes Read r r0" and "request_ok r"
  shows "\<exists>r'. on_read L e status body r0 = Inr r' \<and> request_ok r' \<and> work r' < work r"
proof -
  note ok = completes_ok [OF assms]
  obtain doc succ where parse: "writer_parse (json_lib.truncate L) (req_result r0) (c_str body) = (doc, succ)"
    by (cases "writer_parse (json_lib.truncate L) (req_result r0) (c_str body)")
  have "\<not> succ \<Longrightarrow> writer_ok doc" using parse ok(1) by (auto simp: writer_parse_def split: option.splits)
  then obtain doc' where doc': "(if \<not> succ \<and> status \<noteq> 200
      then set_error doc 32002 (bs ''Incorrect response http status: '' @ reason L status) else Inr doc) = Inr doc'"
    using set_error_ok [of doc] by (cases "\<not> succ \<and> status \<noteq> 200") auto
  from ok(1,2) show ?thesis
    by (cases rule: error_handler_ok [where e = e and L = L])
      (use ok in \<open>auto simp: on_read_def Let_def parse doc' stop_io_def request_ok_def work_def
        after_connect_def timer_work_def\<close>)
qed

lemma request_timer_ok:
  assumes "t_waiting (m_timer r)" and "request_ok r"
  shows "\<exists>r'. fire_request_timer L r = Inr r' \<and> request_ok r' \<and> work r' < work r"
proof (cases "t_handler (m_timer r) = None")
  case True
  then show ?thesis using assms
    by (auto simp: fire_request_timer_def timer_fire_def request_ok_def work_def after_connect_def timer_work_def)
next
  case False
  then have "writer_ok (req_result r)" using assms(2) by (auto simp: request_ok_def after_connect_def)
  then obtain w where "set_error (req_result r) 32001 (bs ''Request timeout'') = Inr w" "writer_ok w"
    using set_error_ok by blast
  with False assms show ?thesis
    by (auto simp: fire_request_timer_def timer_fire_def timer_fired_def on_request_timeout_def Let_def
        request_ok_def work_def after_connect_def timer_work_def)
qed

lemma step_ok:
  assumes "step L r s" and "request_ok r"
  shows "\<exists>r'. s = Inr r' \<and> request_ok r' \<and> work r' < work r"
  using assms(1)
proof (cases rule: step.cases)
  case (resolved r0 e)
  note st = this(1) and ok = completes_ok [OF this(2) assms(2)]
  from ok(1,2) show ?thesis
    by (cases rule: error_handler_ok [where e = e and L = L])
      (use ok in \<open>auto simp: st on_resolve_def request_ok_def work_def after_connect_def timer_work_def\<close>)
next
  case (connected r0 e)
  note st = this(1) and ok = completes_ok [OF this(2) assms(2)]
  let ?r = "r0\<lparr>m_connect_timer := timer_stop (m_connect_timer r0)\<rparr>"
  let ?e = "if snd e = ECANCELED then (fst e, ETIMEDOUT) else e"
  from ok(1,2) have "writer_ok (req_result ?r)" "m_async ?r" by simp_all
  then show ?thesis
    by (cases rule: error_handler_ok [where e = ?e and L = L])
      (use ok in \<open>auto simp: st on_connect_def Let_def request_ok_def work_def after_connect_def timer_work_def\<close>)
next
  case (shaken r0 e)
  note st = this(1) and ok = completes_ok [OF this(2) assms(2)]
  from ok(1,2) show ?thesis
    by (cases rule: error_handler_ok [where e = e and L = L])
      (use ok in \<open>auto simp: st on_handshake_def request_ok_def work_def after_connect_def timer_work_def\<close>)
next
  case (written r0 e)
  note st = this(1) and ok = completes_ok [OF this(2) assms(2)]
  from ok(1,2) show ?thesis
    by (cases rule: error_handler_ok [where e = e and L = L])
      (use ok in \<open>auto simp: st on_write_def request_ok_def work_def after_connect_def timer_work_def\<close>)
next
  case (read r0 e status body)
  then show ?thesis using read_ok [OF _ assms(2)] by simp
next
  case request_timer
  then show ?thesis using request_timer_ok [OF _ assms(2)] by simp
next
  case connect_timer
  then show ?thesis using assms(2)
    by (auto simp: fire_connect_timer_def timer_simps on_connect_timeout_def request_ok_def work_def
        after_connect_def timer_work_def)
qed

lemma reachable_ok: "reachable L r s \<Longrightarrow> request_ok r \<Longrightarrow> request_ok s"
proof (induction rule: reachable.induct)
  case (further s t)
  then show ?case using step_ok [OF further(2)] by auto
qed

definition moves :: "http_lib \<Rightarrow> request \<Rightarrow> request \<Rightarrow> bool" where
  "moves L r s \<longleftrightarrow> step L r (Inr s)"

lemma run_ok: "(moves L ^^ n) r s \<Longrightarrow> request_ok r \<Longrightarrow> request_ok s \<and> work s + n \<le> work r"
proof (induction n arbitrary: s)
  case (Suc n)
  then obtain t where t: "(moves L ^^ n) r t" "moves L t s" by auto
  from t(2) have "step L t (Inr s)" by (simp add: moves_def)
  moreover have "request_ok t \<and> work t + n \<le> work r" using Suc.IH [OF t(1) Suc.prems(2)] .
  ultimately show ?case using step_ok [of L t "Inr s"] by auto
qed auto

text \<open>The request as the callers build it.\<close>

definition prepared :: "json_lib \<Rightarrow> bytes \<Rightarrow> bytes option \<Rightarrow> bytes \<Rightarrow> request res" where
  "prepared L host path body =
     (let r = new_request host; r = (case path of None \<Rightarrow> r | Some p \<Rightarrow> set_path p r) in set_body L body r)"

lemma prepared_fresh:
  assumes "prepared L host path body = Inr r"
  shows "m_async r" "\<not> io_stopped r" "m_timer r = new_timer" "m_connect_timer r = new_timer" "calls r = []"
    "writer_ok (req_result r)" "\<not> m_callback r"
  using assms set_value_writer_ok [OF _ writer_reset_ok names_differ(1)]
  by (auto simp: prepared_def new_request_def set_path_def set_body_def set_id_def Let_def new_writer_def
      writer_reset_ok rbind_eq_Inr split: prod.splits option.splits)

lemma start_ok:
  assumes "prepared L host path body = Inr r"
  shows "request_ok (execute_async True r)" "work (execute_async True r) = 40"
  using prepared_fresh [OF assms]
  by (auto simp: execute_async_def request_ok_def work_def timer_work_def after_connect_def new_timer_def
      split: prod.split)

lemma step_exists: "pending_op r \<noteq> None \<Longrightarrow> \<not> io_stopped r \<Longrightarrow> \<exists>s. step L r s"
proof -
  assume "pending_op r \<noteq> None" "\<not> io_stopped r"
  then obtain x where "completes x r (r\<lparr>pending_op := None\<rparr>)" by (auto simp: completes_def)
  then show ?thesis by (cases x) (auto intro: step.intros)
qed

text \<open>What the callback is given.\<close>

definition error_reply :: "json \<Rightarrow> json \<Rightarrow> bool" where
  "error_reply i doc \<longleftrightarrow> writer_ok doc \<and> get (bs ''id'') doc = Inr (Some i) \<and> get (bs ''result'') doc = Inr None
    \<and> (\<exists>code msg. code \<in> {32000, 32001, 32002}
       \<and> get (bs ''error'') doc = Inr (Some (JObject [(bs ''code'', JInt code), (bs ''message'', JString msg)])))"

definition empty_reply :: "json \<Rightarrow> json \<Rightarrow> bool" where
  "empty_reply i doc \<longleftrightarrow> writer_ok doc \<and> get (bs ''id'') doc = Inr (Some i) \<and> get (bs ''result'') doc = Inr None
    \<and> get (bs ''error'') doc = Inr None"

definition server_reply :: "http_lib \<Rightarrow> json \<Rightarrow> bool" where
  "server_reply L doc \<longleftrightarrow> (\<exists>body. parse_json L (c_str body) = Some doc)"

definition replies :: "http_lib \<Rightarrow> json \<Rightarrow> request \<Rightarrow> bool" where
  "replies L i r \<longleftrightarrow>
     (pending_op r \<noteq> None \<longrightarrow> error_reply i (req_result r) \<or> empty_reply i (req_result r))
   \<and> (\<forall>t \<in> set (calls r). \<exists>doc. t = stringify (json_lib.truncate L) doc
        \<and> (error_reply i doc \<or> empty_reply i doc \<or> server_reply L doc))"

lemma set_error_reply:
  assumes "error_reply i doc \<or> empty_reply i doc" and "code \<in> {32000, 32001, 32002}"
    and "set_error doc code msg = Inr w"
  shows "error_reply i w"
proof -
  have ok: "writer_ok doc" using assms(1) by (auto simp: error_reply_def empty_reply_def)
  show ?thesis
    using set_value_ok [OF ok names_differ(3), of "JObject [(bs ''code'', JInt code), (bs ''message'', JString msg)]"]
      assms names_differ(2,7)
    by (auto simp: set_error_def error_reply_def empty_reply_def)
qed

text \<open>A state in which a handler that just took its completion finds itself.\<close>

definition resting :: "http_lib \<Rightarrow> json \<Rightarrow> request \<Rightarrow> bool" where
  "resting L i r \<longleftrightarrow> replies L i r \<and> (error_reply i (req_result r) \<or> empty_reply i (req_result r)) \<and> pending_op r = None"

lemma error_handler_replies:
  assumes "error_handler L e r = Inr (failed, r')" and "resting L i r"
  shows "replies L i r'" "\<not> failed \<Longrightarrow> r' = r"
proof -
  have "replies L i r' \<and> (\<not> failed \<longrightarrow> r' = r)"
  proof (cases "snd e = 0")
    case True
    then show ?thesis using assms by (simp add: error_handler_def resting_def)
  next
    case False
    then obtain w where w: "set_error (req_result r) 32000 (c_str (message L e)) = Inr w" "failed"
      "r' = stop_io (perform_callback L (r\<lparr>m_timer := timer_stop (m_timer r),
        m_connect_timer := timer_stop (m_connect_timer r), req_result := w\<rparr>))"
      using assms(1) unfolding error_handler_def Let_def
      by (cases "set_error (req_result r) 32000 (c_str (message L e))") auto
    have "error_reply i w" by (rule set_error_reply [OF _ _ w(1)]) (use assms(2) in \<open>simp_all add: resting_def\<close>)
    then show ?thesis using w(2,3) assms(2)
      by (auto simp: resting_def replies_def perform_callback_def stop_io_def get_result_text_def)
  qed
  then show "replies L i r'" "\<not> failed \<Longrightarrow> r' = r" by auto
qed

lemma completes_resting: "completes x r r0 \<Longrightarrow> replies L i r \<Longrightarrow> resting L i r0"
  by (auto simp: completes_def replies_def resting_def)

lemma error_then:
  assumes "rbind (error_handler L e r) (\<lambda>(failed, r). Inr (if failed then r else f r)) = Inr r'"
    and "resting L i r" and "req_result (f r) = req_result r" and "calls (f r) = calls r"
  shows "replies L i r'"
proof -
  obtain failed r1 where h: "error_handler L e r = Inr (failed, r1)" "r' = (if failed then r1 else f r1)"
    using assms(1) by (cases "error_handler L e r") auto
  note h' = error_handler_replies [OF h(1) assms(2)]
  show ?thesis
  proof (cases failed)
    case False
    then have "r' = f r" using h(2) h'(2) by simp
    then show ?thesis using assms(2-4) by (auto simp: resting_def replies_def)
  qed (use h(2) h'(1) in simp)
qed

lemma on_read_replies:
  assumes "on_read L e status body r0 = Inr r'" and "resting L i r0"
  shows "replies L i r'"
proof -
  let ?L = "json_lib.truncate L"
  obtain failed r1 where h: "error_handler L e r0 = Inr (failed, r1)"
    using assms(1) by (cases "error_handler L e r0") (auto simp: on_read_def)
  note h' = error_handler_replies [OF h assms(2)]
  show ?thesis
  proof (cases failed)
    case True
    then show ?thesis using assms(1) h h'(1) by (simp add: on_read_def)
  next
    case False
    obtain doc succ where p: "writer_parse ?L (req_result r0) (c_str body) = (doc, succ)"
      by (cases "writer_parse ?L (req_result r0) (c_str body)")
    from False assms(1) h h'(2) p obtain w where
      w: "(if \<not> succ \<and> status \<noteq> 200 then set_error doc 32002 (bs ''Incorrect response http status: '' @ reason L status)
           else Inr doc) = Inr w"
      "r' = stop_io (perform_callback L (r0\<lparr>m_timer := timer_stop (m_timer r0), req_result := w\<rparr>))"
      unfolding on_read_def rbind_def
      by (auto simp: Let_def split: sum.splits)
    have "error_reply i w \<or> empty_reply i w \<or> server_reply L w"
    proof (cases succ)
      case True
      then have "parse_json L (c_str (c_str body)) = Some w" using p w(1)
        by (auto simp: writer_parse_def json_lib.defs split: option.splits)
      then show ?thesis unfolding server_reply_def by blast
    next
      case False
      then have doc: "doc = req_result r0" using p by (auto simp: writer_parse_def split: option.splits)
      show ?thesis
      proof (cases "status = 200")
        case True
        then show ?thesis using w(1) assms(2) doc by (auto simp: resting_def)
      next
        case neq: False
        then have "set_error doc 32002 (bs ''Incorrect response http status: '' @ reason L status) = Inr w"
          using w(1) False by simp
        from set_error_reply [OF _ _ this] show ?thesis using assms(2) doc by (simp add: resting_def)
      qed
    qed
    then show ?thesis using w(2) assms(2)
      by (auto simp: resting_def replies_def perform_callback_def stop_io_def get_result_text_def)
  qed
qed

lemma set_calls_perform:
  "set (calls (perform_callback L r)) \<subseteq> insert (get_result_text (json_lib.truncate L) r) (set (calls r))"
  by (auto simp: perform_callback_def)

lemma fire_request_timer_replies:
  assumes "fire_request_timer L r = Inr r'" and "replies L i r" and "request_ok r"
  shows "replies L i r'"
proof (cases "t_handler (m_timer r) = None")
  case True
  then show ?thesis using assms(1,2) by (auto simp: fire_request_timer_def timer_fire_def replies_def)
next
  case False
  then have "pending_op r \<noteq> None" using assms(3) by (auto simp: request_ok_def after_connect_def)
  then have doc: "error_reply i (req_result r) \<or> empty_reply i (req_result r)" using assms(2) by (simp add: replies_def)
  let ?r = "\<lambda>w. r\<lparr>m_timer := m_timer r\<lparr>t_waiting := False\<rparr>, m_connect_timer := timer_stop (m_connect_timer r), req_result := w\<rparr>"
  obtain w where w: "set_error (req_result r) 32001 (bs ''Request timeout'') = Inr w"
    "r' = perform_callback L (?r w)\<lparr>m_timer := timer_fired (m_timer (perform_callback L (?r w)))\<rparr>"
    using assms(1) False
    by (cases "set_error (req_result r) 32001 (bs ''Request timeout'')")
      (auto simp: fire_request_timer_def timer_fire_def on_request_timeout_def Let_def)
  have "error_reply i w" by (rule set_error_reply [OF doc _ w(1)]) simp
  then show ?thesis using w(2) assms(2) set_calls_perform [of L "?r w"]
    by (auto simp: replies_def get_result_text_def)
qed

lemma step_replies:
  assumes "step L r (Inr r')" and "replies L i r" and "request_ok r"
  shows "replies L i r'"
  using assms(1)
proof (cases rule: step.cases)
  case (resolved r0 e)
  from resolved(1) [symmetric, unfolded on_resolve_def] completes_resting [OF resolved(2) assms(2)]
  show ?thesis by (rule error_then) simp_all
next
  case (connected r0 e)
  let ?r = "r0\<lparr>m_connect_timer := timer_stop (m_connect_timer r0)\<rparr>"
  have "resting L i ?r"
    using completes_resting [OF connected(2) assms(2)] by (simp add: resting_def replies_def)
  with connected(1) [symmetric, unfolded on_connect_def Let_def] show ?thesis by (rule error_then) simp_all
next
  case (shaken r0 e)
  from shaken(1) [symmetric, unfolded on_handshake_def] completes_resting [OF shaken(2) assms(2)]
  show ?thesis by (rule error_then) simp_all
next
  case (written r0 e)
  from written(1) [symmetric, unfolded on_write_def] completes_resting [OF written(2) assms(2)]
  show ?thesis by (rule error_then) simp_all
next
  case (read r0 e status body)
  from read(1) [symmetric] completes_resting [OF read(2) assms(2)] show ?thesis by (rule on_read_replies)
next
  case request_timer
  from request_timer(1) [symmetric] assms(2,3) show ?thesis by (rule fire_request_timer_replies)
next
  case connect_timer
  then show ?thesis using assms(2)
    by (auto simp: fire_connect_timer_def timer_simps on_connect_timeout_def replies_def)
qed

section \<open>Properties\<close>

lemma prepared_replies:
  assumes "prepared L host path body = Inr r" and "get (bs ''id'') (req_result r) = Inr (Some i)"
  shows "replies L' i (execute_async True r)"
proof -
  have "req_result r = new_writer \<or> (\<exists>id. set_id new_writer id = Inr (req_result r))"
    using assms(1) by (auto simp: prepared_def new_request_def set_path_def set_body_def Let_def rbind_eq_Inr
        split: prod.splits option.splits)
  then have "get (bs ''result'') (req_result r) = Inr None \<and> get (bs ''error'') (req_result r) = Inr None"
  proof (elim disjE exE)
    fix id
    assume "set_id new_writer id = Inr (req_result r)"
    from get_set_value [OF this [unfolded set_id_def]] show ?thesis
      by (simp add: new_writer_def get_writer_reset names_differ names_differ [symmetric])
  qed (simp add: new_writer_def get_writer_reset names_differ names_differ [symmetric])
  then show ?thesis using assms(2) prepared_fresh [OF assms(1)]
    by (auto simp: replies_def empty_reply_def execute_async_def split: prod.split)
qed

lemma moves_replies:
  "(moves L ^^ n) r s \<Longrightarrow> request_ok r \<Longrightarrow> replies L i r \<Longrightarrow> replies L i s"
proof (induction n arbitrary: s)
  case (Suc n)
  then obtain t where t: "(moves L ^^ n) r t" "moves L t s" by auto
  then show ?case
    using step_replies [of L t s i] Suc.IH [OF t(1) Suc.prems(2,3)] run_ok [OF t(1) Suc.prems(2)]
    by (simp add: moves_def)
qed simp

text \<open>A library that knows one text, and a run in which the host name is not found.\<close>

definition example_http :: http_lib where
  "example_http = \<lparr>parse_json = (\<lambda>t. if t = bs ''q'' then Some (JObject [(bs ''id'', JInt 7)]) else None),
     print_json = (\<lambda>doc. bs ''printed''), mpz_parse = (\<lambda>t. None), mpz_hex = (\<lambda>i. []),
     message = (\<lambda>e. bs ''Host not found''), reason = (\<lambda>s. [])\<rparr>"

lemma on_resolve_fails:
  assumes "on_resolve L e r = Inr s" and "snd e \<noteq> 0"
  shows "pending_op s = pending_op r"
proof (cases "set_error (req_result r) 32000 (c_str (message L e))")
  case (Inl x)
  then show ?thesis using assms unfolding on_resolve_def error_handler_def by simp
next
  case (Inr w)
  then show ?thesis using assms unfolding on_resolve_def error_handler_def by (auto simp: stop_io_def Let_def)
qed

lemma example_run:
  "\<exists>r s. prepared (json_lib.truncate example_http) (bs ''http://h'') None (bs ''q'') = Inr r
    \<and> get (bs ''id'') (req_result r) = Inr (Some (JInt 7))
    \<and> (moves example_http ^^ 1) (execute_async True r) s \<and> pending_op s = None"
proof -
  have c: "c_str (bs ''q'') = bs ''q''" by (simp add: c_str_def byte_simps)
  have id: "get_id (JObject [(bs ''id'', JInt 7)]) = Inr 7" by (simp add: get_id_def get_def IsInt_def)
  obtain w where w: "set_id new_writer 7 = Inr w" "get (bs ''id'') w = Inr (Some (JInt 7))"
    using set_value_ok [OF writer_reset_ok names_differ(1), of JNull "JInt 7"]
    by (auto simp: set_id_def new_writer_def)
  have parse: "reader_parse (json_lib.truncate example_http) (bs ''q'') = Some (JObject [(bs ''id'', JInt 7)])"
    unfolding reader_parse_def c json_lib.truncate_def example_http_def by simp
  have fresh: "req_result (new_request h) = new_writer" for h
    by (simp add: new_request_def set_path_def Let_def split: prod.split)
  define r where "r = (let r = new_request (bs ''http://h'')
    in r\<lparr>req_body := req_body r @ c_str (bs ''q''), req_result := w\<rparr>)"
  have r: "prepared (json_lib.truncate example_http) (bs ''http://h'') None (bs ''q'') = Inr r" "req_result r = w"
    by (simp_all add: r_def prepared_def Let_def set_body_def parse id fresh w(1))
  let ?s = "execute_async True r"
  have "completes Resolve ?s (?s\<lparr>pending_op := None\<rparr>)"
    using prepared_fresh(2) [OF r(1)] by (auto simp: completes_def execute_async_def split: prod.split)
  then have step: "step example_http ?s (on_resolve example_http (0, 1) (?s\<lparr>pending_op := None\<rparr>))"
    by (rule step.resolved)
  with step_ok [OF step start_ok(1) [OF r(1)]] obtain s where
    s: "on_resolve example_http (0, 1) (?s\<lparr>pending_op := None\<rparr>) = Inr s" by blast
  from on_resolve_fails [OF s] have "pending_op s = None" by simp
  moreover have "(moves example_http ^^ 1) ?s s" using step s by (auto simp: moves_def)
  ultimately show ?thesis using r w(2) by blast
qed

text \<open>C13: Whatever the network and the timers do, a request ends: no run has more than 40 steps, no step
  is undefined, and the callback is called at most once; once nothing more can happen it has been
  called exactly once. From the moment the connection stands, the request timer is there to call it.\<close>

theorem request_answers_once:
  assumes "prepared (json_lib.truncate L) host path body = Inr r"
    and "(moves L ^^ n) (execute_async True r) s"
  shows "n \<le> 40 \<and> length (calls s) \<le> 1
    \<and> (\<exists>s'. step L s s') = (pending_op s \<noteq> None \<or> t_waiting (m_timer s) \<or> t_waiting (m_connect_timer s))
    \<and> \<not> (\<exists>e. step L s (Inl e))
    \<and> (length (calls s) = 1 \<or> pending_op s \<noteq> None)
    \<and> (length (calls s) = 1 \<or> \<not> after_connect s \<or> t_waiting (m_timer s) \<and> t_handler (m_timer s) \<noteq> None)"
proof -
  from run_ok [OF assms(2) start_ok(1) [OF assms(1)]] start_ok(2) [OF assms(1)]
  have s: "request_ok s" "n \<le> 40" by simp_all
  have "(\<exists>s'. step L s s') = (pending_op s \<noteq> None \<or> t_waiting (m_timer s) \<or> t_waiting (m_connect_timer s))"
  proof
    assume "\<exists>s'. step L s s'"
    then show "pending_op s \<noteq> None \<or> t_waiting (m_timer s) \<or> t_waiting (m_connect_timer s)"
      by (auto simp: completes_def elim: step.cases)
  qed (use s(1) step_exists in \<open>auto simp: request_ok_def intro: step.intros\<close>)
  moreover have "\<not> (\<exists>e. step L s (Inl e))" using step_ok [OF _ s(1)] by fastforce
  ultimately show ?thesis using s by (auto simp: request_ok_def)
qed

theorem request_answers_once_witness:
  "\<exists>r s. (moves example_http ^^ 1) (execute_async True r) s \<and> length (calls s) = 1"
proof -
  from example_run obtain r s where "prepared (json_lib.truncate example_http) (bs ''http://h'') None (bs ''q'') = Inr r"
    "(moves example_http ^^ 1) (execute_async True r) s" "pending_op s = None" by blast
  with request_answers_once [OF this(1,2)] show ?thesis by blast
qed

text \<open>C31: What the callback is given is a text that the server sent (parsed and printed again), or an
  envelope with the request's id: with an error of code 32000 (network), 32001 (timeout) or 32002
  (HTTP status), or with neither error nor result, when the server answers 200 with a text that is
  not JSON.\<close>

theorem request_replies:
  assumes "prepared (json_lib.truncate L) host path body = Inr r"
    and "get (bs ''id'') (req_result r) = Inr (Some i)"
    and "(moves L ^^ n) (execute_async True r) s"
  shows "list_all (\<lambda>t. \<exists>doc. t = stringify (json_lib.truncate L) doc
    \<and> (error_reply i doc \<or> empty_reply i doc \<or> server_reply L doc)) (calls s)"
  using moves_replies [OF assms(3) start_ok(1) [OF assms(1)] prepared_replies [OF assms(1,2)]]
  by (simp add: replies_def list_all_iff)

theorem request_replies_witness:
  "\<exists>r s t doc. (moves example_http ^^ 1) (execute_async True r) s \<and> calls s = [t]
    \<and> (error_reply (JInt 7) doc \<or> empty_reply (JInt 7) doc \<or> server_reply example_http doc)"
proof -
  from example_run obtain r s where
    run: "prepared (json_lib.truncate example_http) (bs ''http://h'') None (bs ''q'') = Inr r"
      "get (bs ''id'') (req_result r) = Inr (Some (JInt 7))"
      "(moves example_http ^^ 1) (execute_async True r) s" "pending_op s = None" by blast
  have "request_ok s" using run_ok [OF run(3) start_ok(1) [OF run(1)]] by simp
  then obtain t where "calls s = [t]" using run(4) by (auto simp: request_ok_def length_Suc_conv)
  with request_replies [OF run(1-3)] run(3) show ?thesis by auto
qed

end
