(* ===== verification/Settings.thy ===== *)
theory Settings
  imports Prelude
begin

text \<open>
  \<open>src/src/settings/settings.h\<close> and \<open>settings.cpp\<close> (the configuration file and the command line) and
  \<open>src/src/main.cpp\<close> (start-up and the console loop). Boost's JSON property tree and its typed reads,
  the name resolver and the parsed command line are parameters.
\<close>

section \<open>The settings\<close>

record settings =
  any_conns :: bool
  port :: nat
  threads :: int
  token :: bytes
  coin_key :: int
  access :: "bytes list"
  server_address :: bytes
  wallet_stotage :: bytes

definition default_server :: bytes where
  "default_server = bs ''https://app.metahash.io/api/metachains/''"

definition initial_settings :: "bytes \<Rightarrow> settings" where
  "initial_settings current_path =
     \<lparr>any_conns = False, port = 9999, threads = 4, token = [], coin_key = - 1, access = [],
      server_address = default_server, wallet_stotage = current_path @ bs ''/wallet''\<rparr>"

section \<open>The configuration file\<close>

text \<open>\<open>get<T> (path, default)\<close> is an optional value: absent, or not of the type, and the default is
  used. \<open>children\<close> are the data of the nodes below a path. \<open>resolve\<close> gives the addresses of a name.\<close>

record ptree =
  get_ushort :: "bytes \<Rightarrow> nat option"
  get_int :: "bytes \<Rightarrow> int option"
  get_str :: "bytes \<Rightarrow> bytes option"
  children :: "bytes \<Rightarrow> bytes list"

definition or_default :: "'a option \<Rightarrow> 'a \<Rightarrow> 'a" where
  "or_default v d = (case v of None \<Rightarrow> d | Some x \<Rightarrow> x)"

fun resolve_access :: "(bytes \<Rightarrow> bytes list option) \<Rightarrow> bytes list \<Rightarrow> bytes list" where
  "resolve_access resolve [] = []"
| "resolve_access resolve (v # vs) =
     (case resolve v of
        None \<Rightarrow> resolve_access resolve vs
      | Some eps \<Rightarrow> eps @ resolve_access resolve vs)"

text \<open>\<open>None\<close>: \<open>read_json\<close> threw, and everything stays as it was.\<close>

definition read_file :: "bytes \<Rightarrow> (bytes \<Rightarrow> bytes list option) \<Rightarrow> ptree option \<Rightarrow> settings \<Rightarrow> settings" where
  "read_file current_path resolve tree s =
     (case tree of
        None \<Rightarrow> s
      | Some tree \<Rightarrow>
          (let s = s\<lparr>port := or_default (get_ushort tree (bs ''service.port'')) 9999\<rparr>;
               s = s\<lparr>threads := or_default (get_int tree (bs ''service.threads'')) 4\<rparr>;
               s = s\<lparr>token := or_default (get_str tree (bs ''service.token'')) []\<rparr>;
               s = s\<lparr>coin_key := or_default (get_int tree (bs ''service.coin-key'')) (- 1)\<rparr>;
               s = s\<lparr>access := access s @ resolve_access resolve (children tree (bs ''service.access''))\<rparr>;
               s = s\<lparr>server_address := or_default (get_str tree (bs ''server'')) default_server\<rparr>
           in s\<lparr>wallet_stotage := or_default (get_str tree (bs ''system.wallets-storage'')) (current_path @ bs ''/wallet'')\<rparr>))"

section \<open>The command line\<close>

datatype po_value = Present | IntV int | UShortV nat | StringV bytes

type_synonym variables_map = "bytes \<Rightarrow> po_value option"

fun as_int :: "po_value \<Rightarrow> int option" where
  "as_int (IntV i) = Some i" | "as_int _ = None"

fun as_ushort :: "po_value \<Rightarrow> nat option" where
  "as_ushort (UShortV i) = Some i" | "as_ushort _ = None"

fun as_string :: "po_value \<Rightarrow> bytes option" where
  "as_string (StringV s) = Some s" | "as_string _ = None"

text \<open>An option of another type than the one asked for (\<open>bad_any_cast\<close>) is \<open>None\<close>; the options that
  \<open>main\<close> declares have the types asked for.\<close>

definition option_as :: "(po_value \<Rightarrow> 'a option) \<Rightarrow> variables_map \<Rightarrow> bytes \<Rightarrow> ('a \<Rightarrow> settings \<Rightarrow> settings)
    \<Rightarrow> settings \<Rightarrow> settings option" where
  "option_as as_type vm name store s =
     (case vm name of None \<Rightarrow> Some s | Some v \<Rightarrow> map_option (\<lambda>x. store x s) (as_type v))"

definition read_vm :: "variables_map \<Rightarrow> settings \<Rightarrow> settings option" where
  "read_vm vm s =
     (let s = (if vm (bs ''any'') \<noteq> None then s\<lparr>any_conns := True\<rparr> else s) in
      Option.bind (option_as as_int vm (bs ''threads'') (\<lambda>i s. s\<lparr>threads := max i 1\<rparr>) s) (\<lambda>s.
      Option.bind (option_as as_ushort vm (bs ''port'') (\<lambda>i s. s\<lparr>port := i\<rparr>) s) (\<lambda>s.
      Option.bind (option_as as_string vm (bs ''addr'') (\<lambda>t s. s\<lparr>server_address := t\<rparr>) s) (\<lambda>s.
      Option.bind (option_as as_string vm (bs ''storage'') (\<lambda>t s. s\<lparr>wallet_stotage := t\<rparr>) s) (\<lambda>s.
      Option.bind (option_as as_string vm (bs ''token'') (\<lambda>t s. s\<lparr>token := t\<rparr>) s) (\<lambda>s.
      option_as as_int vm (bs ''coin-key'') (\<lambda>i s. s\<lparr>coin_key := i\<rparr>) s))))))"

section \<open>\<open>main\<close>\<close>

text \<open>The options that are declared, with the type of their value.\<close>

definition declared_options :: "(bytes \<times> (po_value \<Rightarrow> bool)) list" where
  "declared_options =
     [(bs ''help'', \<lambda>v. v = Present), (bs ''request'', \<lambda>v. v = Present),
      (bs ''threads'', \<lambda>v. as_int v \<noteq> None), (bs ''port'', \<lambda>v. as_ushort v \<noteq> None),
      (bs ''server'', \<lambda>v. as_string v \<noteq> None), (bs ''storage'', \<lambda>v. as_string v \<noteq> None),
      (bs ''any'', \<lambda>v. v = Present), (bs ''token'', \<lambda>v. as_string v \<noteq> None),
      (bs ''coin-key'', \<lambda>v. as_int v \<noteq> None)]"

text \<open>What \<open>po::store\<close> can put in the map: declared options with values of their type.\<close>

definition parsed :: "variables_map \<Rightarrow> bool" where
  "parsed vm \<longleftrightarrow>
     (\<forall>name v. vm name = Some v \<longrightarrow> (case map_of declared_options name of None \<Rightarrow> False | Some ok \<Rightarrow> ok v))"

datatype start = PrintHelp | PrintRequests | Serve settings | ExitFailure

text \<open>\<open>None\<close> for the command line is an error of the parser.\<close>

definition main ::
    "bytes \<Rightarrow> (bytes \<Rightarrow> bytes list option) \<Rightarrow> ptree option \<Rightarrow> variables_map option \<Rightarrow> start" where
  "main current_path resolve tree args =
     (let s = read_file current_path resolve tree (initial_settings current_path)
      in case args of
           None \<Rightarrow> ExitFailure
         | Some vm \<Rightarrow>
             if vm (bs ''help'') \<noteq> None then PrintHelp
             else if vm (bs ''request'') \<noteq> None then PrintRequests
             else (case read_vm vm s of None \<Rightarrow> ExitFailure | Some s \<Rightarrow> Serve s))"

section \<open>Properties\<close>

text \<open>The value of an option, if it is given, and storing it.\<close>

definition given :: "(po_value \<Rightarrow> 'a option) \<Rightarrow> variables_map \<Rightarrow> bytes \<Rightarrow> 'a option" where
  "given as_type vm name = Option.bind (vm name) as_type"

definition stored :: "'a option \<Rightarrow> ('a \<Rightarrow> 's \<Rightarrow> 's) \<Rightarrow> 's \<Rightarrow> 's" where
  "stored v store s = (case v of None \<Rightarrow> s | Some x \<Rightarrow> store x s)"

lemma stored_other: "(\<And>x s. sel (store x s) = sel s) \<Longrightarrow> sel (stored v store s) = sel s"
  by (simp add: stored_def split: option.split)

lemma stored_this: "(\<And>x s. sel (store x s) = f x) \<Longrightarrow> sel (stored v store s) = or_default (map_option f v) (sel s)"
  by (simp add: stored_def or_default_def split: option.split)

lemma option_as_parsed:
  assumes "parsed vm" and "map_of declared_options name = Some (\<lambda>v. as_type v \<noteq> None)"
  shows "option_as as_type vm name store s = Some (stored (given as_type vm name) store s)"
proof (cases "vm name")
  case (Some v)
  then have "as_type v \<noteq> None" using assms unfolding parsed_def by (fastforce split: option.splits)
  then show ?thesis using Some by (auto simp: option_as_def stored_def given_def)
qed (simp add: option_as_def stored_def given_def)

lemma declared_types:
  "map_of declared_options (bs ''threads'') = Some (\<lambda>v. as_int v \<noteq> None)"
  "map_of declared_options (bs ''port'') = Some (\<lambda>v. as_ushort v \<noteq> None)"
  "map_of declared_options (bs ''storage'') = Some (\<lambda>v. as_string v \<noteq> None)"
  "map_of declared_options (bs ''token'') = Some (\<lambda>v. as_string v \<noteq> None)"
  "map_of declared_options (bs ''coin-key'') = Some (\<lambda>v. as_int v \<noteq> None)"
  "map_of declared_options (bs ''addr'') = None"
  by (simp_all add: declared_options_def byte_simps)

lemma parsed_addr: "parsed vm \<Longrightarrow> vm (bs ''addr'') = None"
  using declared_types(6) unfolding parsed_def by (cases "vm (bs ''addr'')") (fastforce split: option.splits)+

lemma read_vm_parsed:
  assumes "parsed vm"
  shows "\<exists>s'. read_vm vm s = Some s' \<and> server_address s' = server_address s \<and> access s' = access s
    \<and> any_conns s' = (vm (bs ''any'') \<noteq> None \<or> any_conns s)
    \<and> port s' = or_default (given as_ushort vm (bs ''port'')) (port s)
    \<and> threads s' = or_default (map_option (\<lambda>i. max i 1) (given as_int vm (bs ''threads''))) (threads s)
    \<and> wallet_stotage s' = or_default (given as_string vm (bs ''storage'')) (wallet_stotage s)
    \<and> token s' = or_default (given as_string vm (bs ''token'')) (token s)
    \<and> coin_key s' = or_default (given as_int vm (bs ''coin-key'')) (coin_key s)"
proof -
  note opt = declared_types(1-5) [THEN option_as_parsed [OF assms]]
  have "option_as as_string vm (bs ''addr'') (\<lambda>t s. s\<lparr>server_address := t\<rparr>) s = Some s" for s
    using parsed_addr [OF assms] by (simp add: option_as_def)
  note run = opt this bind.bind_lunit
  note other = stored_other [of server_address] stored_other [of any_conns] stored_other [of access]
    stored_other [of port] stored_other [of wallet_stotage] stored_other [of token] stored_other [of coin_key]
    stored_other [of threads]
  note this' = stored_this [of port _ "\<lambda>i. i"] stored_this [of threads _ "\<lambda>i. max i 1"]
    stored_this [of wallet_stotage _ "\<lambda>t. t"] stored_this [of token _ "\<lambda>t. t"] stored_this [of coin_key _ "\<lambda>i. i"]
  show ?thesis
    unfolding read_vm_def Let_def by (simp add: run other this' option.map_ident)
qed

lemma server_address_read_file:
  "server_address (read_file dir resolve tree (initial_settings dir)) = (case tree of None \<Rightarrow> default_server
     | Some t \<Rightarrow> or_default (get_str t (bs ''server'')) default_server)"
  "any_conns (read_file dir resolve tree (initial_settings dir)) = False"
  by (simp_all add: read_file_def initial_settings_def Let_def split: option.split)

text \<open>C33: A command line that the parser accepts always starts the service (or prints a help text). Each of
  the options \<open>--port\<close>, \<open>--threads\<close>, \<open>--storage\<close>, \<open>--token\<close> and \<open>--coin-key\<close> has the effect of its value (for the
  threads at least one), and where it is not given the setting is that of the configuration file; \<open>--any\<close> opens the service
  to every address, else the list of the file holds. The option \<open>--server\<close>,
  however, has no effect: the address is that of the configuration file, whatever is given.\<close>

theorem command_line:
  assumes "parsed vm" and "vm (bs ''help'') = None" and "vm (bs ''request'') = None"
  shows "let conf = read_file dir resolve tree (initial_settings dir) in case main dir resolve tree (Some vm) of
      Serve s \<Rightarrow>
        server_address s = (case tree of None \<Rightarrow> default_server
          | Some t \<Rightarrow> or_default (get_str t (bs ''server'')) default_server)
        \<and> port s = or_default (given as_ushort vm (bs ''port'')) (port conf)
        \<and> threads s = or_default (map_option (\<lambda>i. max i 1) (given as_int vm (bs ''threads''))) (threads conf)
        \<and> wallet_stotage s = or_default (given as_string vm (bs ''storage'')) (wallet_stotage conf)
        \<and> token s = or_default (given as_string vm (bs ''token'')) (token conf)
        \<and> coin_key s = or_default (given as_int vm (bs ''coin-key'')) (coin_key conf)
        \<and> any_conns s = (vm (bs ''any'') \<noteq> None) \<and> access s = access conf
    | _ \<Rightarrow> False"
  using read_vm_parsed [OF assms(1), of "read_file dir resolve tree (initial_settings dir)"] assms(2,3)
    server_address_read_file [of dir resolve tree]
  unfolding main_def Let_def by auto

theorem command_line_witness:
  "case main (bs ''/d'') (\<lambda>n. None) None
      (Some [bs ''server'' \<mapsto> StringV (bs ''http://x/''), bs ''threads'' \<mapsto> IntV 0,
            bs ''port'' \<mapsto> UShortV 80, bs ''storage'' \<mapsto> StringV (bs ''/w'')]) of
     Serve s \<Rightarrow> server_address s = default_server \<and> threads s = 1 \<and> port s = 80 \<and> wallet_stotage s = bs ''/w''
       \<and> coin_key s = - 1
   | _ \<Rightarrow> False"
proof -
  let ?vm = "[bs ''server'' \<mapsto> StringV (bs ''http://x/''), bs ''threads'' \<mapsto> IntV 0,
    bs ''port'' \<mapsto> UShortV 80, bs ''storage'' \<mapsto> StringV (bs ''/w'')]"
  have "parsed ?vm" by (auto simp: parsed_def declared_options_def byte_simps split: if_splits)
  moreover have "?vm (bs ''help'') = None" "?vm (bs ''request'') = None" by (simp_all add: byte_simps)
  moreover have "given as_ushort ?vm (bs ''port'') = Some 80" "given as_int ?vm (bs ''threads'') = Some 0"
    "given as_string ?vm (bs ''storage'') = Some (bs ''/w'')" "given as_int ?vm (bs ''coin-key'') = None"
    by (simp_all add: given_def byte_simps)
  ultimately show ?thesis
    using command_line [where vm = ?vm and dir = "bs ''/d''" and resolve = "\<lambda>n. None" and tree = None]
    by (simp add: or_default_def read_file_def initial_settings_def split: start.split_asm start.split)
qed

end
