(* ===== verification/Handlers.thy ===== *)
theory Handlers
  imports HttpRequest Settings BtcWallet
begin

text \<open>
  The request handlers of \<open>src/src/task_handlers\<close>: one record per class, extending the record of its
  base class, and one definition per operation. An operation is a function from the handler to an
  outcome and the handler: what was assigned before an exception stays assigned. What a handler hands
  to others (a reply to the client, a request to the server, its own execution) is put in \<open>posted\<close>.

  \<open>END_TRY\<close> is the macro of \<open>exception/except.h\<close>: any exception becomes an error reply in the writer.
\<close>

section \<open>Surroundings\<close>

record service =
  s_http :: http_lib
  s_crypto :: crypto
  s_scrypt :: scrypt_env
  s_scrypt2 :: scrypt_env
  s_wallet :: wallet_env
  s_settings :: settings
  s_what :: "std_exception \<Rightarrow> bytes"    \<comment> \<open>\<open>ex.what ()\<close>\<close>
  s_key :: "bool \<times> bytes"              \<comment> \<open>the key generator's answer\<close>
  s_uninit :: u64                       \<comment> \<open>the value field of a fresh \<open>BtcInput\<close>\<close>

definition lib :: "service \<Rightarrow> json_lib" where
  "lib E = json_lib.truncate (s_http E)"

datatype continuation = OnComplete u32 | OnTransactionParams u32

datatype posted =
    SendJson bytes
  | SendRequest request continuation
  | PostExecute

record handler =
  disk :: filesys
  m_pending :: bool        \<comment> \<open>\<open>m_result.pending\<close>\<close>
  m_reader :: json
  m_writer :: json
  m_id :: u32
  posted :: "posted list"

section \<open>Operations that may throw\<close>

type_synonym ('h, 'a) act = "'h \<Rightarrow> 'a res \<times> 'h"

definition ret :: "'a \<Rightarrow> ('h, 'a) act" where "ret x = (\<lambda>h. (Inr x, h))"
definition raise :: "exc \<Rightarrow> ('h, 'a) act" where "raise e = (\<lambda>h. (Inl e, h))"
definition lift :: "'a res \<Rightarrow> ('h, 'a) act" where "lift r = (\<lambda>h. (r, h))"
definition read_state :: "('h \<Rightarrow> 'a) \<Rightarrow> ('h, 'a) act" where "read_state f = (\<lambda>h. (Inr (f h), h))"
definition assign :: "('h \<Rightarrow> 'h) \<Rightarrow> ('h, unit) act" where "assign f = (\<lambda>h. (Inr (), f h))"

definition andThen :: "('h, 'a) act \<Rightarrow> ('a \<Rightarrow> ('h, 'b) act) \<Rightarrow> ('h, 'b) act" where
  "andThen m f = (\<lambda>h. case m h of (Inl e, h) \<Rightarrow> (Inl e, h) | (Inr x, h) \<Rightarrow> f x h)"

definition check :: "bool \<Rightarrow> bytes \<Rightarrow> ('h, unit) act" where
  "check condition msg = lift (CHK_PRM condition msg (Inr ()))"

definition write_doc :: "(json \<Rightarrow> json res) \<Rightarrow> ('a handler_scheme, unit) act" where
  "write_doc f = (\<lambda>h. case f (m_writer h) of Inl e \<Rightarrow> (Inl e, h) | Inr w \<Rightarrow> (Inr (), h\<lparr>m_writer := w\<rparr>))"

definition post :: "posted \<Rightarrow> 'a handler_scheme \<Rightarrow> 'a handler_scheme" where
  "post p h = h\<lparr>posted := posted h @ [p]\<rparr>"

text \<open>\<open>boost::asio::post (send_json, m_session, m_writer.stringify ())\<close>\<close>

definition post_send_json :: "service \<Rightarrow> ('a handler_scheme, unit) act" where
  "post_send_json E = assign (\<lambda>h. post (SendJson (stringify (lib E) (m_writer h))) h)"

text \<open>The clauses of \<open>END_TRY\<close>. Undefined behaviour and \<open>abort\<close> are not exceptions.\<close>

definition error_of :: "service \<Rightarrow> exc \<Rightarrow> (int \<times> bytes) option" where
  "error_of E e =
     (case e of
        TypedException t description \<Rightarrow> Some (- 32669, description)
      | InvalidParam msg \<Rightarrow> Some (- 32668, c_str msg)
      | StdException x \<Rightarrow> Some (- 32667, s_what E x)
      | StringException s \<Rightarrow> Some (- 32666, bs ''Unhandled exception'')
      | AssertFailed \<Rightarrow> None
      | Undefined note \<Rightarrow> None)"

definition END_TRY ::
    "service \<Rightarrow> 'b \<Rightarrow> ('a handler_scheme, unit) act \<Rightarrow> ('a handler_scheme, 'b) act \<Rightarrow> ('a handler_scheme, 'b) act" where
  "END_TRY E r param body = (\<lambda>h.
     case body h of
       (Inr x, h) \<Rightarrow> (Inr x, h)
     | (Inl e, h) \<Rightarrow>
         (case error_of E e of
            None \<Rightarrow> (Inl e, h)
          | Some (code, msg) \<Rightarrow>
              andThen (write_doc (\<lambda>w. set_error (writer_reset w) code msg)) (\<lambda>_.
              andThen param (\<lambda>_. ret r)) h))"

section \<open>\<open>base_handler\<close>\<close>

definition new_handler :: "filesys \<Rightarrow> handler" where
  "new_handler fs = \<lparr>disk = fs, m_pending = False, m_reader = JNull, m_writer = new_writer, m_id = 0, posted = []\<rparr>"

definition handler_result :: "service \<Rightarrow> 'a handler_scheme \<Rightarrow> bytes \<times> bool" where
  "handler_result E h = (stringify (lib E) (m_writer h), m_pending h)"

definition prepare ::
    "service \<Rightarrow> ('a handler_scheme, bool) act \<Rightarrow> bytes \<Rightarrow> ('a handler_scheme, bool) act" where
  "prepare E prepare_params params =
     END_TRY E False (ret ())
       (andThen (case reader_parse (lib E) params of
                   None \<Rightarrow> raise (InvalidParam (bs ''Parse error''))
                 | Some doc \<Rightarrow> assign (\<lambda>h. h\<lparr>m_reader := doc\<rparr>)) (\<lambda>_.
        andThen (read_state m_reader) (\<lambda>doc.
        andThen (lift (get_id doc)) (\<lambda>id.
        andThen (assign (\<lambda>h. h\<lparr>m_id := id\<rparr>)) (\<lambda>_.
        andThen (write_doc (\<lambda>w. set_id w id)) (\<lambda>_.
        andThen (check (coin_key (s_settings E) \<noteq> - 1) (bs ''Coin-key is not present'')) (\<lambda>_.
        andThen (check (token (s_settings E) \<noteq> []) (bs ''Token is not present'')) (\<lambda>_.
        andThen prepare_params (\<lambda>success.
        andThen (read_state m_pending) (\<lambda>pending.
        andThen (if \<not> success \<and> \<not> pending
                 then andThen (read_state m_writer) (\<lambda>w.
                      andThen (lift (is_error w)) (\<lambda>err.
                      if \<not> err
                      then write_doc (\<lambda>w. set_error (writer_reset w) (- 32602) (bs ''Invalid params''))
                      else ret ()))
                 else ret ()) (\<lambda>_.
        ret success)))))))))))"

definition check_id :: "('a handler_scheme, unit) act" where
  "check_id = andThen (read_state m_id) (\<lambda>id. check (id \<noteq> 0) (bs ''id field not found''))"

text \<open>\<open>get_params\<close> with the check that it is there; a string member with the checks that it is there and
  not empty.\<close>

definition params_of :: "('a handler_scheme, json) act" where
  "params_of =
     andThen (read_state m_reader) (\<lambda>doc.
     andThen (lift (get_params doc)) (\<lambda>params.
     case params of None \<Rightarrow> raise (InvalidParam (bs ''params field not found'')) | Some p \<Rightarrow> ret p))"

definition string_field ::
    "json \<Rightarrow> bytes \<Rightarrow> bytes \<Rightarrow> bytes \<Rightarrow> (bytes \<Rightarrow> 'h \<Rightarrow> 'h) \<Rightarrow> ('h, bytes) act" where
  "string_field params name missing is_empty store =
     (case get_string name params of
        None \<Rightarrow> raise (InvalidParam missing)
      | Some s \<Rightarrow> andThen (assign (store s)) (\<lambda>_. andThen (check (s \<noteq> []) is_empty) (\<lambda>_. ret s)))"

section \<open>\<open>generate_handler\<close>\<close>

record generate_handler = handler +
  gen_password :: bytes

fun allowed_password :: "bytes \<Rightarrow> bool" where
  "allowed_password [] = True"
| "allowed_password (c # cs) = (if 0x20 \<le> c \<and> c \<le> 0x7e then allowed_password cs else False)"

definition generate_prepare_params :: "service \<Rightarrow> (generate_handler, bool) act" where
  "generate_prepare_params E =
     END_TRY E False (ret ())
       (andThen check_id (\<lambda>_.
        andThen params_of (\<lambda>params.
        andThen (string_field params (bs ''password'') (bs ''password field not found'') (bs ''empty password'')
                   (\<lambda>s h. h\<lparr>gen_password := s\<rparr>)) (\<lambda>password.
        andThen (check (allowed_password password) (bs ''password contains not allowed symbols'')) (\<lambda>_.
        ret True)))))"

definition generate_execute :: "service \<Rightarrow> (generate_handler, unit) act" where
  "generate_execute E =
     END_TRY E () (ret ())
       (andThen (read_state id) (\<lambda>h.
        andThen (\<lambda>h. case genPrivateKey (s_crypto E) (s_scrypt E) (s_scrypt2 E) (disk h) (fst (s_key E)) (snd (s_key E))
                          (wallet_stotage (s_settings E)) (gen_password h) of (r, fs) \<Rightarrow> (r, h\<lparr>disk := fs\<rparr>)) (\<lambda>(addr, w).
        write_doc (\<lambda>doc. add_result doc (bs ''address'') (JString addr)))))"

section \<open>\<open>base_network_handler\<close>\<close>

text \<open>\<open>m_async_execute\<close> is true and assigned nowhere; \<open>execute\<close> is its asynchronous branch.\<close>

record network_handler = handler +
  m_request :: request

definition network_execute :: "service \<Rightarrow> ('a network_handler_scheme, unit) act" where
  "network_execute E =
     END_TRY E () (ret ())
       (andThen (assign (\<lambda>h. h\<lparr>m_request := set_path (get_method (m_reader h)) (m_request h)\<rparr>)) (\<lambda>_.
        andThen (\<lambda>h. case set_body (lib E) (stringify (lib E) (m_writer h)) (m_request h) of
                   Inl e \<Rightarrow> (Inl e, h) | Inr r \<Rightarrow> (Inr (), h\<lparr>m_request := r\<rparr>)) (\<lambda>_.
        andThen (assign (\<lambda>h. h\<lparr>m_pending := True\<rparr>)) (\<lambda>_.
        andThen (assign (\<lambda>h. h\<lparr>m_request := execute_async True (m_request h)\<rparr>)) (\<lambda>_.
        assign (\<lambda>h. post (SendRequest (m_request h) (OnComplete (m_id h))) h))))))"

definition json_rpc_service :: "bytes list" where
  "json_rpc_service = [bs ''id'', bs ''version'', bs ''result'', bs ''error'']"

fun add_members :: "(bytes \<times> json) list \<Rightarrow> ('a handler_scheme, unit) act" where
  "add_members [] = ret ()"
| "add_members ((n, v) # ms) =
     (let name = toLower (c_str n)
      in if name \<in> set json_rpc_service then add_members ms
         else andThen (write_doc (\<lambda>w. add_value w (c_str n) v)) (\<lambda>_. add_members ms))"

definition members :: "json \<Rightarrow> (bytes \<times> json) list res" where
  "members doc = (case doc of JObject ms \<Rightarrow> Inr ms | _ \<Rightarrow> Inl (Undefined (bs ''GetObject: not an object'')))"

text \<open>\<open>text\<close> is \<open>req->get_result ()\<close>.\<close>

definition on_complete :: "service \<Rightarrow> u32 \<Rightarrow> bytes \<Rightarrow> ('a handler_scheme, unit) act" where
  "on_complete E rid txt =
     END_TRY E () (post_send_json E)
       (andThen (assign (\<lambda>h. h\<lparr>m_writer := writer_reset (m_writer h)\<rparr>)) (\<lambda>_.
        case reader_parse (lib E) txt of
          None \<Rightarrow> raise (InvalidParam (bs ''Invalid response json''))
        | Some doc \<Rightarrow>
            andThen (lift (get_id doc)) (\<lambda>id'.
            andThen (check (id' \<noteq> 0 \<and> id' = rid) (bs ''Returned id doesn't match'')) (\<lambda>_.
            andThen (lift (get_error doc)) (\<lambda>err.
            andThen (lift (get_result doc)) (\<lambda>res.
            andThen (check (err \<noteq> None \<or> res \<noteq> None) (bs ''No occur result or error'')) (\<lambda>_.
            andThen (case err of
                       Some e \<Rightarrow> write_doc (\<lambda>w. set_error_value w e)
                     | None \<Rightarrow> (case res of Some r \<Rightarrow> write_doc (\<lambda>w. set_result w r) | None \<Rightarrow> ret ())) (\<lambda>_.
            andThen (lift (members doc)) (\<lambda>ms.
            andThen (add_members ms) (\<lambda>_.
            post_send_json E))))))))))"

section \<open>\<open>fetch_balance_handler\<close> and \<open>fetch_history_handler\<close>\<close>

text \<open>Both write a request with one object, the coin and what is asked for, in an array.\<close>

definition write_call :: "service \<Rightarrow> bytes \<Rightarrow> json \<Rightarrow> ('a handler_scheme, unit) act" where
  "write_call E method asked =
     andThen (write_doc (\<lambda>w. add w (bs ''method'') (JString method))) (\<lambda>_.
     andThen (write_doc (\<lambda>w. add w (bs ''token'') (JString (token (s_settings E))))) (\<lambda>_.
     write_doc (\<lambda>w. set_params w
       (JArray [JObject [(bs ''currency'', JInt (coin_key (s_settings E))), (bs ''address'', asked)]]))))"

definition fetch_balance_prepare_params :: "service \<Rightarrow> (network_handler, bool) act" where
  "fetch_balance_prepare_params E =
     END_TRY E False (ret ())
       (andThen check_id (\<lambda>_.
        andThen params_of (\<lambda>params.
        andThen (string_field params (bs ''address'') (bs ''address field not found'') (bs ''address empty'')
                   (\<lambda>s h. h)) (\<lambda>addr.
        andThen (write_call E (bs ''address.balance'') (JArray [JString addr])) (\<lambda>_.
        ret True)))))"

definition fetch_history_prepare_params :: "service \<Rightarrow> (network_handler, bool) act" where
  "fetch_history_prepare_params E =
     END_TRY E False (ret ())
       (andThen check_id (\<lambda>_.
        andThen params_of (\<lambda>params.
        andThen (string_field params (bs ''address'') (bs ''address field not found'') (bs ''address empty'')
                   (\<lambda>s h. h)) (\<lambda>addr.
        andThen (write_call E (bs ''address.transaction'') (JString addr)) (\<lambda>_.
        ret True)))))"

section \<open>The methods that are not implemented\<close>

definition unimplemented_prepare_params :: "service \<Rightarrow> (network_handler, bool) act" where
  "unimplemented_prepare_params E =
     END_TRY E False (ret ())
       (andThen check_id (\<lambda>_.
        andThen (check False (bs ''method has not implemented'')) (\<lambda>_.
        ret False)))"

definition get_blocks_prepare_params where "get_blocks_prepare_params = unimplemented_prepare_params"
definition get_tx_prepare_params where "get_tx_prepare_params = unimplemented_prepare_params"
definition get_last_txs_prepare_params where "get_last_txs_prepare_params = unimplemented_prepare_params"
definition get_count_blocks_prepare_params where "get_count_blocks_prepare_params = unimplemented_prepare_params"
definition get_block_by_hash_prepare_params where "get_block_by_hash_prepare_params = unimplemented_prepare_params"
definition get_block_by_number_prepare_params where "get_block_by_number_prepare_params = unimplemented_prepare_params"
definition get_dump_block_by_hash_prepare_params where
  "get_dump_block_by_hash_prepare_params = unimplemented_prepare_params"
definition get_dump_block_by_number_prepare_params where
  "get_dump_block_by_number_prepare_params = unimplemented_prepare_params"

end
