(* ===== verification/TxHandlers.thy ===== *)
theory TxHandlers
  imports Handlers
begin

text \<open>
  \<open>src/src/task_handlers/create_tx_base_handler.cpp\<close> with its classes \<open>create_tx_handler\<close> and
  \<open>send_tx_handler\<close>: the request asks the server for the unspent outputs and the fee estimate, builds and
  signs a transaction from the answer, and then replies (\<open>create-tx\<close>) or sends it (\<open>send-tx\<close>). Then
  \<open>task_handlers.cpp\<close>: the table of methods and \<open>perform\<close>.
\<close>

section \<open>\<open>create_tx_base_handler\<close>\<close>

record create_tx_handler = network_handler +
  m_btc_wallet :: "wallet option"
  m_address :: bytes
  m_password :: bytes
  m_to :: bytes
  m_nonce :: bytes
  m_fee :: bytes
  m_value :: bytes
  m_estimate_fee :: bytes
  m_utxos :: "BtcInput list"

text \<open>\<open>value\<close> and \<open>fee\<close>: a string is kept in lower case; unless it then is \<open>word\<close>, \<open>val2hex\<close> replaces it.\<close>

definition amount_field ::
    "service \<Rightarrow> json \<Rightarrow> bytes \<Rightarrow> bytes \<Rightarrow> bytes \<Rightarrow> bytes \<Rightarrow> ('h \<Rightarrow> bytes) \<Rightarrow> (bytes \<Rightarrow> 'h \<Rightarrow> 'h) \<Rightarrow> ('h, unit) act" where
  "amount_field E params name word missing bad field store =
     andThen (lift (get name params)) (\<lambda>jValue.
     case jValue of
       None \<Rightarrow> raise (InvalidParam missing)
     | Some j \<Rightarrow>
         andThen (case j of JString s \<Rightarrow> assign (store (toLower (c_str s))) | _ \<Rightarrow> ret ()) (\<lambda>_.
         andThen (read_state field) (\<lambda>m.
         if m \<noteq> word
         then andThen (lift (val2hex (lib E) (Some j))) (\<lambda>r.
              case r of None \<Rightarrow> raise (InvalidParam bad) | Some t \<Rightarrow> assign (store t))
         else ret ())))"

definition hex_field :: "service \<Rightarrow> json \<Rightarrow> bytes \<Rightarrow> (bytes \<Rightarrow> 'h \<Rightarrow> 'h) \<Rightarrow> ('h, unit) act" where
  "hex_field E j bad store =
     andThen (lift (val2hex (lib E) (Some j))) (\<lambda>r.
     case r of None \<Rightarrow> raise (InvalidParam bad) | Some t \<Rightarrow> assign (store t))"

definition store_nonce :: "bytes \<Rightarrow> create_tx_handler \<Rightarrow> create_tx_handler" where "store_nonce t h = h\<lparr>m_nonce := t\<rparr>"
definition store_fee :: "bytes \<Rightarrow> create_tx_handler \<Rightarrow> create_tx_handler" where "store_fee t h = h\<lparr>m_fee := t\<rparr>"
definition store_value :: "bytes \<Rightarrow> create_tx_handler \<Rightarrow> create_tx_handler" where "store_value t h = h\<lparr>m_value := t\<rparr>"

definition get_transaction_params :: "service \<Rightarrow> (create_tx_handler, bool) act" where
  "get_transaction_params E =
     END_TRY E False (ret ())
       (andThen (read_state m_address) (\<lambda>addr.
        andThen (lift (
            rbind (set_id new_writer 1) (\<lambda>writer.
            rbind (add writer (bs ''method'') (JString (bs ''transaction.params''))) (\<lambda>writer.
            rbind (add writer (bs ''token'') (JString (token (s_settings E)))) (\<lambda>writer.
            set_params writer
              (JArray [JObject [(bs ''currency'', JInt (coin_key (s_settings E))), (bs ''address'', JString addr)]])))))) (\<lambda>writer.
        andThen (lift (set_body (lib E) (stringify (lib E) writer) (new_request (server_address (s_settings E))))) (\<lambda>req.
        andThen (assign (post (SendRequest (execute_async True req) (OnTransactionParams 1)))) (\<lambda>_.
        ret True)))))"

definition open_wallet :: "service \<Rightarrow> (create_tx_handler, unit) act" where
  "open_wallet E =
     andThen (read_state id) (\<lambda>h.
     andThen (lift (BtcWallet_file (s_crypto E) (s_scrypt E) (disk h) (wallet_stotage (s_settings E))
                      (m_address h) (m_password h))) (\<lambda>w.
     assign (\<lambda>h. h\<lparr>m_btc_wallet := Some w\<rparr>)))"

definition create_tx_prepare_params :: "service \<Rightarrow> (create_tx_handler, bool) act" where
  "create_tx_prepare_params E =
     END_TRY E False (post_send_json E)
       (andThen check_id (\<lambda>_.
        andThen params_of (\<lambda>params.
        andThen (string_field params (bs ''address'') (bs ''address field not found'') (bs ''address field empty'')
                   (\<lambda>s h. h\<lparr>m_address := s\<rparr>)) (\<lambda>_.
        andThen (string_field params (bs ''password'') (bs ''password field not found'') (bs ''empty password'')
                   (\<lambda>s h. h\<lparr>m_password := s\<rparr>)) (\<lambda>_.
        andThen (string_field params (bs ''to'') (bs ''to field not found'') (bs ''to field empty'')
                   (\<lambda>s h. h\<lparr>m_to := s\<rparr>)) (\<lambda>_.
        andThen (amount_field E params (bs ''value'') (bs ''all'') (bs ''value field not found'')
                   (bs ''value field incorrect format'') m_value store_value) (\<lambda>_.
        andThen (andThen (lift (get (bs ''nonce'') params)) (\<lambda>jValue.
                 case jValue of None \<Rightarrow> ret () | Some j \<Rightarrow> hex_field E j (bs ''nonce field incorrect format'') store_nonce)) (\<lambda>_.
        andThen (amount_field E params (bs ''fee'') (bs ''auto'') (bs ''fee field not found'')
                   (bs ''fee field incorrect format'') m_fee store_fee) (\<lambda>_.
        andThen (open_wallet E) (\<lambda>_.
        andThen (assign (\<lambda>h. h\<lparr>m_pending := True\<rparr>)) (\<lambda>_.
        andThen (get_transaction_params E) (\<lambda>ok.
        andThen (check ok (bs ''get transaction params error'')) (\<lambda>_.
        ret False)))))))))))))"

text \<open>The answer of the server. \<open>check_json\<close> reports a wrong answer in the writer and returns false.\<close>

definition check_json :: "service \<Rightarrow> bytes \<Rightarrow> u32 \<Rightarrow> (create_tx_handler, bool) act" where
  "check_json E txt rid =
     END_TRY E False (ret ())
       (case reader_parse (lib E) txt of
          None \<Rightarrow> raise (InvalidParam (bs ''Invalid response json''))
        | Some doc \<Rightarrow>
            andThen (lift (get_id doc)) (\<lambda>id'.
            andThen (check (id' \<noteq> 0 \<and> id' = rid) (bs ''Returned id doesn't match'')) (\<lambda>_.
            andThen (lift (get_error doc)) (\<lambda>err.
            andThen (lift (get_result doc)) (\<lambda>res.
            andThen (check (err \<noteq> None \<or> res \<noteq> None) (bs ''No occur result or error'')) (\<lambda>_.
            case err of
              Some e \<Rightarrow> andThen (write_doc (\<lambda>w. set_error_value w e)) (\<lambda>_. ret False)
            | None \<Rightarrow> ret True))))))"

text \<open>\<open>iss >> tx.value\<close>: nothing but white space leaves the field as it is; a text that is not a number
  gives 0, one out of range the largest number.\<close>

definition read_number :: "u64 \<Rightarrow> bytes \<Rightarrow> u64" where
  "read_number old s =
     (if dropWhile isspace (c_str s) = [] then old
      else case strto_decimal s of
        None \<Rightarrow> 0
      | Some v \<Rightarrow> if 2 ^ 64 \<le> \<bar>v\<bar> then - 1 else of_int v)"

text \<open>One element of the array; \<open>Inr None\<close> is \<open>continue\<close>.\<close>

definition read_utxo :: "service \<Rightarrow> json \<Rightarrow> BtcInput option res" where
  "read_utxo E v =
     (case v of
        JObject ms \<Rightarrow>
          (case map_of ms (bs ''tx_hash'') of
             Some (JString h) \<Rightarrow>
               (case map_of ms (bs ''tx_index'') of
                  Some (JInt i) \<Rightarrow>
                    if \<not> IsInt i then Inr None
                    else if \<not> IsUint i then Inl (Undefined (bs ''GetUint: negative''))
                    else (case map_of ms (bs ''value'') of
                       Some (JString val) \<Rightarrow>
                         (case map_of ms (bs ''scriptPubKey'') of
                            Some (JString script) \<Rightarrow>
                              Inr (Some \<lparr>tx_hash = c_str h, tx_index = of_int i, scriptPubkey = c_str script,
                                         utxo_value = read_number (s_uninit E) val\<rparr>)
                          | _ \<Rightarrow> Inr None)
                     | _ \<Rightarrow> Inr None)
                | _ \<Rightarrow> Inr None)
           | _ \<Rightarrow> Inr None)
      | _ \<Rightarrow> Inr None)"

fun read_utxos :: "service \<Rightarrow> json list \<Rightarrow> (create_tx_handler, unit) act" where
  "read_utxos E [] = ret ()"
| "read_utxos E (v # vs) =
     andThen (lift (read_utxo E v)) (\<lambda>r.
     andThen (case r of None \<Rightarrow> ret () | Some tx \<Rightarrow> assign (\<lambda>h. h\<lparr>m_utxos := m_utxos h @ [tx]\<rparr>)) (\<lambda>_.
     read_utxos E vs))"

definition build_request :: "service \<Rightarrow> (create_tx_handler, unit) act" where
  "build_request E =
     END_TRY E () (post_send_json E)
       (andThen (read_state id) (\<lambda>h.
        andThen (lift (if m_estimate_fee h \<noteq> [] then stoul (m_estimate_fee h) else Inr 0)) (\<lambda>estimateFeeInSatoshi.
        andThen (case m_btc_wallet h of
                   None \<Rightarrow> raise (Undefined (bs ''m_btc_wallet is null''))
                 | Some w \<Rightarrow> lift (buildTransaction (s_crypto E) (s_wallet E) w (m_utxos h) estimateFeeInSatoshi
                                    (m_value h) (m_fee h) (m_to h))) (\<lambda>(raw, used).
        andThen (write_doc (\<lambda>w. set_method w (bs ''transaction.add.raw''))) (\<lambda>_.
        andThen (write_doc (\<lambda>w. add w (bs ''token'') (JString (token (s_settings E))))) (\<lambda>_.
        andThen (write_doc (\<lambda>w. set_params w
           (JArray [JObject [(bs ''currency'', JInt (coin_key (s_settings E))), (bs ''raw'', JString raw)]]))) (\<lambda>_.
        assign (post PostExecute))))))))"

definition store_estimate :: "bytes \<Rightarrow> create_tx_handler \<Rightarrow> create_tx_handler" where
  "store_estimate t h = h\<lparr>m_estimate_fee := t\<rparr>"

definition data_member :: "json \<Rightarrow> bytes \<Rightarrow> bytes \<Rightarrow> ('h, json) act" where
  "data_member d name missing =
     andThen (lift (get name d)) (\<lambda>v. case v of None \<Rightarrow> raise (InvalidParam missing) | Some j \<Rightarrow> ret j)"

definition use_transaction_params :: "service \<Rightarrow> json \<Rightarrow> (create_tx_handler, unit) act" where
  "use_transaction_params E doc =
     andThen (data_member doc (bs ''data'') (bs ''data field not found'')) (\<lambda>d.
     andThen (check (IsObject d) (bs ''data field incorrect'')) (\<lambda>_.
     andThen (read_state m_nonce) (\<lambda>nonce.
     andThen (if nonce = []
              then andThen (data_member d (bs ''nonce'') (bs ''nonce field not found'')) (\<lambda>j.
                   hex_field E j (bs ''nonce field incorrect format'') store_nonce)
              else ret ()) (\<lambda>_.
     andThen (data_member d (bs ''utxos'') (bs ''remote service 'utxos' field not found'')) (\<lambda>utxos.
     andThen (case utxos of JArray vs \<Rightarrow> read_utxos E vs | _ \<Rightarrow> ret ()) (\<lambda>_.
     andThen (assign (store_estimate [])) (\<lambda>_.
     andThen (data_member d (bs ''estimate_price_fee'') (bs ''estimate_price_fee field not found'')) (\<lambda>j.
     andThen (hex_field E j (bs ''estimate_price_fee field incorrect format'') store_estimate) (\<lambda>_.
     build_request E)))))))))"

definition on_get_transaction_params :: "service \<Rightarrow> bytes \<Rightarrow> u32 \<Rightarrow> (create_tx_handler, unit) act" where
  "on_get_transaction_params E txt rid =
     END_TRY E () (post_send_json E)
       (andThen (check_json E txt rid) (\<lambda>ok.
        if \<not> ok then post_send_json E
        else case reader_parse (lib E) txt of
          None \<Rightarrow> raise (InvalidParam (bs ''invalid json''))
        | Some doc \<Rightarrow>
            andThen (lift (get_error doc)) (\<lambda>err.
            andThen (check (err = None) (case err of None \<Rightarrow> [] | Some e \<Rightarrow> stringify (lib E) e)) (\<lambda>_.
            use_transaction_params E doc))))"

section \<open>\<open>create_tx_handler\<close> and \<open>send_tx_handler\<close>\<close>

definition create_tx_execute :: "service \<Rightarrow> (create_tx_handler, unit) act" where
  "create_tx_execute E =
     andThen (write_doc (\<lambda>w. set_result w (JString (bs ''ok'')))) (\<lambda>_. post_send_json E)"

definition send_tx_execute :: "service \<Rightarrow> (create_tx_handler, unit) act" where
  "send_tx_execute E = network_execute E"

section \<open>\<open>task_handlers.cpp\<close>\<close>

datatype task =
    Generate | CreateTx | SendTx | GetCountBlocks | GetLastTxs | GetBlockByHash | GetBlockByNumber | GetBlocks
  | GetDumpBlockByNumber | GetDumpBlockByHash | GetTx | FetchBalance | FetchHistory

definition map_handlers :: "(bytes \<times> task) list" where
  "map_handlers =
     [(bs ''generate'', Generate),
      (bs ''create-tx'', CreateTx),
      (bs ''send-tx'', SendTx),
      (bs ''get-count-blocks'', GetCountBlocks),
      (bs ''get-last-txs'', GetLastTxs),
      (bs ''get-block-by-hash'', GetBlockByHash),
      (bs ''get-block-by-number'', GetBlockByNumber),
      (bs ''get-blocks'', GetBlocks),
      (bs ''get-dump-block-by-number'', GetDumpBlockByNumber),
      (bs ''get-dump-block-by-hash'', GetDumpBlockByHash),
      (bs ''get-tx'', GetTx),
      (bs ''fetch-balance'', FetchBalance),
      (bs ''fetch-history'', FetchHistory)]"

text \<open>\<open>perform<T>\<close>: the answer (text and \<open>pending\<close>) and the handler as it is left. The first clause of its
  own \<open>try\<close> gives an empty answer that is not pending.\<close>

definition perform ::
    "service \<Rightarrow> ('a handler_scheme, bool) act \<Rightarrow> ('a handler_scheme, unit) act \<Rightarrow> 'a handler_scheme \<Rightarrow> bytes
     \<Rightarrow> (bytes \<times> bool) res \<times> 'a handler_scheme" where
  "perform E prepare_params execute obj params =
     (case andThen (prepare E prepare_params params) (\<lambda>ready. if ready then execute else ret ()) obj of
        (Inr _, h) \<Rightarrow> (Inr (handler_result E h), h)
      | (Inl e, h) \<Rightarrow> if error_of E e \<noteq> None then (Inr ([], False), h) else (Inl e, h))"

definition new_network_handler :: "service \<Rightarrow> filesys \<Rightarrow> network_handler" where
  "new_network_handler E fs =
     handler.extend (new_handler fs) (network_handler.fields (new_request (server_address (s_settings E))))"

definition new_generate_handler :: "service \<Rightarrow> filesys \<Rightarrow> generate_handler" where
  "new_generate_handler E fs = handler.extend (new_handler fs) (generate_handler.fields [])"

definition new_tx_handler :: "service \<Rightarrow> filesys \<Rightarrow> create_tx_handler" where
  "new_tx_handler E fs =
     network_handler.extend (new_network_handler E fs) (create_tx_handler.fields None [] [] [] [] [] [] [] [])"

text \<open>The object \<open>perform<T>\<close> makes, whichever class it is of.\<close>

datatype live = LiveGenerate generate_handler | LiveNetwork network_handler | LiveTx create_tx_handler

fun base_of :: "live \<Rightarrow> handler" where
  "base_of (LiveGenerate h) = handler.truncate h"
| "base_of (LiveNetwork h) = handler.truncate h"
| "base_of (LiveTx h) = handler.truncate h"

fun network_prepare_params :: "service \<Rightarrow> task \<Rightarrow> (network_handler, bool) act" where
  "network_prepare_params E FetchBalance = fetch_balance_prepare_params E"
| "network_prepare_params E FetchHistory = fetch_history_prepare_params E"
| "network_prepare_params E GetCountBlocks = get_count_blocks_prepare_params E"
| "network_prepare_params E GetLastTxs = get_last_txs_prepare_params E"
| "network_prepare_params E GetBlockByHash = get_block_by_hash_prepare_params E"
| "network_prepare_params E GetBlockByNumber = get_block_by_number_prepare_params E"
| "network_prepare_params E GetBlocks = get_blocks_prepare_params E"
| "network_prepare_params E GetDumpBlockByNumber = get_dump_block_by_number_prepare_params E"
| "network_prepare_params E GetDumpBlockByHash = get_dump_block_by_hash_prepare_params E"
| "network_prepare_params E _ = get_tx_prepare_params E"

definition run_task :: "service \<Rightarrow> filesys \<Rightarrow> task \<Rightarrow> bytes \<Rightarrow> (bytes \<times> bool) res \<times> live" where
  "run_task E fs t params =
     (case t of
        Generate \<Rightarrow> apsnd LiveGenerate
          (perform E (generate_prepare_params E) (generate_execute E) (new_generate_handler E fs) params)
      | CreateTx \<Rightarrow> apsnd LiveTx
          (perform E (create_tx_prepare_params E) (create_tx_execute E) (new_tx_handler E fs) params)
      | SendTx \<Rightarrow> apsnd LiveTx
          (perform E (create_tx_prepare_params E) (send_tx_execute E) (new_tx_handler E fs) params)
      | _ \<Rightarrow> apsnd LiveNetwork
          (perform E (network_prepare_params E t) (network_execute E) (new_network_handler E fs) params))"

text \<open>A request of the handler has been answered with \<open>txt\<close>; its own execution comes up.\<close>

definition resume :: "service \<Rightarrow> continuation \<Rightarrow> bytes \<Rightarrow> live \<Rightarrow> unit res \<times> live" where
  "resume E k txt l =
     (case (k, l) of
        (OnComplete rid, LiveNetwork h) \<Rightarrow> apsnd LiveNetwork (on_complete E rid txt h)
      | (OnComplete rid, LiveTx h) \<Rightarrow> apsnd LiveTx (on_complete E rid txt h)
      | (OnTransactionParams rid, LiveTx h) \<Rightarrow> apsnd LiveTx (on_get_transaction_params E txt rid h)
      | _ \<Rightarrow> (Inr (), l))"

definition execute_again :: "service \<Rightarrow> task \<Rightarrow> live \<Rightarrow> unit res \<times> live" where
  "execute_again E t l =
     (case l of
        LiveTx h \<Rightarrow> apsnd LiveTx (if t = CreateTx then create_tx_execute E h else send_tx_execute E h)
      | _ \<Rightarrow> (Inr (), l))"

end
