(* ===== verification/Session.thy ===== *)
theory Session
  imports TxHandlers
begin

text \<open>
  \<open>src/src/http_session.cpp\<close> and \<open>http_server.cpp\<close>: a connection of the service, from the request that
  Boost.Beast has read to the replies that are written, and the decision which connections are taken.
\<close>

section \<open>Replies\<close>

record http_request =
  req_target :: bytes
  req_is_post :: bool
  req_text :: bytes

record http_response =
  res_status :: nat
  res_type :: bytes
  res_text :: bytes
  res_version :: nat
  res_server :: bytes
  res_length :: nat
  res_keep_alive :: bool

definition send_response :: "http_response \<Rightarrow> http_response" where
  "send_response r = r\<lparr>res_version := 10, res_server := bs ''btc.service'', res_length := length (res_text r),
     res_keep_alive := True\<rparr>"

definition response :: "nat \<Rightarrow> bytes \<Rightarrow> bytes \<Rightarrow> http_response" where
  "response status ty txt = \<lparr>res_status = status, res_type = ty, res_text = txt, res_version = 11, res_server = [],
     res_length = 0, res_keep_alive = True\<rparr>"

definition send_bad_request :: "bytes \<Rightarrow> http_response" where
  "send_bad_request err = send_response (response 400 (bs ''text/plain'') (c_str err))"

definition send_json :: "bytes \<Rightarrow> http_response" where
  "send_json data = send_response (response 200 (bs ''application/json'') (c_str data))"

section \<open>Requests\<close>

text \<open>What is written at once, and the handler that remains (with what it has posted).\<close>

definition process_request ::
    "service \<Rightarrow> filesys \<Rightarrow> http_request \<Rightarrow> (http_response list \<times> (task \<times> live) option) res" where
  "process_request E fs req =
     (if req_target req \<noteq> bs ''/'' then Inr ([send_bad_request (bs ''Incorrect path'')], None)
      else if \<not> req_is_post req then Inr ([send_bad_request (bs ''Incorrect http method'')], None)
      else case reader_parse (lib E) (req_text req) of
        Some doc \<Rightarrow>
          (case map_of map_handlers (get_method doc) of
             None \<Rightarrow>
               rbind (get_id doc) (\<lambda>id.
               rbind (set_id new_writer id) (\<lambda>writer.
               rbind (set_error writer (- 32601) (bs ''Method not found'')) (\<lambda>writer.
               Inr ([send_json (stringify (lib E) writer)], None))))
           | Some t \<Rightarrow>
               (let (res, l) = run_task E fs t (req_text req)
                in rbind res (\<lambda>(json, pending).
                   if pending then Inr ([], Some (t, l)) else Inr ([send_json json], Some (t, l)))))
      | None \<Rightarrow>
          rbind (set_error new_writer (- 32700) (bs ''Parse error'')) (\<lambda>writer.
          Inr ([send_json (stringify (lib E) writer)], None)))"

section \<open>Connections\<close>

record endpoint =
  ep_address :: bytes
  ep_loopback :: bool

definition check_access :: "settings \<Rightarrow> endpoint \<Rightarrow> bool" where
  "check_access s ep =
     (if any_conns s then True
      else if ep_loopback ep then True
      else if ep_address ep \<in> set (access s) then True
      else False)"

end
