(* ===== verification/ServiceSpec.thy ===== *)
theory ServiceSpec
  imports Session
begin

text \<open>
  What the service as a whole does: how \<open>process_request\<close> answers, a call of \<open>fetch-balance\<close> or
  \<open>fetch-history\<close> from the client's request to the reply, and what becomes of \<open>create-tx\<close> and \<open>send-tx\<close>.
\<close>

section \<open>Operations\<close>

named_theorems act_simps \<open>running an operation on a handler\<close>

lemma act_apply [act_simps]:
  "ret x h = (Inr x, h)" "raise e h = (Inl e, h)" "lift r h = (r, h)" "read_state f h = (Inr (f h), h)"
  "assign g h = (Inr (), g h)"
  "andThen m k h = (case m h of (Inl e, h) \<Rightarrow> (Inl e, h) | (Inr x, h) \<Rightarrow> k x h)"
  by (simp_all add: ret_def raise_def lift_def read_state_def assign_def andThen_def)

lemma check_apply [act_simps]:
  "check True m h = (Inr (), h)" "check False m h = (Inl (InvalidParam m), h)"
  by (simp_all add: check_def act_apply)

lemma write_doc_apply:
  "f (m_writer h) = Inr w \<Longrightarrow> write_doc f h = (Inr (), h\<lparr>m_writer := w\<rparr>)"
  by (simp add: write_doc_def)

lemma error_of_None: "error_of E e = None \<longleftrightarrow> e = AssertFailed \<or> (\<exists>n. e = Undefined n)"
  by (cases e) (simp_all add: error_of_def)

text \<open>Operations that leave the outside of a handler alone: they post nothing and do not touch the writer
  or the answer.\<close>

definition quiet :: "('a handler_scheme, 'b) act \<Rightarrow> bool" where
  "quiet m \<longleftrightarrow> (\<forall>h. posted (snd (m h)) = posted h \<and> m_pending (snd (m h)) = m_pending h
     \<and> m_writer (snd (m h)) = m_writer h)"

named_theorems quiet_intros \<open>quiet operations\<close>

lemma quiet_act [quiet_intros]:
  "quiet (ret x)" "quiet (raise e)" "quiet (lift r)" "quiet (read_state f)" "quiet (check b m)"
  by (simp_all add: quiet_def act_simps check_def)

lemma quiet_assign [quiet_intros]:
  "(\<And>h. posted (f h) = posted h \<and> m_pending (f h) = m_pending h \<and> m_writer (f h) = m_writer h) \<Longrightarrow> quiet (assign f)"
  by (simp add: quiet_def act_simps)

lemma quiet_andThen [quiet_intros]: "quiet m \<Longrightarrow> (\<And>x. quiet (k x)) \<Longrightarrow> quiet (andThen m k)"
proof (unfold quiet_def, intro allI)
  fix h
  assume m: "\<forall>h. posted (snd (m h)) = posted h \<and> m_pending (snd (m h)) = m_pending h \<and> m_writer (snd (m h)) = m_writer h"
    and k: "\<And>x. \<forall>h. posted (snd (k x h)) = posted h \<and> m_pending (snd (k x h)) = m_pending h \<and> m_writer (snd (k x h)) = m_writer h"
  obtain r h' where h': "m h = (r, h')" by (cases "m h")
  show "posted (snd (andThen m k h)) = posted h \<and> m_pending (snd (andThen m k h)) = m_pending h
    \<and> m_writer (snd (andThen m k h)) = m_writer h"
    using m [rule_format, of h] k h' by (cases r) (auto simp: act_simps)
qed

lemma quiet_string_field [quiet_intros]:
  "(\<And>s h. posted (store s h) = posted h \<and> m_pending (store s h) = m_pending h \<and> m_writer (store s h) = m_writer h)
   \<Longrightarrow> quiet (string_field p name missing e store)"
  unfolding string_field_def by (cases "get_string name p") (auto intro!: quiet_intros)

lemma quiet_amount_field [quiet_intros]:
  "(\<And>s h. posted (store s h) = posted h \<and> m_pending (store s h) = m_pending h \<and> m_writer (store s h) = m_writer h)
   \<Longrightarrow> quiet (amount_field E p name word missing bad field store)"
  unfolding amount_field_def
  by (rule quiet_andThen, rule quiet_act, split option.split, intro conjI allI impI, rule quiet_act,
      rule quiet_andThen, split json.split, intro conjI allI impI)
    (auto intro!: quiet_intros split: option.split)

lemma quiet_hex_field [quiet_intros]:
  "(\<And>s h. posted (store s h) = posted h \<and> m_pending (store s h) = m_pending h \<and> m_writer (store s h) = m_writer h)
   \<Longrightarrow> quiet (hex_field E j bad store)"
  unfolding hex_field_def by (rule quiet_andThen, rule quiet_act) (auto intro!: quiet_intros split: option.split)

lemma quiet_parts [quiet_intros]: "quiet check_id" "quiet params_of" "quiet (open_wallet E)"
  unfolding check_id_def params_of_def open_wallet_def
  by (intro quiet_intros; auto intro!: quiet_intros split: option.split)+

section \<open>The writer of a handler\<close>

definition id_of :: "json \<Rightarrow> json option" where
  "id_of w = (case get (bs ''id'') w of Inr v \<Rightarrow> v | Inl e \<Rightarrow> None)"

definition has_error :: "json \<Rightarrow> bool" where
  "has_error w \<longleftrightarrow> is_error w = Inr True"

text \<open>Operations that keep the writer's invariant and its id, whatever their outcome.\<close>

definition keeps_on :: "(json \<Rightarrow> json res) \<Rightarrow> bool" where
  "keeps_on f \<longleftrightarrow> (\<forall>w w'. writer_ok w \<longrightarrow> f w = Inr w' \<longrightarrow> writer_ok w' \<and> id_of w' = id_of w)"

definition keeps :: "('a handler_scheme, 'b) act \<Rightarrow> bool" where
  "keeps m \<longleftrightarrow> (\<forall>h. writer_ok (m_writer h) \<longrightarrow>
     writer_ok (m_writer (snd (m h))) \<and> id_of (m_writer (snd (m h))) = id_of (m_writer h))"

named_theorems keeps_intros \<open>operations that keep the writer's id\<close>

lemma id_of_set_value: "set_value w name v = Inr w' \<Longrightarrow> name \<noteq> bs ''id'' \<Longrightarrow> id_of w' = id_of w"
  by (simp add: id_of_def get_set_value)

lemma writer_ok_id: "writer_ok w \<Longrightarrow> \<exists>v. get (bs ''id'') w = Inr (Some v)"
  by (cases w) (auto simp: writer_ok_def get_def)

lemma id_of_reset: "writer_ok w \<Longrightarrow> id_of (writer_reset w) = id_of w"
  using writer_ok_id [of w] by (auto simp: id_of_def get_writer_reset)

lemma keeps_on_set_value:
  "name \<noteq> bs ''jsonrpc'' \<Longrightarrow> name \<noteq> bs ''id'' \<Longrightarrow> keeps_on (\<lambda>w. set_value w name v)"
  using set_value_writer_ok id_of_set_value by (auto simp: keeps_on_def)

lemma keeps_on_get_value:
  "get_value w name ty = Inr (w', v) \<Longrightarrow> writer_ok w \<Longrightarrow> name \<noteq> bs ''jsonrpc'' \<Longrightarrow>
    name \<noteq> bs ''id'' \<Longrightarrow> writer_ok w' \<and> id_of w' = id_of w"
  by (cases w) (auto simp: get_value_def writer_ok_def id_of_def get_def has_member_iff split: option.splits
      dest: map_of_SomeD)

lemma field_names:
  "bs ''error'' \<noteq> bs ''id''" "bs ''method'' \<noteq> bs ''id''" "bs ''token'' \<noteq> bs ''id''" "bs ''result'' \<noteq> bs ''id''"
  "bs ''params'' \<noteq> bs ''id''"
  by (simp_all add: byte_simps)

lemma keeps_on_writes [keeps_intros]:
  "keeps_on (\<lambda>w. set_error w code msg)" "keeps_on (\<lambda>w. set_error_value w v)" "keeps_on (\<lambda>w. set_result w v)"
  "keeps_on (\<lambda>w. set_method w m)" "keeps_on (\<lambda>w. add w (bs ''method'') v)" "keeps_on (\<lambda>w. add w (bs ''token'') v)"
  by (simp_all add: set_error_def set_error_value_def set_result_def set_method_def add_def keeps_on_set_value
      names_differ field_names)

lemma keeps_on_reset [keeps_intros]: "keeps_on f \<Longrightarrow> keeps_on (\<lambda>w. f (writer_reset w))"
  unfolding keeps_on_def using writer_reset_ok id_of_reset by metis

lemma keeps_on_params [keeps_intros]: "keeps_on (\<lambda>w. set_params w v)" "keeps_on (\<lambda>w. add_result w n v)"
proof -
  show "keeps_on (\<lambda>w. set_params w v)"
    unfolding keeps_on_def set_params_def
  proof (intro allI impI)
    fix w w'
    assume w: "writer_ok w" and w': "rbind (get_value w (bs ''params'') kObjectType)
        (\<lambda>(doc, _). set_value doc (bs ''params'') v) = Inr w'"
    then obtain d u where d: "get_value w (bs ''params'') kObjectType = Inr (d, u)" "set_value d (bs ''params'') v = Inr w'"
      by (auto simp: rbind_eq_Inr)
    from keeps_on_get_value [OF d(1) w names_differ(6) field_names(5)]
      set_value_writer_ok [OF d(2) _ names_differ(6)] id_of_set_value [OF d(2) field_names(5)]
    show "writer_ok w' \<and> id_of w' = id_of w" by simp
  qed
  show "keeps_on (\<lambda>w. add_result w n v)"
    unfolding keeps_on_def add_result_def add_in_def
  proof (intro allI impI)
    fix w w'
    assume w: "writer_ok w" and w': "rbind (get_value w (bs ''result'') kObjectType)
        (\<lambda>(doc, obj). rbind (set_value obj n v) (\<lambda>obj. set_value doc (bs ''result'') obj)) = Inr w'"
    then obtain d u u' where d: "get_value w (bs ''result'') kObjectType = Inr (d, u)"
      "set_value d (bs ''result'') u' = Inr w'"
      by (auto simp: rbind_eq_Inr)
    from keeps_on_get_value [OF d(1) w names_differ(5) field_names(4)]
      set_value_writer_ok [OF d(2) _ names_differ(5)] id_of_set_value [OF d(2) field_names(4)]
    show "writer_ok w' \<and> id_of w' = id_of w" by simp
  qed
qed

lemma keeps_quiet: "quiet m \<Longrightarrow> keeps m"
  by (simp add: quiet_def keeps_def)

lemma keeps_act [keeps_intros]:
  "keeps (ret x)" "keeps (raise e)" "keeps (lift r)" "keeps (read_state f)" "keeps (check b m)"
  by (rule keeps_quiet, rule quiet_act)+

lemma keeps_parts [keeps_intros]: "keeps check_id" "keeps params_of" "keeps (open_wallet E)"
  by (rule keeps_quiet, rule quiet_parts)+

lemma keeps_disk [keeps_intros]: "keeps (\<lambda>h. case f h of (r, fs) \<Rightarrow> (r, h\<lparr>disk := fs\<rparr>))"
  by (rule keeps_quiet) (simp add: quiet_def split: prod.split)

lemma keeps_branch [keeps_intros]:
  "keeps a \<Longrightarrow> keeps b \<Longrightarrow> keeps (if c then a else b)"
  "keeps a \<Longrightarrow> (\<And>y. keeps (g y)) \<Longrightarrow> keeps (case x of None \<Rightarrow> a | Some y \<Rightarrow> g y)"
  "(\<And>u v. keeps (p u v)) \<Longrightarrow> keeps (case z of (u, v) \<Rightarrow> p u v)"
  by (auto split: option.split prod.split)

lemma keeps_assign [keeps_intros]: "(\<And>h. m_writer (f h) = m_writer h) \<Longrightarrow> keeps (assign f)"
  by (simp add: keeps_def act_simps)

lemma keeps_write [keeps_intros]: "keeps_on f \<Longrightarrow> keeps (write_doc f)"
  unfolding keeps_def keeps_on_def write_doc_def by (auto split: sum.split)

lemma keepsD:
  "keeps m \<Longrightarrow> m h = (r, h') \<Longrightarrow> writer_ok (m_writer h) \<Longrightarrow>
    writer_ok (m_writer h') \<and> id_of (m_writer h') = id_of (m_writer h)"
  unfolding keeps_def by (metis snd_conv)

lemma keepsI:
  "(\<And>h r h'. m h = (r, h') \<Longrightarrow> writer_ok (m_writer h) \<Longrightarrow>
    writer_ok (m_writer h') \<and> id_of (m_writer h') = id_of (m_writer h)) \<Longrightarrow> keeps m"
  unfolding keeps_def by (metis prod.collapse)

lemma keeps_andThen [keeps_intros]:
  assumes "keeps m" and "\<And>x. keeps (k x)"
  shows "keeps (andThen m k)"
proof (rule keepsI)
  fix h r h'
  assume run: "andThen m k h = (r, h')" and ok: "writer_ok (m_writer h)"
  obtain x h1 where h1: "m h = (x, h1)" by (cases "m h")
  note ok1 = keepsD [OF assms(1) h1 ok]
  show "writer_ok (m_writer h') \<and> id_of (m_writer h') = id_of (m_writer h)"
  proof (cases x)
    case (Inl e)
    then show ?thesis using run h1 ok1 by (simp add: act_simps)
  next
    case (Inr y)
    then have "k y h1 = (r, h')" using run h1 by (simp add: act_simps)
    then show ?thesis using keepsD [OF assms(2)] ok1 by metis
  qed
qed

lemma keeps_post [keeps_intros]: "keeps (post_send_json E)"
  by (simp add: keeps_def post_send_json_def act_simps post_def)

lemma keeps_END_TRY [keeps_intros]:
  assumes "keeps param" and "keeps body"
  shows "keeps (END_TRY E r param body)"
proof (unfold keeps_def, intro allI impI)
  fix h :: "'a handler_scheme"
  assume ok: "writer_ok (m_writer h)"
  obtain x h' where h': "body h = (x, h')" by (cases "body h")
  have ok': "writer_ok (m_writer h') \<and> id_of (m_writer h') = id_of (m_writer h)"
    using assms(2) ok h' unfolding keeps_def by (metis snd_conv)
  have k: "keeps (andThen (write_doc (\<lambda>w. set_error (writer_reset w) code msg)) (\<lambda>_. andThen param (\<lambda>_. ret r)))" for code msg
    by (intro keeps_intros assms(1))
  then show "writer_ok (m_writer (snd (END_TRY E r param body h))) \<and> id_of (m_writer (snd (END_TRY E r param body h))) = id_of (m_writer h)"
    using h' ok' by (cases x) (auto simp: END_TRY_def keeps_def split: option.split)
qed

section \<open>\<open>END_TRY\<close>\<close>

lemma has_error_set_error: "set_error w code msg = Inr w' \<Longrightarrow> has_error w'"
  by (cases w) (auto simp: set_error_def set_value_def has_error_def is_error_def has_member_iff fst_put_member
      simp flip: set_map split: if_splits)

lemma END_TRY_cases:
  assumes "END_TRY E r param body h = (res, h')"
  obtains (returned) x where "body h = (Inr x, h')" "res = Inr x"
  | (escaped) e where "body h = (Inl e, h')" "res = Inl e" "error_of E e = None"
  | (caught) e h1 w where "body h = (Inl e, h1)" "has_error w" "error_of E e \<noteq> None"
      "andThen param (\<lambda>_. ret r) (h1\<lparr>m_writer := w\<rparr>) = (res, h')"
proof (cases "body h")
  case (Pair y h1)
  show thesis
  proof (cases y)
    case (Inr x)
    then have "h1 = h'" "res = Inr x" using assms Pair by (simp_all add: END_TRY_def)
    then show thesis using returned Pair Inr by simp
  next
    case (Inl e)
    show thesis
    proof (cases "error_of E e")
      case None
      then have "h1 = h'" "res = Inl e" using assms Pair Inl by (simp_all add: END_TRY_def)
      then show thesis using escaped Pair Inl None by simp
    next
      case (Some p)
      obtain code msg where p: "p = (code, msg)" by (cases p)
      obtain w where w: "set_error (writer_reset (m_writer h1)) code msg = Inr w"
        using set_error_ok [OF writer_reset_ok] by blast
      have "END_TRY E r param body h = andThen param (\<lambda>_. ret r) (h1\<lparr>m_writer := w\<rparr>)"
        using Pair Inl Some p w by (simp add: END_TRY_def act_simps write_doc_def)
      then show thesis using caught [OF _ has_error_set_error [OF w]] assms Pair Inl Some by simp
    qed
  qed
qed

lemma END_TRY_same: "body h = body' h1 \<Longrightarrow> END_TRY E r param body h = END_TRY E r param body' h1"
  by (simp add: END_TRY_def)

section \<open>\<open>prepare\<close> and \<open>perform\<close>\<close>

text \<open>What \<open>prepare\<close> does once the request is read.\<close>

definition prepare_rest :: "service \<Rightarrow> ('a handler_scheme, bool) act \<Rightarrow> ('a handler_scheme, bool) act" where
  "prepare_rest E prepare_params =
     andThen (check (coin_key (s_settings E) \<noteq> - 1) (bs ''Coin-key is not present'')) (\<lambda>_.
     andThen (check (token (s_settings E) \<noteq> []) (bs ''Token is not present'')) (\<lambda>_.
     andThen prepare_params (\<lambda>success.
     andThen (read_state m_pending) (\<lambda>pending.
     andThen (if \<not> success \<and> \<not> pending
              then andThen (read_state m_writer) (\<lambda>w.
                   andThen (lift (is_error w)) (\<lambda>err.
                   if \<not> err
                   then write_doc (\<lambda>w. set_error (writer_reset w) (- 32602) (bs ''Invalid params''))
                   else ret ()))
              else ret ()) (\<lambda>_.
     ret success)))))"

definition id_json :: "u32 \<Rightarrow> json" where
  "id_json i = (if i = 0 then JNull else JInt (uint i))"

lemma prepare_eq:
  assumes "reader_parse (lib E) params = Some doc" and "get_id doc = Inr i" and "writer_ok (m_writer h)"
  obtains w where "set_id (m_writer h) i = Inr w" "writer_ok w" "id_of w = Some (id_json i)"
    "prepare E pp params h
     = END_TRY E False (ret ()) (prepare_rest E pp) (h\<lparr>m_reader := doc, m_id := i, m_writer := w\<rparr>)"
proof -
  from set_value_ok [OF assms(3) names_differ(1), of "id_json i"] obtain w where
    w: "set_id (m_writer h) i = Inr w" "writer_ok w" "id_of w = Some (id_json i)"
    by (auto simp: set_id_def id_json_def id_of_def)
  show thesis
    by (rule that [OF w]) (unfold prepare_def, rule END_TRY_same,
      simp add: act_simps assms(1,2) w(1) write_doc_def prepare_rest_def)
qed

lemma keeps_prepare_rest [keeps_intros]: "keeps pp \<Longrightarrow> keeps (prepare_rest E pp)"
  unfolding prepare_rest_def by (intro keeps_intros)

text \<open>The handlers.\<close>

lemma keeps_string_field [keeps_intros]:
  "(\<And>s h. posted (store s h) = posted h \<and> m_pending (store s h) = m_pending h \<and> m_writer (store s h) = m_writer h)
   \<Longrightarrow> keeps (string_field p name missing e store)"
  by (rule keeps_quiet) (rule quiet_string_field)

lemma keeps_hex_field [keeps_intros]:
  "(\<And>s h. posted (store s h) = posted h \<and> m_pending (store s h) = m_pending h \<and> m_writer (store s h) = m_writer h)
   \<Longrightarrow> keeps (hex_field E j bad store)"
  by (rule keeps_quiet) (rule quiet_hex_field)

lemma keeps_amount_field [keeps_intros]:
  "(\<And>s h. posted (store s h) = posted h \<and> m_pending (store s h) = m_pending h \<and> m_writer (store s h) = m_writer h)
   \<Longrightarrow> keeps (amount_field E p name word missing bad field store)"
  by (rule keeps_quiet) (rule quiet_amount_field)

lemma keeps_prepare_params:
  "keeps (generate_prepare_params E)" "keeps (network_prepare_params E t)" "keeps (create_tx_prepare_params E)"
proof -
  show "keeps (generate_prepare_params E)"
    unfolding generate_prepare_params_def by (intro keeps_intros) simp
  have un: "keeps (unimplemented_prepare_params E)"
    unfolding unimplemented_prepare_params_def by (intro keeps_intros)
  have call: "keeps (write_call E m j)" for m j
    unfolding write_call_def by (intro keeps_intros)
  have "keeps (fetch_balance_prepare_params E)" "keeps (fetch_history_prepare_params E)"
    unfolding fetch_balance_prepare_params_def fetch_history_prepare_params_def
    by (intro keeps_intros call; simp)+
  then show "keeps (network_prepare_params E t)"
    using un by (cases t) (simp_all add: get_blocks_prepare_params_def get_tx_prepare_params_def
        get_last_txs_prepare_params_def get_count_blocks_prepare_params_def get_block_by_hash_prepare_params_def
        get_block_by_number_prepare_params_def get_dump_block_by_hash_prepare_params_def
        get_dump_block_by_number_prepare_params_def)
  have "keeps (get_transaction_params E)"
    unfolding get_transaction_params_def by (intro keeps_intros) (simp add: post_def)
  then show "keeps (create_tx_prepare_params E)"
    unfolding create_tx_prepare_params_def
    by (intro keeps_intros) (simp_all add: store_value_def store_nonce_def store_fee_def)
qed

lemma keeps_execute:
  "keeps (generate_execute E)" "keeps (network_execute E)"
proof -
  show "keeps (generate_execute E)"
    unfolding generate_execute_def by (intro keeps_intros)
  have "keeps (\<lambda>h. case set_body (lib E) (stringify (lib E) (m_writer h)) (m_request h) of
      Inl e \<Rightarrow> (Inl e, h) | Inr r \<Rightarrow> (Inr (), h\<lparr>m_request := r\<rparr>))"
    by (auto simp: keeps_def split: sum.split)
  then show "keeps (network_execute E)"
    unfolding network_execute_def by (intro keeps_intros) (simp_all add: post_def)
qed

section \<open>Replies\<close>

definition answered :: "json \<Rightarrow> bool" where
  "answered w \<longleftrightarrow> has_error w \<or> (\<exists>r. get (bs ''result'') w = Inr (Some r))"

lemma is_error_ok: "writer_ok w \<Longrightarrow> \<exists>b. is_error w = Inr b"
  by (cases w) (auto simp: writer_ok_def is_error_def)

lemma prepare_rest_False:
  assumes run: "prepare_rest E pp h = (Inr False, h')" and "\<not> m_pending h'" and "keeps pp" and "writer_ok (m_writer h)"
  shows "has_error (m_writer h')"
proof -
  let ?s = "s_settings E"
  have c: "coin_key ?s \<noteq> - 1" "token ?s \<noteq> []"
    using run by (auto simp: prepare_rest_def act_simps check_def CHK_PRM_def split: if_splits)
  obtain x h1 where pp: "pp h = (x, h1)" by (cases "pp h")
  have ok: "writer_ok (m_writer h1)" using keepsD [OF assms(3) pp assms(4)] by simp
  obtain success where x: "x = Inr success"
    using run c pp by (cases x) (auto simp: prepare_rest_def act_simps)
  obtain err where err: "is_error (m_writer h1) = Inr err" using is_error_ok [OF ok] by blast
  obtain w where w: "set_error (writer_reset (m_writer h1)) (- 32602) (bs ''Invalid params'') = Inr w"
    using set_error_ok [OF writer_reset_ok] by blast
  have "prepare_rest E pp h = (Inr success, if \<not> success \<and> \<not> m_pending h1 \<and> \<not> err then h1\<lparr>m_writer := w\<rparr> else h1)"
    using c pp x err w by (simp add: prepare_rest_def act_simps write_doc_def)
  then have "\<not> success" "h' = (if \<not> m_pending h1 \<and> \<not> err then h1\<lparr>m_writer := w\<rparr> else h1)" using run by auto
  then show ?thesis using assms(2) err has_error_set_error [OF w] by (auto simp: has_error_def split: if_splits)
qed

lemma prepare_result:
  assumes "reader_parse (lib E) params = Some doc" and "get_id doc = Inr i" and "writer_ok (m_writer h)"
    and "keeps pp" and run: "prepare E pp params h = (res, h')"
  shows "writer_ok (m_writer h') \<and> id_of (m_writer h') = Some (id_json i)"
    and "res = Inr False \<Longrightarrow> \<not> m_pending h' \<Longrightarrow> has_error (m_writer h')"
    and "res = Inl e \<Longrightarrow> error_of E e = None"
proof -
  from prepare_eq [OF assms(1-3)] obtain w where w: "writer_ok w" "id_of w = Some (id_json i)"
    "prepare E pp params h = END_TRY E False (ret ()) (prepare_rest E pp) (h\<lparr>m_reader := doc, m_id := i, m_writer := w\<rparr>)"
    by metis
  let ?h = "h\<lparr>m_reader := doc, m_id := i, m_writer := w\<rparr>"
  from run w(3) have r: "END_TRY E False (ret ()) (prepare_rest E pp) ?h = (res, h')" by simp
  have "keeps (END_TRY E False (ret ()) (prepare_rest E pp))" by (intro keeps_intros assms(4))
  from keepsD [OF this r] w(1,2) show "writer_ok (m_writer h') \<and> id_of (m_writer h') = Some (id_json i)" by simp
  from r show "has_error (m_writer h')" if "res = Inr False" "\<not> m_pending h'"
  proof (cases rule: END_TRY_cases)
    case (returned x)
    then show ?thesis using that prepare_rest_False [OF _ that(2) assms(4)] w(1) by simp
  qed (use that in \<open>auto simp: act_simps\<close>)
  from r show "error_of E e = None" if "res = Inl e"
    by (cases rule: END_TRY_cases) (use that in \<open>auto simp: act_simps\<close>)
qed

text \<open>What \<open>execute\<close> has to do: wait, or leave an answer in the writer.\<close>

definition answers :: "service \<Rightarrow> ('a handler_scheme, unit) act \<Rightarrow> bool" where
  "answers E ex \<longleftrightarrow> (\<forall>h. writer_ok (m_writer h) \<longrightarrow>
     (case ex h of (Inr x, h') \<Rightarrow> m_pending h' \<or> answered (m_writer h') | (Inl e, h') \<Rightarrow> error_of E e = None))"

lemma get_add_result: "add_result w n v = Inr w' \<Longrightarrow> \<exists>r. get (bs ''result'') w' = Inr (Some r)"
  by (auto simp: add_result_def add_in_def rbind_eq_Inr get_set_value)

lemma answers_generate: "answers E (generate_execute E)"
  unfolding answers_def
proof (intro allI impI)
  fix h
  obtain x h' where run: "generate_execute E h = (x, h')" by (cases "generate_execute E h")
  have "(case x of Inr u \<Rightarrow> answered (m_writer h') | Inl e \<Rightarrow> error_of E e = None)"
    using run unfolding generate_execute_def
  proof (cases rule: END_TRY_cases)
    case (returned u)
    then show ?thesis using get_add_result
      by (auto simp: act_simps write_doc_def answered_def split: sum.splits prod.splits)
  qed (auto simp: act_simps answered_def)
  then show "case generate_execute E h of (Inr x, h') \<Rightarrow> m_pending h' \<or> answered (m_writer h')
      | (Inl e, h') \<Rightarrow> error_of E e = None"
    by (cases x) (simp_all add: run)
qed

lemma answers_network: "answers E (network_execute E)"
  unfolding answers_def
proof (intro allI impI)
  fix h :: "'a network_handler_scheme"
  obtain x h' where run: "network_execute E h = (x, h')" by (cases "network_execute E h")
  have "(case x of Inr u \<Rightarrow> m_pending h' \<or> answered (m_writer h') | Inl e \<Rightarrow> error_of E e = None)"
    using run unfolding network_execute_def
  proof (cases rule: END_TRY_cases)
    case (returned u)
    then show ?thesis by (auto simp: act_simps post_def split: sum.splits prod.splits)
  qed (auto simp: act_simps answered_def)
  then show "case network_execute E h of (Inr x, h') \<Rightarrow> m_pending h' \<or> answered (m_writer h')
      | (Inl e, h') \<Rightarrow> error_of E e = None"
    by (cases x) (simp_all add: run)
qed

lemma answers_create_tx: "answers E (create_tx_execute E)"
  unfolding answers_def
proof (intro allI impI)
  fix h :: create_tx_handler
  assume "writer_ok (m_writer h)"
  from set_value_ok [OF this names_differ(5), of "JString (bs ''ok'')"] obtain w where
    "set_result (m_writer h) (JString (bs ''ok'')) = Inr w" "get (bs ''result'') w = Inr (Some (JString (bs ''ok'')))"
    by (auto simp: set_result_def)
  then show "case create_tx_execute E h of (Inr x, h') \<Rightarrow> m_pending h' \<or> answered (m_writer h')
      | (Inl e, h') \<Rightarrow> error_of E e = None"
    by (simp add: create_tx_execute_def act_simps write_doc_def post_send_json_def post_def answered_def)
qed

lemma keeps_create_tx: "keeps (create_tx_execute E)"
  unfolding create_tx_execute_def by (intro keeps_intros)

lemma perform_reply:
  assumes "reader_parse (lib E) params = Some doc" and "get_id doc = Inr i" and "writer_ok (m_writer h)"
    and "keeps pp" and "keeps ex" and "answers E ex"
    and run: "perform E pp ex h params = (Inr (txt, False), h')"
  shows "\<exists>w. txt = stringify (lib E) w \<and> writer_ok w \<and> id_of w = Some (id_json i) \<and> answered w"
proof -
  obtain x h1 where p: "prepare E pp params h = (x, h1)" by (cases "prepare E pp params h")
  note p' = prepare_result [OF assms(1-4) p]
  obtain ready where x: "x = Inr ready"
    using run p p'(3) by (cases x) (auto simp: perform_def act_simps)
  show ?thesis
  proof (cases ready)
    case False
    then have "h' = h1" "txt = stringify (lib E) (m_writer h1)" "\<not> m_pending h1"
      using run p x by (auto simp: perform_def act_simps handler_result_def)
    then show ?thesis using p' x False by (auto simp: answered_def)
  next
    case True
    obtain y h2 where ex: "ex h1 = (y, h2)" by (cases "ex h1")
    have ok: "writer_ok (m_writer h1)" using p'(1) by simp
    have a: "case (y, h2) of (Inr x, h') \<Rightarrow> m_pending h' \<or> answered (m_writer h') | (Inl e, h') \<Rightarrow> error_of E e = None"
      using assms(6) ok ex unfolding answers_def by fastforce
    then obtain u where y: "y = Inr u"
      using run p x True ex by (cases y) (auto simp: perform_def act_simps)
    then have "txt = stringify (lib E) (m_writer h2)" "\<not> m_pending h2"
      using run p x True ex by (auto simp: perform_def act_simps handler_result_def)
    then show ?thesis using keepsD [OF assms(5) ex ok] p'(1) a y by auto
  qed
qed

lemma get_id_id_of:
  assumes "id_of w = Some (id_json i)"
  shows "get_id w = Inr i"
proof -
  have "uint i < 2 ^ 32" using uint_bounded [of i] by simp
  moreover have "get (bs ''id'') w = Inr (Some (id_json i))"
    using assms by (cases "get (bs ''id'') w") (auto simp: id_of_def)
  ultimately show ?thesis by (auto simp: get_id_def id_json_def IsInt_def IsUint_def)
qed

lemma new_handlers_ok:
  "writer_ok (m_writer (new_generate_handler E fs))" "writer_ok (m_writer (new_network_handler E fs))"
  "writer_ok (m_writer (new_tx_handler E fs))"
  by (simp_all add: new_generate_handler_def new_network_handler_def new_tx_handler_def new_handler_def
      handler.defs network_handler.defs generate_handler.defs create_tx_handler.defs new_writer_def writer_reset_ok)

lemma apsnd_eq: "apsnd f p = (a, b) \<longleftrightarrow> (\<exists>c. p = (a, c) \<and> b = f c)"
  by (cases p) auto

lemma run_task_reply:
  assumes "reader_parse (lib E) params = Some doc" and "get_id doc = Inr i"
    and "run_task E fs t params = (Inr (txt, False), l)"
  shows "\<exists>w. txt = stringify (lib E) w \<and> writer_ok w \<and> id_of w = Some (id_json i) \<and> answered w"
proof -
  note rule = perform_reply [OF assms(1,2)]
  consider (gen) "t = Generate" | (create) "t = CreateTx" | (send) "t = SendTx"
    | (net) h' where "perform E (network_prepare_params E t) (network_execute E) (new_network_handler E fs) params
        = (Inr (txt, False), h')"
    using assms(3) by (cases t) (auto simp: run_task_def apsnd_eq)
  then show ?thesis
  proof cases
    case gen
    then obtain h' where "perform E (generate_prepare_params E) (generate_execute E) (new_generate_handler E fs) params
        = (Inr (txt, False), h')" using assms(3) by (auto simp: apsnd_eq run_task_def)
    then show ?thesis
      by (rule rule [OF new_handlers_ok(1) keeps_prepare_params(1) keeps_execute(1) answers_generate])
  next
    case create
    then obtain h' where "perform E (create_tx_prepare_params E) (create_tx_execute E) (new_tx_handler E fs) params
        = (Inr (txt, False), h')" using assms(3) by (auto simp: apsnd_eq run_task_def)
    then show ?thesis
      by (rule rule [OF new_handlers_ok(3) keeps_prepare_params(3) keeps_create_tx answers_create_tx])
  next
    case send
    then obtain h' where "perform E (create_tx_prepare_params E) (network_execute E) (new_tx_handler E fs) params
        = (Inr (txt, False), h')" using assms(3) by (auto simp: apsnd_eq run_task_def send_tx_execute_def)
    then show ?thesis
      by (rule rule [OF new_handlers_ok(3) keeps_prepare_params(3) keeps_execute(2) answers_network])
  next
    case (net h')
    then show ?thesis
      by (rule rule [OF new_handlers_ok(2) keeps_prepare_params(2) keeps_execute(2) answers_network])
  qed
qed

lemma process_request_doc:
  assumes "req_target req = bs ''/''" and "req_is_post req" and "reader_parse (lib E) (req_text req) = Some doc"
  shows "process_request E fs req =
    (case map_of map_handlers (get_method doc) of
       None \<Rightarrow>
         rbind (get_id doc) (\<lambda>id.
         rbind (set_id new_writer id) (\<lambda>writer.
         rbind (set_error writer (- 32601) (bs ''Method not found'')) (\<lambda>writer.
         Inr ([send_json (stringify (lib E) writer)], None))))
     | Some t \<Rightarrow>
         (case run_task E fs t (req_text req) of (res, l) \<Rightarrow>
          rbind res (\<lambda>(json, pending).
            if pending then Inr ([], Some (t, l)) else Inr ([send_json json], Some (t, l)))))"
  unfolding process_request_def assms(1) assms(3) Let_def using assms(2) by simp

text \<open>C9: Every reply that the service gives at once to a JSON request with a readable id is a well-formed
  envelope with that id and with an error or a result, whatever the method; and it gives at most one.\<close>

theorem replies_well_formed:
  assumes "req_target req = bs ''/''" and "req_is_post req"
    and "reader_parse (lib E) (req_text req) = Some doc" and "get_id doc = Inr i"
    and "process_request E fs req = Inr (out, l)"
  shows "length out \<le> 1 \<and> list_all (\<lambda>r. \<exists>w. r = send_json (stringify (lib E) w)
    \<and> writer_ok w \<and> get_id w = Inr i \<and> answered w) out"
proof (cases "map_of map_handlers (get_method doc)")
  case None
  obtain w1 where w1: "set_id new_writer i = Inr w1" "writer_ok w1" "id_of w1 = Some (id_json i)"
    using set_value_ok [OF writer_reset_ok names_differ(1), of JNull "id_json i"]
    by (auto simp: set_id_def id_json_def id_of_def new_writer_def)
  obtain w2 where w2: "set_error w1 (- 32601) (bs ''Method not found'') = Inr w2" "writer_ok w2"
    using set_error_ok [OF w1(2)] by blast
  have "id_of w2 = Some (id_json i)"
    using keeps_on_writes(1) w1(2,3) w2(1) unfolding keeps_on_def by metis
  then have "get_id w2 = Inr i" by (rule get_id_id_of)
  moreover have "out = [send_json (stringify (lib E) w2)]"
    using assms(5) unfolding process_request_doc [OF assms(1-3)] None assms(4) by (simp add: w1(1) w2(1))
  ultimately show ?thesis
    using w2(2) has_error_set_error [OF w2(1)] by (auto simp: answered_def)
next
  case (Some t)
  obtain res l' where t: "run_task E fs t (req_text req) = (res, l')" by (cases "run_task E fs t (req_text req)")
  have p: "process_request E fs req = rbind res (\<lambda>(json, pending).
      if pending then Inr ([], Some (t, l')) else Inr ([send_json json], Some (t, l')))"
    unfolding process_request_doc [OF assms(1-3)] Some option.case t prod.case ..
  obtain answer pending where res: "res = Inr (answer, pending)"
    using assms(5) unfolding p by (cases res) auto
  from assms(5) have out: "out = (if pending then [] else [send_json answer])"
    unfolding p res rbind_simps prod.case by (cases pending) simp_all
  note r = res out
  show ?thesis
  proof (cases pending)
    case False
    then have "run_task E fs t (req_text req) = (Inr (answer, False), l')" using t r(1) by simp
    from run_task_reply [OF assms(3,4) this] obtain w where
      w: "answer = stringify (lib E) w" "writer_ok w" "id_of w = Some (id_json i)" "answered w" by blast
    from w(3) have "get_id w = Inr i" by (rule get_id_id_of)
    then show ?thesis using w r(2) False by auto
  qed (simp add: r)
qed

definition example_settings :: settings where
  "example_settings = (initial_settings (bs ''/''))\<lparr>coin_key := 2, token := bs ''t''\<rparr>"

definition example_service :: service where
  "example_service = \<lparr>s_http = example_http, s_crypto = example_crypto, s_scrypt = Scrypt.example_env,
     s_scrypt2 = Scrypt.example_env, s_wallet = \<lparr>sort_inputs = (\<lambda>xs. xs), before_begin = Some 0\<rparr>,
     s_settings = example_settings, s_what = (\<lambda>x. bs ''what''), s_key = (True, []), s_uninit = 0\<rparr>"

definition no_files :: filesys where
  "no_files = \<lparr>files = Map.empty, dirs = {}, status_fails = (\<lambda>p. False), may_create = (\<lambda>p. False), may_write = (\<lambda>p. False)\<rparr>"

definition example_post :: "bytes \<Rightarrow> http_request" where
  "example_post t = \<lparr>req_target = bs ''/'', req_is_post = True, req_text = t\<rparr>"

lemma example_parse:
  "reader_parse (lib example_service) (bs ''q'') = Some (JObject [(bs ''id'', JInt 7)])"
  "get_id (JObject [(bs ''id'', JInt 7)]) = Inr 7"
proof -
  have c: "c_str (bs ''q'') = bs ''q''" by (simp add: c_str_def byte_simps)
  show "reader_parse (lib example_service) (bs ''q'') = Some (JObject [(bs ''id'', JInt 7)])"
    unfolding reader_parse_def c by (simp add: lib_def example_service_def example_http_def json_lib.truncate_def)
qed (simp add: get_id_def get_def IsInt_def)

theorem replies_well_formed_witness:
  "\<exists>r w. process_request example_service no_files (example_post (bs ''q'')) = Inr ([r], None)
    \<and> r = send_json (stringify (lib example_service) w) \<and> get_id w = Inr 7 \<and> answered w"
proof -
  have post: "req_target (example_post t) = bs ''/''" "req_is_post (example_post t)" "req_text (example_post t) = t" for t
    by (simp_all add: example_post_def)
  have parse: "reader_parse (lib example_service) (req_text (example_post (bs ''q''))) = Some (JObject [(bs ''id'', JInt 7)])"
    unfolding post by (rule example_parse)
  have "get_method (JObject [(bs ''id'', JInt 7)]) = []" by (simp add: get_method_def get_string_def byte_simps)
  then have none: "map_of map_handlers (get_method (JObject [(bs ''id'', JInt 7)])) = None"
    by (simp add: map_handlers_def byte_simps)
  obtain w1 where w1: "set_id new_writer 7 = Inr w1" "writer_ok w1"
    using set_value_ok [OF writer_reset_ok names_differ(1), of JNull "JInt 7"] by (auto simp: set_id_def new_writer_def)
  obtain w2 where w2: "set_error w1 (- 32601) (bs ''Method not found'') = Inr w2"
    using set_error_ok [OF w1(2)] by blast
  have p: "process_request example_service no_files (example_post (bs ''q''))
      = Inr ([send_json (stringify (lib example_service) w2)], None)"
    unfolding process_request_doc [OF post(1,2) parse] none option.case example_parse(2) rbind_simps w1(1) w2 ..
  from replies_well_formed [OF post(1,2) parse example_parse(2) p] show ?thesis unfolding p by auto
qed

section \<open>Two replies\<close>

text \<open>An operation that fails without a trace, or is past the point where the reply is left to a callback.\<close>

definition late :: "('a handler_scheme, 'b) act \<Rightarrow> bool" where
  "late m \<longleftrightarrow> (\<forall>h. m_pending (snd (m h)) \<or> (posted (snd (m h)) = posted h \<and> isl (fst (m h))))"

lemma late_andThen:
  assumes "quiet m" and "\<And>x. late (k x)"
  shows "late (andThen m k)"
  unfolding late_def
proof
  fix h
  obtain x h1 where h1: "m h = (x, h1)" by (cases "m h")
  have "posted h1 = posted h" using assms(1) h1 unfolding quiet_def by (metis snd_conv)
  then show "m_pending (snd (andThen m k h)) \<or> (posted (snd (andThen m k h)) = posted h \<and> isl (fst (andThen m k h)))"
    using h1 assms(2) [unfolded late_def, rule_format, of "projr x" h1] by (cases x) (auto simp: act_simps)
qed

lemma get_transaction_params_pending: "m_pending (snd (get_transaction_params E h)) = m_pending h"
proof -
  obtain r h' where run: "get_transaction_params E h = (r, h')" by (cases "get_transaction_params E h")
  then have "m_pending h' = m_pending h"
    unfolding get_transaction_params_def
    by (cases rule: END_TRY_cases) (auto simp: act_simps post_def split: sum.splits prod.splits)
  then show ?thesis by (simp add: run)
qed

lemma late_finish: "late (andThen (assign (\<lambda>h. h\<lparr>m_pending := True\<rparr>)) (\<lambda>_. andThen (get_transaction_params E)
    (\<lambda>ok. andThen (check ok msg) (\<lambda>_. ret b))))"
  unfolding late_def
proof
  fix h
  obtain r h' where run: "get_transaction_params E (h\<lparr>m_pending := True\<rparr>) = (r, h')"
    by (cases "get_transaction_params E (h\<lparr>m_pending := True\<rparr>)")
  have "m_pending h'" using get_transaction_params_pending [of E "h\<lparr>m_pending := True\<rparr>"] run by simp
  then show "m_pending (snd (andThen (assign (\<lambda>h. h\<lparr>m_pending := True\<rparr>)) (\<lambda>_. andThen (get_transaction_params E)
      (\<lambda>ok. andThen (check ok msg) (\<lambda>_. ret b))) h))
    \<or> (posted (snd (andThen (assign (\<lambda>h. h\<lparr>m_pending := True\<rparr>)) (\<lambda>_. andThen (get_transaction_params E)
      (\<lambda>ok. andThen (check ok msg) (\<lambda>_. ret b))) h)) = posted h
     \<and> isl (fst (andThen (assign (\<lambda>h. h\<lparr>m_pending := True\<rparr>)) (\<lambda>_. andThen (get_transaction_params E)
      (\<lambda>ok. andThen (check ok msg) (\<lambda>_. ret b))) h)))"
    using run by (cases r) (auto simp: act_simps check_def CHK_PRM_def)
qed

lemma create_tx_prepare_late:
  "\<exists>body. create_tx_prepare_params E = END_TRY E False (post_send_json E) body \<and> late body"
  unfolding create_tx_prepare_params_def
  by (rule exI, rule conjI, rule refl, intro late_andThen late_finish quiet_intros)
    (auto intro!: quiet_intros simp: store_value_def store_nonce_def store_fee_def split: option.split)

lemma create_tx_prepare_fails:
  assumes "create_tx_prepare_params E h = (Inr b, h')" and "\<not> m_pending h'" and "posted h = []"
  shows "has_error (m_writer h') \<and> posted h' = [SendJson (stringify (lib E) (m_writer h'))] \<and> \<not> b"
proof -
  obtain body where body: "create_tx_prepare_params E = END_TRY E False (post_send_json E) body" "late body"
    using create_tx_prepare_late by blast
  from assms(1) [unfolded body(1)] show ?thesis
  proof (cases rule: END_TRY_cases)
    case (returned x)
    then show ?thesis using body(2) [unfolded late_def, rule_format, of h] assms(2) by simp
  next
    case (caught e h1 w)
    then have h': "h' = post (SendJson (stringify (lib E) w)) (h1\<lparr>m_writer := w\<rparr>)" "\<not> b"
      by (auto simp: act_simps post_send_json_def)
    then have "posted h1 = posted h"
      using body(2) [unfolded late_def, rule_format, of h] assms(2) caught(1) by (simp add: post_def)
    then show ?thesis using h' caught(2) assms(3) by (simp add: post_def)
  qed simp
qed

lemma create_tx_perform_twice:
  assumes "reader_parse (lib E) params = Some doc" and "get_id doc = Inr i"
    and "coin_key (s_settings E) \<noteq> - 1" and "token (s_settings E) \<noteq> []"
    and "posted h = []" and "\<not> m_pending h" and "writer_ok (m_writer h)"
    and run: "perform E (create_tx_prepare_params E) ex h params = (Inr (txt, False), h')"
    and "\<And>h. m_pending h \<Longrightarrow> m_pending (snd (ex h))" and "answers E ex"
  shows "posted h' = [SendJson txt]"
proof -
  let ?pp = "create_tx_prepare_params E"
  from prepare_eq [OF assms(1,2,7)] obtain w where w: "prepare E ?pp params h
      = END_TRY E False (ret ()) (prepare_rest E ?pp) (h\<lparr>m_reader := doc, m_id := i, m_writer := w\<rparr>)" "writer_ok w" by metis
  let ?h = "h\<lparr>m_reader := doc, m_id := i, m_writer := w\<rparr>"
  obtain y h1 where pp: "?pp ?h = (y, h1)" by (cases "?pp ?h")
  show ?thesis
  proof (cases y)
    case (Inl e)
    have "error_of E e = None"
      using create_tx_prepare_late [of E] pp Inl
      by (auto elim!: END_TRY_cases simp: act_simps post_send_json_def)
    then have "prepare E ?pp params h = (Inl e, h1)"
      unfolding w(1) END_TRY_def using assms(3,4) pp Inl by (simp add: prepare_rest_def act_simps)
    then show ?thesis using run \<open>error_of E e = None\<close> by (simp add: perform_def act_simps)
  next
    case (Inr b)
    have fails: "has_error (m_writer h1) \<and> posted h1 = [SendJson (stringify (lib E) (m_writer h1))] \<and> \<not> b"
      if "\<not> m_pending h1"
      using create_tx_prepare_fails [of E ?h b h1] pp Inr that assms(5) by simp
    have "prepare E ?pp params h = (Inr b, h1)"
      unfolding w(1) END_TRY_def using assms(3,4) pp Inr fails
      by (cases "m_pending h1") (simp_all add: prepare_rest_def act_simps has_error_def)
    then have p: "perform E ?pp ex h params =
        (case (if b then ex h1 else (Inr (), h1)) of
          (Inr _, h) \<Rightarrow> (Inr (handler_result E h), h)
        | (Inl e, h) \<Rightarrow> if error_of E e \<noteq> None then (Inr ([], False), h) else (Inl e, h))"
      by (simp add: perform_def act_simps)
    show ?thesis
    proof (cases "m_pending h1")
      case True
      obtain x h2 where ex: "ex h1 = (x, h2)" by (cases "ex h1")
      have "writer_ok (m_writer h1)" using keepsD [OF keeps_prepare_params(3) pp] w(2) by simp
      from assms(10) [unfolded answers_def, rule_format, OF this] ex True
      show ?thesis using run assms(9) [OF True] unfolding p
        by (cases x) (auto simp: handler_result_def split: if_splits)
    next
      case False
      then show ?thesis using run fails unfolding p by (auto simp: handler_result_def)
    qed
  qed
qed

lemma execute_pending:
  "m_pending h \<Longrightarrow> m_pending (snd (create_tx_execute E h))"
  "m_pending h' \<Longrightarrow> m_pending (snd (send_tx_execute E h'))"
proof -
  show "m_pending h \<Longrightarrow> m_pending (snd (create_tx_execute E h))"
    by (auto simp: create_tx_execute_def act_simps write_doc_def post_send_json_def post_def split: sum.split)
  assume p: "m_pending h'"
  obtain r h2 where run: "network_execute E h' = (r, h2)" by (cases "network_execute E h'")
  then have "m_pending h2"
    unfolding network_execute_def
    by (cases rule: END_TRY_cases) (use p in \<open>auto simp: act_simps post_def split: sum.splits prod.splits\<close>)
  then show "m_pending (snd (send_tx_execute E h'))" by (simp add: send_tx_execute_def run)
qed

text \<open>C35: Whatever is wrong with the parameters of \<open>create-tx\<close> or \<open>send-tx\<close>, on a service that is configured,
  the error is sent to the client twice: once as the answer of the request and once by the handler
  itself.\<close>

theorem tx_errors_sent_twice:
  assumes "req_target req = bs ''/''" and "req_is_post req"
    and "reader_parse (lib E) (req_text req) = Some doc" and "get_id doc = Inr i"
    and "get_method doc = bs ''create-tx'' \<or> get_method doc = bs ''send-tx''"
    and "coin_key (s_settings E) \<noteq> - 1" and "token (s_settings E) \<noteq> []"
    and "process_request E fs req = Inr (out, l)" and "out \<noteq> []"
  shows "\<exists>t h txt. l = Some (t, LiveTx h) \<and> out = [send_json txt] \<and> posted h = [SendJson txt]"
proof -
  have m: "map_of map_handlers (bs ''create-tx'') = Some CreateTx" "map_of map_handlers (bs ''send-tx'') = Some SendTx"
    by (simp_all add: map_handlers_def byte_simps)
  define t where "t = (if get_method doc = bs ''create-tx'' then CreateTx else SendTx)"
  have map: "map_of map_handlers (get_method doc) = Some t" using m assms(5) by (auto simp: t_def)
  define ex where "ex = (if t = CreateTx then create_tx_execute E else send_tx_execute E)"
  obtain res h where r: "perform E (create_tx_prepare_params E) ex (new_tx_handler E fs) (req_text req) = (res, h)"
    by (cases "perform E (create_tx_prepare_params E) ex (new_tx_handler E fs) (req_text req)")
  have "run_task E fs t (req_text req) = (res, LiveTx h)"
    using r by (auto simp: run_task_def t_def ex_def split: if_splits)
  then have p: "process_request E fs req = rbind res (\<lambda>(json, pending).
      if pending then Inr ([], Some (t, LiveTx h)) else Inr ([send_json json], Some (t, LiveTx h)))"
    unfolding process_request_doc [OF assms(1-3)] map option.case by simp
  obtain answer where res: "res = Inr (answer, False)" "out = [send_json answer]" "l = Some (t, LiveTx h)"
    using assms(8,9) unfolding p by (cases res) (auto split: if_splits)
  have "posted h = [SendJson answer]"
    by (rule create_tx_perform_twice [OF assms(3,4,6,7) _ _ new_handlers_ok(3) r [unfolded res(1)]])
      (use execute_pending answers_create_tx answers_network in
        \<open>auto simp: ex_def send_tx_execute_def new_tx_handler_def new_network_handler_def new_handler_def
          handler.defs network_handler.defs create_tx_handler.defs\<close>)
  with res show ?thesis by blast
qed

definition example_tx_request :: json where
  "example_tx_request = JObject [(bs ''id'', JInt 7), (bs ''method'', JString (bs ''create-tx''))]"

definition example_tx_service :: service where
  "example_tx_service = example_service\<lparr>s_http := example_http\<lparr>parse_json := (\<lambda>t.
     if t = bs ''c'' then Some example_tx_request else None)\<rparr>\<rparr>"

lemma create_tx_no_params:
  assumes "m_id h \<noteq> 0" and "get_params (m_reader h) = Inr None"
  shows "\<exists>w. create_tx_prepare_params E h = (Inr False, post (SendJson (stringify (lib E) w)) (h\<lparr>m_writer := w\<rparr>)) \<and> has_error w"
proof -
  let ?m = "bs ''params field not found''"
  obtain w where w: "set_error (writer_reset (m_writer h)) (- 32668) (c_str ?m) = Inr w"
    using set_error_ok [OF writer_reset_ok] by blast
  have "create_tx_prepare_params E h = (Inr False, post (SendJson (stringify (lib E) w)) (h\<lparr>m_writer := w\<rparr>))"
    unfolding create_tx_prepare_params_def END_TRY_def
    by (simp add: act_simps check_id_def params_of_def assms error_of_def write_doc_def w post_send_json_def)
  then show ?thesis using has_error_set_error [OF w] by blast
qed

lemma example_tx_runs:
  "\<exists>out l. process_request example_tx_service no_files (example_post (bs ''c'')) = Inr (out, l) \<and> out \<noteq> []"
proof -
  let ?E = example_tx_service and ?t = "bs ''c''"
  have c: "c_str ?t = ?t" by (simp add: c_str_def byte_simps)
  have parse: "reader_parse (lib ?E) ?t = Some example_tx_request"
    unfolding reader_parse_def c
    by (simp add: lib_def example_tx_service_def example_service_def example_http_def json_lib.truncate_def)
  have id: "get_id example_tx_request = Inr 7" "get_params example_tx_request = Inr None"
    by (simp_all add: example_tx_request_def get_id_def get_params_def get_def IsInt_def byte_simps)
  have m: "get_method example_tx_request = bs ''create-tx''"
    by (simp add: example_tx_request_def get_method_def get_string_def byte_simps)
  have map: "map_of map_handlers (bs ''create-tx'') = Some CreateTx" by (simp add: map_handlers_def byte_simps)
  let ?h = "new_tx_handler ?E no_files"
  obtain w where w: "prepare ?E (create_tx_prepare_params ?E) ?t ?h = END_TRY ?E False (ret ())
      (prepare_rest ?E (create_tx_prepare_params ?E)) (?h\<lparr>m_reader := example_tx_request, m_id := 7, m_writer := w\<rparr>)"
    using prepare_eq [OF parse id(1) new_handlers_ok(3)] by metis
  obtain w' h1 where pp: "create_tx_prepare_params ?E (?h\<lparr>m_reader := example_tx_request, m_id := 7, m_writer := w\<rparr>)
      = (Inr False, h1)" "has_error (m_writer h1)" "\<not> m_pending h1"
    using create_tx_no_params [of "?h\<lparr>m_reader := example_tx_request, m_id := 7, m_writer := w\<rparr>" ?E] id(2)
    by (auto simp: post_def new_tx_handler_def new_network_handler_def new_handler_def
        handler.defs network_handler.defs create_tx_handler.defs)
  have s: "coin_key (s_settings ?E) \<noteq> - 1" "token (s_settings ?E) \<noteq> []"
    by (simp_all add: example_tx_service_def example_service_def example_settings_def initial_settings_def bs_def)
  have "prepare ?E (create_tx_prepare_params ?E) ?t ?h = (Inr False, h1)"
    unfolding w END_TRY_def using s pp by (simp add: prepare_rest_def act_simps has_error_def)
  then have "run_task ?E no_files CreateTx ?t = (Inr (stringify (lib ?E) (m_writer h1), False), LiveTx h1)"
    using pp(3) by (simp add: run_task_def perform_def act_simps handler_result_def)
  moreover have post: "req_target (example_post t) = bs ''/''" "req_is_post (example_post t)" "req_text (example_post t) = t" for t
    by (simp_all add: example_post_def)
  ultimately have "process_request ?E no_files (example_post ?t)
      = Inr ([send_json (stringify (lib ?E) (m_writer h1))], Some (CreateTx, LiveTx h1))"
    using process_request_doc [OF post(1,2), of ?E ?t example_tx_request] parse m map by simp
  then show ?thesis by simp
qed

theorem tx_errors_sent_twice_witness:
  "\<exists>t h txt. process_request example_tx_service no_files (example_post (bs ''c'')) = Inr ([send_json txt], Some (t, LiveTx h))
    \<and> posted h = [SendJson txt]"
proof -
  let ?E = example_tx_service
  obtain out l where p: "process_request ?E no_files (example_post (bs ''c'')) = Inr (out, l)" "out \<noteq> []"
    using example_tx_runs by blast
  have c: "c_str (bs ''c'') = bs ''c''" by (simp add: c_str_def byte_simps)
  have parse: "reader_parse (lib ?E) (req_text (example_post (bs ''c''))) = Some example_tx_request"
    unfolding reader_parse_def example_post_def http_request.select_convs c
    by (simp add: lib_def example_tx_service_def example_service_def example_http_def json_lib.truncate_def)
  have "\<exists>t h txt. l = Some (t, LiveTx h) \<and> out = [send_json txt] \<and> posted h = [SendJson txt]"
    by (rule tx_errors_sent_twice [OF _ _ parse _ _ _ _ p])
      (simp_all add: example_post_def example_tx_request_def get_id_def get_def IsInt_def get_method_def get_string_def
        example_tx_service_def example_service_def example_settings_def initial_settings_def byte_simps)
  then show ?thesis using p(1) by auto
qed

end
