(* ===== verification/TxSpec.thy ===== *)
theory TxSpec
  imports ServiceSpec
begin

text \<open>
  What \<open>create-tx\<close> and \<open>send-tx\<close> come to: the handlers turn every amount into hexadecimal before the
  wallet, which accepts decimal numbers only, gets it.
\<close>

section \<open>Hexadecimal amounts\<close>

definition hexed :: "bytes \<Rightarrow> bytes \<Rightarrow> bool" where
  "hexed word s \<longleftrightarrow> s = word \<or> take 2 s = bs ''0x''"

lemma prefix_0x: "take 2 t = bs ''0x'' \<longleftrightarrow> (\<exists>rest. t = 48 # 120 # rest)"
  by (cases t; cases "tl t") (auto simp: byte_simps)

lemma not_decimal_0x: "take 2 t = bs ''0x'' \<Longrightarrow> \<not> isDecimal t"
  by (auto simp: prefix_0x isDecimal_def byte_simps)

lemma stoul_0x: "take 2 t = bs ''0x'' \<Longrightarrow> stoul t = Inr 0"
proof -
  assume "take 2 t = bs ''0x''"
  then obtain rest where "t = 48 # 120 # rest" by (auto simp: prefix_0x)
  then have "c_str t = 48 # 120 # c_str rest" by (simp add: c_str_def)
  then have "strto_decimal t = Some 0" by (simp add: strto_decimal_def isspace_def is_digit_def)
  then show ?thesis by (simp add: stoul_def)
qed

lemma hexed_not_word: "hexed word s \<Longrightarrow> s \<noteq> word \<Longrightarrow> \<not> isDecimal s"
  using not_decimal_0x by (auto simp: hexed_def)

text \<open>The wallet builds nothing from such amounts when the estimate is 0.\<close>

lemma buildTransaction_hexed:
  assumes "hexed (bs ''all'') v" and "hexed (bs ''auto'') f"
  shows "\<exists>e s. buildTransaction K Ew w utxos 0 v f r = Inl (TypedException e s)"
proof (cases "v = bs ''all''")
  case False
  then show ?thesis using hexed_not_word [OF assms(1)] by (simp add: buildTransaction_def)
next
  case True
  then show ?thesis using hexed_not_word [OF assms(2)]
    by (cases "f = bs ''auto''") (simp_all add: buildTransaction_def)
qed

section \<open>The invariant of a handler\<close>

definition harmless :: "posted \<Rightarrow> bool" where
  "harmless p = (case p of SendJson t \<Rightarrow> True | SendRequest r k \<Rightarrow> k = OnTransactionParams 1 | PostExecute \<Rightarrow> False)"

definition tx_inv :: "create_tx_handler \<Rightarrow> bool" where
  "tx_inv h \<longleftrightarrow> list_all harmless (posted h)
     \<and> (m_btc_wallet h \<noteq> None \<longrightarrow> hexed (bs ''all'') (m_value h) \<and> hexed (bs ''auto'') (m_fee h))"

definition triple :: "(create_tx_handler \<Rightarrow> bool) \<Rightarrow> (create_tx_handler, 'a) act \<Rightarrow> ('a \<Rightarrow> create_tx_handler \<Rightarrow> bool) \<Rightarrow> bool" where
  "triple P m Q \<longleftrightarrow> (\<forall>h. P h \<longrightarrow> (case m h of (Inr x, h') \<Rightarrow> Q x h' | (Inl e, h') \<Rightarrow> tx_inv h'))"

lemma triple_andThen:
  assumes "triple P m Q" and "\<And>x. triple (Q x) (k x) Q2"
  shows "triple P (andThen m k) Q2"
  unfolding triple_def
proof (intro allI impI)
  fix h
  assume P: "P h"
  obtain x h1 where h1: "m h = (x, h1)" by (cases "m h")
  show "case andThen m k h of (Inr x, h') \<Rightarrow> Q2 x h' | (Inl e, h') \<Rightarrow> tx_inv h'"
  proof (cases x)
    case (Inl e)
    then show ?thesis using assms(1) P h1 by (auto simp: triple_def act_simps)
  next
    case (Inr y)
    then have "Q y h1" using assms(1) P h1 unfolding triple_def by fastforce
    then show ?thesis using assms(2) [of y] h1 Inr unfolding triple_def by (simp add: act_simps)
  qed
qed

lemma triple_simple:
  "triple P (ret x) (\<lambda>y h. y = x \<and> P h)"
  "(\<And>h. P h \<Longrightarrow> tx_inv h) \<Longrightarrow> triple P (raise e) Q"
  "(\<And>h. P h \<Longrightarrow> tx_inv h) \<Longrightarrow> triple P (lift r) (\<lambda>x h. r = Inr x \<and> P h)"
  "triple P (read_state f) (\<lambda>x h. x = f h \<and> P h)"
  "(\<And>h. P h \<Longrightarrow> tx_inv h) \<Longrightarrow> triple P (check b m) (\<lambda>_. P)"
  "(\<And>h. P h \<Longrightarrow> Q () (f h)) \<Longrightarrow> triple P (assign f) Q"
  by (auto simp: triple_def act_simps check_def CHK_PRM_def split: sum.split)

lemma triple_conseq:
  "triple P' m Q' \<Longrightarrow> (\<And>h. P h \<Longrightarrow> P' h) \<Longrightarrow> (\<And>x h. Q' x h \<Longrightarrow> Q x h) \<Longrightarrow> triple P m Q"
  unfolding triple_def by (fastforce split: prod.splits sum.splits)

text \<open>Predicates that do not look at the writer.\<close>

definition no_writer :: "(create_tx_handler \<Rightarrow> bool) \<Rightarrow> bool" where
  "no_writer P \<longleftrightarrow> (\<forall>h w. P h \<longrightarrow> P (h\<lparr>m_writer := w\<rparr>))"

lemma no_writer_tx_inv [simp]: "no_writer tx_inv"
  by (simp add: no_writer_def tx_inv_def)

lemma triple_write:
  "(\<And>h. P h \<Longrightarrow> tx_inv h) \<Longrightarrow> no_writer P \<Longrightarrow> triple P (write_doc f) (\<lambda>_. P)"
  by (auto simp: triple_def write_doc_def no_writer_def split: sum.split)

lemma tx_inv_post: "tx_inv h \<Longrightarrow> tx_inv (post (SendJson t) h)"
  by (simp add: tx_inv_def post_def harmless_def)

lemma triple_END_TRY:
  assumes "triple P body Q" and "\<And>h. tx_inv h \<Longrightarrow> Q r h" and "param = ret () \<or> param = post_send_json E"
  shows "triple P (END_TRY E r param body) Q"
  unfolding triple_def
proof (intro allI impI)
  fix h
  assume P: "P h"
  obtain res h' where run: "END_TRY E r param body h = (res, h')" by (cases "END_TRY E r param body h")
  from run show "case END_TRY E r param body h of (Inr x, h') \<Rightarrow> Q x h' | (Inl e, h') \<Rightarrow> tx_inv h'"
  proof (cases rule: END_TRY_cases)
    case (returned x)
    then show ?thesis using assms(1) P run by (auto simp: triple_def)
  next
    case (escaped e)
    then show ?thesis using assms(1) P run by (auto simp: triple_def)
  next
    case (caught e h1 w)
    then have "tx_inv h1" using assms(1) P by (auto simp: triple_def)
    then have "tx_inv (h1\<lparr>m_writer := w\<rparr>)" by (simp add: tx_inv_def)
    then have "tx_inv h' \<and> res = Inr r"
      using caught(4) assms(3) tx_inv_post by (auto simp: act_simps post_send_json_def)
    then show ?thesis using run assms(2) by simp
  qed
qed

section \<open>\<open>prepare_params\<close>\<close>

text \<open>No wallet yet, and what is known of the amounts.\<close>

definition stage :: "bool \<Rightarrow> bool \<Rightarrow> create_tx_handler \<Rightarrow> bool" where
  "stage v f h \<longleftrightarrow> list_all harmless (posted h) \<and> m_btc_wallet h = None
     \<and> (v \<longrightarrow> hexed (bs ''all'') (m_value h)) \<and> (f \<longrightarrow> hexed (bs ''auto'') (m_fee h))"

lemma stage_inv: "stage v f h \<Longrightarrow> tx_inv h"
  by (simp add: stage_def tx_inv_def)

lemma triple_string_field:
  assumes "\<And>s h. stage v f h \<Longrightarrow> stage v f (store s h)"
  shows "triple (stage v f) (string_field p name missing e store) (\<lambda>_. stage v f)"
  unfolding string_field_def
  by (cases "get_string name p")
    (auto simp: triple_def act_simps check_def CHK_PRM_def intro: stage_inv assms split: sum.splits)

lemma triple_params: "triple (stage v f) check_id (\<lambda>_. stage v f)" "triple (stage v f) params_of (\<lambda>_. stage v f)"
  unfolding check_id_def params_of_def
  by (auto simp: triple_def act_simps check_def CHK_PRM_def stage_inv split: sum.split option.split)

lemma amount_field_result:
  assumes "amount_field E p name word missing bad field store h = (r, h')" and "\<And>t h. field (store t h) = t"
    and "\<And>t h. P h \<Longrightarrow> P (store t h)" and "P h"
  shows "P h' \<and> (r = Inr () \<longrightarrow> hexed word (field h'))"
proof -
  let ?rest = "\<lambda>j m. if m \<noteq> word
    then andThen (lift (val2hex (lib E) (Some j))) (\<lambda>r. case r of None \<Rightarrow> raise (InvalidParam bad) | Some t \<Rightarrow> assign (store t))
    else ret ()"
  have rest: "P h2 \<and> (x = Inr () \<longrightarrow> hexed word (field h2))"
    if "?rest j (field h1) h1 = (x, h2)" "P h1" for j h1 x h2
  proof (cases "field h1 = word")
    case True
    then show ?thesis using that by (auto simp: act_simps hexed_def)
  next
    case False
    then show ?thesis using that assms(2,3) val2hex_prefix [of "lib E" "Some j"]
      by (cases "val2hex (lib E) (Some j)") (auto simp: act_simps hexed_def split: option.splits)
  qed
  consider "h' = h" "r \<noteq> Inr ()" | j h1 where "?rest j (field h1) h1 = (r, h')" "P h1"
    using assms(1,3,4) unfolding amount_field_def
    by (cases "get name p") (auto simp: act_simps split: option.splits json.splits)
  then show ?thesis
  proof cases
    case (2 j h1)
    then show ?thesis by (rule rest)
  qed (use assms(4) in simp)
qed

lemma triple_amount:
  assumes "\<And>t h. field (store t h) = t" and "\<And>t h. P h \<Longrightarrow> P (store t h)" and "\<And>h. P h \<Longrightarrow> tx_inv h"
  shows "triple P (amount_field E p name word missing bad field store) (\<lambda>_ h. P h \<and> hexed word (field h))"
  unfolding triple_def
proof (intro allI impI)
  fix h
  assume P: "P h"
  obtain r h' where run: "amount_field E p name word missing bad field store h = (r, h')"
    by (cases "amount_field E p name word missing bad field store h")
  from amount_field_result [OF run assms(1,2) P] show "case amount_field E p name word missing bad field store h of
      (Inr x, h') \<Rightarrow> P h' \<and> hexed word (field h') | (Inl e, h') \<Rightarrow> tx_inv h'"
    using run assms(3) by (cases r) auto
qed

lemma triple_value:
  "triple (stage False False) (amount_field E p name (bs ''all'') missing bad m_value store_value) (\<lambda>_. stage True False)"
  by (rule triple_conseq [OF triple_amount [where P = "stage False False"]])
    (auto simp: stage_def store_value_def tx_inv_def)

lemma triple_fee:
  "triple (stage True False) (amount_field E p name (bs ''auto'') missing bad m_fee store_fee) (\<lambda>_. stage True True)"
  by (rule triple_conseq [OF triple_amount [where P = "stage True False"]])
    (auto simp: stage_def store_fee_def tx_inv_def)

lemma triple_nonce:
  "triple (stage v f) (andThen (lift r) (\<lambda>jValue.
     case jValue of None \<Rightarrow> ret () | Some j \<Rightarrow> hex_field E j bad store_nonce)) (\<lambda>_. stage v f)"
  by (auto simp: triple_def hex_field_def act_simps stage_def tx_inv_def store_nonce_def
      split: sum.splits option.splits)

lemma triple_open_wallet: "triple (stage True True) (open_wallet E) (\<lambda>_. tx_inv)"
  by (auto simp: triple_def open_wallet_def act_simps stage_def tx_inv_def split: sum.split)

lemma triple_get_transaction_params: "triple tx_inv (get_transaction_params E) (\<lambda>_. tx_inv)"
  unfolding get_transaction_params_def
  by (rule triple_END_TRY)
    (auto simp: triple_def act_simps tx_inv_def post_def harmless_def split: sum.splits prod.splits)

lemma triple_prepare: "triple (stage False False) (create_tx_prepare_params E) (\<lambda>b h. \<not> b \<and> tx_inv h)"
  unfolding create_tx_prepare_params_def
proof (rule triple_END_TRY)
  have finish: "triple tx_inv (andThen (assign (\<lambda>h. h\<lparr>m_pending := True\<rparr>)) (\<lambda>_.
      andThen (get_transaction_params E) (\<lambda>ok. andThen (check ok m) (\<lambda>_. ret False)))) (\<lambda>b h. \<not> b \<and> tx_inv h)" for m
    by (rule triple_andThen [where Q = "\<lambda>_. tx_inv"], rule triple_simple, simp add: tx_inv_def,
        rule triple_andThen [OF triple_get_transaction_params],
        rule triple_andThen [OF triple_simple(5)], simp, rule triple_conseq [OF triple_simple(1)]) simp_all
  show "triple (stage False False) (andThen check_id (\<lambda>_. andThen params_of (\<lambda>params.
      andThen (string_field params (bs ''address'') (bs ''address field not found'') (bs ''address field empty'')
        (\<lambda>s h. h\<lparr>m_address := s\<rparr>)) (\<lambda>_.
      andThen (string_field params (bs ''password'') (bs ''password field not found'') (bs ''empty password'')
        (\<lambda>s h. h\<lparr>m_password := s\<rparr>)) (\<lambda>_.
      andThen (string_field params (bs ''to'') (bs ''to field not found'') (bs ''to field empty'')
        (\<lambda>s h. h\<lparr>m_to := s\<rparr>)) (\<lambda>_.
      andThen (amount_field E params (bs ''value'') (bs ''all'') (bs ''value field not found'')
        (bs ''value field incorrect format'') m_value store_value) (\<lambda>_.
      andThen (andThen (lift (get (bs ''nonce'') params)) (\<lambda>jValue.
        case jValue of None \<Rightarrow> ret () | Some j \<Rightarrow> hex_field E j (bs ''nonce field incorrect format'') store_nonce)) (\<lambda>_.
      andThen (amount_field E params (bs ''fee'') (bs ''auto'') (bs ''fee field not found'')
        (bs ''fee field incorrect format'') m_fee store_fee) (\<lambda>_.
      andThen (open_wallet E) (\<lambda>_.
      andThen (assign (\<lambda>h. h\<lparr>m_pending := True\<rparr>)) (\<lambda>_.
      andThen (get_transaction_params E) (\<lambda>ok.
      andThen (check ok (bs ''get transaction params error'')) (\<lambda>_.
      ret False))))))))))))) (\<lambda>b h. \<not> b \<and> tx_inv h)"
    by (rule triple_andThen [OF triple_params(1)], rule triple_andThen [OF triple_params(2)],
        (rule triple_andThen [OF triple_string_field], simp add: stage_def)+,
        rule triple_andThen [OF triple_value], rule triple_andThen [OF triple_nonce],
        rule triple_andThen [OF triple_fee], rule triple_andThen [OF triple_open_wallet], rule finish)
qed simp_all

section \<open>The answer of the server\<close>

definition inv_0x :: "create_tx_handler \<Rightarrow> bool" where
  "inv_0x h \<longleftrightarrow> tx_inv h \<and> take 2 (m_estimate_fee h) = bs ''0x''"

lemma triple_check_json: "triple tx_inv (check_json E txt rid) (\<lambda>_. tx_inv)"
  unfolding check_json_def
  by (rule triple_END_TRY)
    (auto simp: triple_def act_simps check_def CHK_PRM_def write_doc_def tx_inv_def
      split: sum.splits prod.splits option.splits)

lemma build_request_inv:
  assumes "inv_0x h" and "build_request E h = (r, h')"
  shows "tx_inv h'"
  using assms(2) unfolding build_request_def
proof (cases rule: END_TRY_cases)
  have est: "(if m_estimate_fee h \<noteq> [] then stoul (m_estimate_fee h) else Inr 0) = Inr 0"
    using assms(1) stoul_0x by (simp add: inv_0x_def)
  have fails: "\<exists>e. (case m_btc_wallet h of
        None \<Rightarrow> raise (Undefined (bs ''m_btc_wallet is null''))
      | Some w \<Rightarrow> lift (buildTransaction (s_crypto E) (s_wallet E) w (m_utxos h) 0 (m_value h) (m_fee h) (m_to h))) h
      = (Inl e, h)"
    using assms(1) buildTransaction_hexed
    by (cases "m_btc_wallet h") (fastforce simp: act_simps inv_0x_def tx_inv_def)+
  note body = act_simps est
  {
    case (returned x)
    then show ?thesis using fails by (auto simp: body)
  next
    case (escaped e)
    then show ?thesis using fails assms(1) by (auto simp: body inv_0x_def)
  next
    case (caught e h1 w)
    then have "h1 = h" using fails by (auto simp: body)
    then have "tx_inv (h1\<lparr>m_writer := w\<rparr>)" using assms(1) by (simp add: inv_0x_def tx_inv_def)
    then show ?thesis using caught(4) tx_inv_post by (auto simp: act_simps post_send_json_def)
  }
qed

lemma triple_build_request: "triple inv_0x (build_request E) (\<lambda>_. tx_inv)"
  unfolding triple_def
proof (intro allI impI)
  fix h
  assume h: "inv_0x h"
  obtain r h' where run: "build_request E h = (r, h')" by (cases "build_request E h")
  from build_request_inv [OF h run]
  show "case build_request E h of (Inr x, h') \<Rightarrow> tx_inv h' | (Inl e, h') \<Rightarrow> tx_inv h'"
    by (cases r) (simp_all add: run)
qed

lemma triple_hex_field:
  "triple tx_inv (hex_field E j bad store_nonce) (\<lambda>_. tx_inv)"
  "triple tx_inv (hex_field E j bad store_estimate) (\<lambda>_. inv_0x)"
  using val2hex_prefix
  by (auto simp: triple_def hex_field_def act_simps tx_inv_def inv_0x_def store_nonce_def store_estimate_def
      split: sum.split option.split)

named_theorems inv_intros \<open>operations that keep the invariant\<close>

lemma inv_simple [inv_intros]:
  "triple tx_inv (ret x) (\<lambda>_. tx_inv)" "triple tx_inv (raise e) (\<lambda>_. tx_inv)"
  "triple tx_inv (lift r) (\<lambda>_. tx_inv)" "triple tx_inv (read_state f) (\<lambda>_. tx_inv)"
  "triple tx_inv (check b m) (\<lambda>_. tx_inv)" "triple tx_inv (post_send_json E) (\<lambda>_. tx_inv)"
  "(\<And>h. tx_inv h \<Longrightarrow> tx_inv (g h)) \<Longrightarrow> triple tx_inv (assign g) (\<lambda>_. tx_inv)"
  using tx_inv_post
  by (auto simp: triple_def act_simps check_def CHK_PRM_def post_send_json_def split: sum.split)

lemma inv_branch [inv_intros]:
  "triple P a Q \<Longrightarrow> triple P b Q \<Longrightarrow> triple P (if c then a else b) Q"
  "triple P a Q \<Longrightarrow> (\<And>y. triple P (g y) Q) \<Longrightarrow> triple P (case x of None \<Rightarrow> a | Some y \<Rightarrow> g y) Q"
  by (auto split: option.split)

lemmas inv_andThen [inv_intros] = triple_andThen [where P = tx_inv and Q = "\<lambda>_. tx_inv"]

lemma triple_data_member [inv_intros]: "triple tx_inv (data_member d name missing) (\<lambda>_. tx_inv)"
  by (auto simp: triple_def data_member_def act_simps split: sum.split option.split)

lemma triple_read_utxos: "triple tx_inv (read_utxos E vs) (\<lambda>_. tx_inv)"
proof (induction vs)
  case (Cons v vs)
  show ?case
    unfolding read_utxos.simps by (intro inv_intros Cons) (simp add: tx_inv_def)
qed (simp add: inv_intros)

lemma triple_use_transaction_params: "triple tx_inv (use_transaction_params E doc) (\<lambda>_. tx_inv)"
proof -
  have utxos: "triple tx_inv (case utxos of JArray vs \<Rightarrow> read_utxos E vs | _ \<Rightarrow> ret ()) (\<lambda>_. tx_inv)" for utxos
    using triple_read_utxos inv_simple(1) by (cases utxos) simp_all
  have build: "triple tx_inv (andThen (hex_field E j bad store_estimate) (\<lambda>_. build_request E)) (\<lambda>_. tx_inv)" for j bad
    by (rule triple_andThen [OF triple_hex_field(2) triple_build_request])
  show ?thesis
    unfolding use_transaction_params_def
    by (intro utxos build triple_hex_field(1) inv_intros) (simp add: tx_inv_def store_estimate_def)
qed

lemma triple_on_get_transaction_params: "triple tx_inv (on_get_transaction_params E txt rid) (\<lambda>_. tx_inv)"
  unfolding on_get_transaction_params_def
  by (rule triple_END_TRY) (intro triple_check_json triple_use_transaction_params inv_intros, simp_all)

lemma tripleD: "triple P m (\<lambda>_. P) \<Longrightarrow> m h = (r, h') \<Longrightarrow> P h \<Longrightarrow> (\<And>h. P h \<Longrightarrow> tx_inv h) \<Longrightarrow> tx_inv h'"
  unfolding triple_def by (cases r) fastforce+

section \<open>Properties\<close>

text \<open>The reply to the request itself and to a later one leave the invariant alone as well.\<close>

lemma triple_on_complete: "triple tx_inv (on_complete E rid txt) (\<lambda>_. tx_inv)"
proof -
  have w: "triple tx_inv (write_doc f) (\<lambda>_. tx_inv)" for f
    by (rule triple_write) simp_all
  have "triple tx_inv (add_members ms) (\<lambda>_. tx_inv)" for ms
    by (induction ms rule: add_members.induct) (auto intro!: inv_intros w simp: Let_def)
  then show ?thesis
    unfolding on_complete_def
    by (intro triple_END_TRY) (intro w inv_intros, simp_all add: tx_inv_def)
qed

lemma triple_write_stage: "triple (stage v f) (write_doc g) (\<lambda>_. stage v f)"
  by (rule triple_write, erule stage_inv) (simp add: no_writer_def stage_def)

lemma triple_prepare_whole:
  "triple (stage False False) (prepare E (create_tx_prepare_params E) params) (\<lambda>b h. \<not> b \<and> tx_inv h)"
proof -
  have w: "triple tx_inv (write_doc f) (\<lambda>_. tx_inv)" for f
    by (rule triple_write) simp_all
  have rest: "triple (\<lambda>h. \<not> success \<and> tx_inv h) (andThen (read_state m_pending) (\<lambda>pending.
      andThen (if \<not> success \<and> \<not> pending
               then andThen (read_state m_writer) (\<lambda>w. andThen (lift (is_error w)) (\<lambda>err.
                    if \<not> err then write_doc (\<lambda>w. set_error (writer_reset w) (- 32602) (bs ''Invalid params'')) else ret ()))
               else ret ()) (\<lambda>_. ret success))) (\<lambda>b h. \<not> b \<and> tx_inv h)" for success
  proof (cases success)
    case False
    have "triple tx_inv (ret False) (\<lambda>b h. \<not> b \<and> tx_inv h)" by (simp add: triple_def act_simps)
    then show ?thesis
      using False by (simp, intro inv_intros w)
  qed (simp add: triple_def)
  have start: "triple (stage False False) (case reader_parse (lib E) params of
        None \<Rightarrow> raise (InvalidParam (bs ''Parse error'')) | Some doc \<Rightarrow> assign (\<lambda>h. h\<lparr>m_reader := doc\<rparr>)) (\<lambda>_. stage False False)"
    by (auto simp: triple_def act_simps stage_def tx_inv_def split: option.split)
  have id: "triple (stage False False) (assign (\<lambda>h. h\<lparr>m_id := i\<rparr>)) (\<lambda>_. stage False False)" for i
    by (auto simp: triple_def act_simps stage_def)
  have r: "triple (stage False False) (read_state f) (\<lambda>_. stage False False)" for f :: "create_tx_handler \<Rightarrow> json"
    by (simp add: triple_def act_simps)
  have l: "triple (stage False False) (lift x) (\<lambda>_. stage False False)" for x :: "u32 res"
    by (auto simp: triple_def act_simps stage_inv split: sum.split)
  show ?thesis
    unfolding prepare_def
    by (rule triple_END_TRY, rule triple_andThen [OF start], rule triple_andThen [OF r], rule triple_andThen [OF l],
        rule triple_andThen [OF id], rule triple_andThen [OF triple_write_stage],
        rule triple_andThen [OF triple_simple(5)], erule stage_inv, rule triple_andThen [OF triple_simple(5)],
        erule stage_inv, rule triple_andThen [OF triple_prepare], rule rest) simp_all
qed

lemma perform_tx_inv:
  assumes "perform E (create_tx_prepare_params E) ex (new_tx_handler E fs) params = (res, h)"
  shows "tx_inv h"
proof -
  have st: "stage False False (new_tx_handler E fs)"
    by (simp add: stage_def new_tx_handler_def new_network_handler_def new_handler_def
        handler.defs network_handler.defs create_tx_handler.defs)
  note r = triple_prepare_whole [unfolded triple_def, rule_format, OF st, of E params]
  obtain y h1 where "prepare E (create_tx_prepare_params E) params (new_tx_handler E fs) = (y, h1)"
    by (cases "prepare E (create_tx_prepare_params E) params (new_tx_handler E fs)")
  then show ?thesis using r assms
    by (cases y) (auto simp: perform_def act_simps split: if_splits)
qed

text \<open>C12: A call of \<open>create-tx\<close> or \<open>send-tx\<close> never comes to its transaction: whatever the request, the server's
  answer and the wallet, the handler asks the server for the parameters at most and sends replies to
  the client; it is never executed, so that no transaction is returned or sent. (All amounts reach the
  wallet in hexadecimal, which \<open>buildTransaction\<close> refuses, and the hexadecimal estimate of the fee is
  read as 0.)\<close>

theorem transactions_never_leave:
  assumes "t = CreateTx \<or> t = SendTx"
    and "run_task E fs t params = (res, LiveTx h)" and "resume E k txt (LiveTx h) = (r, LiveTx h')"
  shows "list_all (\<lambda>p. case p of SendJson t \<Rightarrow> True | SendRequest r k \<Rightarrow> k = OnTransactionParams 1
    | PostExecute \<Rightarrow> False) (posted h @ posted h')"
proof -
  have h: "tx_inv h" using assms(1,2) perform_tx_inv by (auto simp: run_task_def apsnd_eq)
  have "tx_inv h'"
  proof (cases k)
    case (OnComplete rid)
    then have "on_complete E rid txt h = (r, h')" using assms(3) by (auto simp: resume_def apsnd_eq)
    from tripleD [OF triple_on_complete this h] show ?thesis .
  next
    case (OnTransactionParams rid)
    then have "on_get_transaction_params E txt rid h = (r, h')" using assms(3) by (auto simp: resume_def apsnd_eq)
    from tripleD [OF triple_on_get_transaction_params this h] show ?thesis .
  qed
  with h show ?thesis by (simp add: tx_inv_def harmless_def [abs_def])
qed

theorem transactions_never_leave_witness:
  "\<exists>res h r h'. run_task example_tx_service no_files CreateTx (bs ''c'') = (res, LiveTx h)
    \<and> resume example_tx_service (OnTransactionParams 1) [] (LiveTx h) = (r, LiveTx h') \<and> PostExecute \<notin> set (posted h')"
proof -
  let ?E = example_tx_service
  obtain res h where h: "run_task ?E no_files CreateTx (bs ''c'') = (res, LiveTx h)"
    by (cases "perform ?E (create_tx_prepare_params ?E) (create_tx_execute ?E) (new_tx_handler ?E no_files) (bs ''c'')")
      (simp add: run_task_def)
  obtain r h' where h': "resume ?E (OnTransactionParams 1) [] (LiveTx h) = (r, LiveTx h')"
    by (cases "on_get_transaction_params ?E [] 1 h") (simp add: resume_def)
  from transactions_never_leave [OF disjI1 [OF refl] h h'] have "PostExecute \<notin> set (posted h')"
    by (auto simp: list_all_iff dest!: bspec [where x = PostExecute])
  then show ?thesis using h h' by blast
qed

end
