(* ===== verification/FetchSpec.thy ===== *)
theory FetchSpec
  imports ServiceSpec
begin

text \<open>
  A whole call of \<open>fetch-balance\<close> or \<open>fetch-history\<close>: from the client's request over the request to the
  server to the reply.
\<close>

section \<open>The request to the server\<close>

definition server_call :: "service \<Rightarrow> task \<Rightarrow> u32 \<Rightarrow> bytes \<Rightarrow> json" where
  "server_call E t i a =
     JObject [(bs ''jsonrpc'', JString json_rpc_ver), (bs ''id'', JInt (uint i)),
       (bs ''method'', JString (if t = FetchBalance then bs ''address.balance'' else bs ''address.transaction'')),
       (bs ''token'', JString (token (s_settings E))),
       (bs ''params'', JArray [JObject [(bs ''currency'', JInt (coin_key (s_settings E))),
          (bs ''address'', if t = FetchBalance then JArray [JString a] else JString a)]])]"

definition call_start :: "u32 \<Rightarrow> json" where
  "call_start i = JObject [(bs ''jsonrpc'', JString json_rpc_ver), (bs ''id'', JInt (uint i))]"

lemma set_id_new: "i \<noteq> 0 \<Longrightarrow> set_id new_writer i = Inr (call_start i)"
  by (simp add: set_id_def new_writer_def writer_reset_def set_value_def call_start_def byte_simps)

lemma write_call_result:
  assumes "m_writer h = call_start i" and "t = FetchBalance \<or> t = FetchHistory"
  shows "write_call E (if t = FetchBalance then bs ''address.balance'' else bs ''address.transaction'')
      (if t = FetchBalance then JArray [JString a] else JString a) h
    = (Inr (), h\<lparr>m_writer := server_call E t i a\<rparr>)"
  by (simp add: write_call_def act_simps write_doc_def assms(1) add_def set_value_def set_params_def get_value_def
      call_start_def server_call_def byte_simps)

lemma prepare_params_result:
  assumes "m_writer h = call_start i" and "t = FetchBalance \<or> t = FetchHistory"
    and "m_id h \<noteq> 0" and "get_params (m_reader h) = Inr (Some p)" and "get_string (bs ''address'') p = Some a" and "a \<noteq> []"
  shows "network_prepare_params E t h = (Inr True, h\<lparr>m_writer := server_call E t i a\<rparr>)"
  using assms(2)
proof
  assume t: "t = FetchBalance"
  from write_call_result [OF assms(1,2), of E a] show ?thesis
    unfolding t by (simp add: fetch_balance_prepare_params_def END_TRY_def act_simps check_id_def params_of_def
        string_field_def assms(3-6))
next
  assume t: "t = FetchHistory"
  from write_call_result [OF assms(1,2), of E a] show ?thesis
    unfolding t by (simp add: fetch_history_prepare_params_def END_TRY_def act_simps check_id_def params_of_def
        string_field_def assms(3-6))
qed

lemma server_call_id: "get_id (server_call E t i a) = Inr i" if "i \<noteq> 0"
proof -
  have "id_of (server_call E t i a) = Some (id_json i)"
    using that by (simp add: id_of_def get_def server_call_def id_json_def byte_simps)
  then show ?thesis by (rule get_id_id_of)
qed

lemma c_str_idem [simp]: "c_str (c_str s) = c_str s"
  by (rule c_str_id) simp

lemma network_execute_result:
  assumes "m_writer h = server_call E t i a" and "i \<noteq> 0"
    and "reader_parse (lib E) (stringify (lib E) (server_call E t i a)) = Some (server_call E t i a)"
    and "m_request h = new_request host" and "get_method (m_reader h) \<noteq> []" and "hd (get_method (m_reader h)) \<noteq> 47"
  shows "\<exists>r. network_execute E h = (Inr (), (h\<lparr>m_request := r, m_pending := True,
        posted := posted h @ [SendRequest r (OnComplete (m_id h))]\<rparr>))
      \<and> req_body r = stringify (lib E) (server_call E t i a) \<and> target r = 47 # get_method (m_reader h)"
proof -
  let ?r0 = "set_path (get_method (m_reader h)) (new_request host)"
  have fresh: "req_result (new_request h) = new_writer" "req_body (new_request h) = []" for h
    by (simp_all add: new_request_def set_path_def Let_def split: prod.split)
  obtain w where w: "set_id new_writer i = Inr w" using set_id_new [OF assms(2)] by blast
  define r where "r = execute_async True (?r0\<lparr>req_body := stringify (lib E) (server_call E t i a), req_result := w\<rparr>)"
  have body: "set_body (lib E) (stringify (lib E) (server_call E t i a)) ?r0
      = Inr (?r0\<lparr>req_body := stringify (lib E) (server_call E t i a), req_result := w\<rparr>)"
    using assms(3) fresh w server_call_id [OF assms(2)]
    by (simp add: set_body_def set_path_def Let_def stringify_def)
  have "network_execute E h = (Inr (), (h\<lparr>m_request := r, m_pending := True,
        posted := posted h @ [SendRequest r (OnComplete (m_id h))]\<rparr>))"
    by (simp add: network_execute_def END_TRY_def act_simps assms(1,4) body post_def r_def)
  moreover have "req_body r = stringify (lib E) (server_call E t i a) \<and> target r = 47 # get_method (m_reader h)"
    using assms(5,6) by (simp add: r_def execute_async_def set_path_def Let_def hd_conv_nth split: prod.split)
  ultimately show ?thesis by blast
qed

lemma new_network_handler_fields:
  "m_writer (new_network_handler E fs) = new_writer" "posted (new_network_handler E fs) = []"
  "m_request (new_network_handler E fs) = new_request (server_address (s_settings E))"
  by (simp_all add: new_network_handler_def new_handler_def handler.defs network_handler.defs)

lemma fetch_runs:
  assumes "t = FetchBalance \<or> t = FetchHistory"
    and "reader_parse (lib E) params = Some doc" and "get_id doc = Inr i" and "i \<noteq> 0"
    and "get_params doc = Inr (Some p)" and "get_string (bs ''address'') p = Some a" and "a \<noteq> []"
    and "coin_key (s_settings E) \<noteq> - 1" and "token (s_settings E) \<noteq> []"
    and "reader_parse (lib E) (stringify (lib E) (server_call E t i a)) = Some (server_call E t i a)"
    and "get_method doc \<noteq> []" and "hd (get_method doc) \<noteq> 47"
  shows "\<exists>h r txt. run_task E fs t params = (Inr (txt, True), LiveNetwork h)
    \<and> m_writer h = server_call E t i a \<and> posted h = [SendRequest r (OnComplete i)]
    \<and> req_body r = stringify (lib E) (server_call E t i a) \<and> target r = 47 # get_method doc"
proof -
  let ?h0 = "new_network_handler E fs" and ?pp = "network_prepare_params E t"
  let ?h1 = "?h0\<lparr>m_reader := doc, m_id := i, m_writer := call_start i\<rparr>"
  have ok: "writer_ok (m_writer ?h0)" by (rule new_handlers_ok)
  from prepare_eq [OF assms(2,3) ok, of ?pp] obtain w where
    w: "set_id (m_writer ?h0) i = Inr w"
      "prepare E ?pp params ?h0 = END_TRY E False (ret ()) (prepare_rest E ?pp) (?h0\<lparr>m_reader := doc, m_id := i, m_writer := w\<rparr>)"
    by metis
  then have "w = call_start i" using set_id_new [OF assms(4)] by (simp add: new_network_handler_fields)
  moreover have "?pp ?h1 = (Inr True, ?h1\<lparr>m_writer := server_call E t i a\<rparr>)"
    by (rule prepare_params_result) (use assms in simp_all)
  ultimately have prep: "prepare E ?pp params ?h0 = (Inr True, ?h1\<lparr>m_writer := server_call E t i a\<rparr>)"
    unfolding w(2) END_TRY_def using assms(8,9) by (simp add: prepare_rest_def act_simps)
  let ?h2 = "?h1\<lparr>m_writer := server_call E t i a\<rparr>"
  from network_execute_result [of ?h2 E t i a] assms(4,10,11,12) obtain r where
    r: "network_execute E ?h2 = (Inr (), (?h2\<lparr>m_request := r, m_pending := True,
        posted := posted ?h2 @ [SendRequest r (OnComplete (m_id ?h2))]\<rparr>))"
      "req_body r = stringify (lib E) (server_call E t i a)" "target r = 47 # get_method doc"
    by (auto simp: new_network_handler_fields)
  let ?h3 = "?h2\<lparr>m_request := r, m_pending := True, posted := posted ?h2 @ [SendRequest r (OnComplete (m_id ?h2))]\<rparr>"
  have "perform E ?pp (network_execute E) ?h0 params = (Inr (stringify (lib E) (server_call E t i a), True), ?h3)"
    using prep r(1) by (simp add: perform_def act_simps handler_result_def)
  then have "run_task E fs t params = (Inr (stringify (lib E) (server_call E t i a), True), LiveNetwork ?h3)"
    using assms(1) by (auto simp: run_task_def)
  moreover have "m_writer ?h3 = server_call E t i a" "posted ?h3 = [SendRequest r (OnComplete i)]"
    by (simp_all add: new_network_handler_fields)
  ultimately show ?thesis using r(2,3) by blast
qed

section \<open>The reply of the server\<close>

lemma service_names: "toLower (c_str n) \<notin> set json_rpc_service \<Longrightarrow>
    c_str n \<noteq> bs ''id'' \<and> c_str n \<noteq> bs ''result'' \<and> c_str n \<noteq> bs ''error''"
  by (auto simp: json_rpc_service_def toLower_def tolower_def byte_simps)

lemma add_members_result:
  "IsObject (m_writer h) \<Longrightarrow> \<exists>w. add_members ms h = (Inr (), h\<lparr>m_writer := w\<rparr>) \<and> IsObject w
    \<and> (\<forall>n \<in> {bs ''id'', bs ''result'', bs ''error''}. get n w = get n (m_writer h))"
proof (induction ms arbitrary: h rule: add_members.induct)
  case 1
  have "h\<lparr>m_writer := m_writer h\<rparr> = h" by simp
  then show ?case using 1 by (metis act_apply(1) add_members.simps(1))
next
  case (2 n v ms)
  show ?case
  proof (cases "toLower (c_str n) \<in> set json_rpc_service")
    case True
    then show ?thesis using 2 by (simp add: Let_def)
  next
    case False
    obtain os where os: "m_writer h = JObject os" using 2(3) by (cases "m_writer h") auto
    let ?w = "JObject (put_member (c_str n) v os)"
    have w: "add_value (m_writer h) (c_str n) v = Inr ?w" by (simp add: add_value_def set_value_def os)
    from 2(2) [OF refl False, of "h\<lparr>m_writer := ?w\<rparr>"] obtain w' where
      w': "add_members ms (h\<lparr>m_writer := ?w\<rparr>) = (Inr (), h\<lparr>m_writer := w'\<rparr>)" "IsObject w'"
        "\<forall>n \<in> {bs ''id'', bs ''result'', bs ''error''}. get n w' = get n ?w" by auto
    have "get m ?w = get m (m_writer h)" if "m \<in> {bs ''id'', bs ''result'', bs ''error''}" for m
      using service_names [OF False] that by (auto simp: get_def os map_of_put_member)
    then show ?thesis using w' False w by (auto simp: Let_def act_simps write_doc_def)
  qed
qed

lemma on_complete_result:
  assumes "writer_ok (m_writer h)" and "id_of (m_writer h) = Some (id_json i)" and "i \<noteq> 0"
    and "reader_parse (lib E) reply = Some (JObject ms)" and "get_id (JObject ms) = Inr i"
    and "map_of ms (bs ''error'') = None" and "map_of ms (bs ''result'') = Some v"
  shows "\<exists>h' w. on_complete E i reply h = (Inr (), h') \<and> posted h' = posted h @ [SendJson (stringify (lib E) w)]
    \<and> get_id w = Inr i \<and> get_result w = Inr (Some v) \<and> get_error w = Inr None"
proof -
  let ?h = "h\<lparr>m_writer := writer_reset (m_writer h)\<rparr>"
  from set_value_ok [OF writer_reset_ok names_differ(5), of "m_writer h" v] obtain w1 where
    w1: "set_result (writer_reset (m_writer h)) v = Inr w1" "writer_ok w1"
      "get (bs ''result'') w1 = Inr (Some v)" "\<And>n. n \<noteq> bs ''result'' \<Longrightarrow> get n w1 = get n (writer_reset (m_writer h))"
    by (auto simp: set_result_def)
  have other: "get (bs ''error'') w1 = Inr None" "get (bs ''id'') w1 = get (bs ''id'') (writer_reset (m_writer h))"
    using w1(4) by (simp_all add: get_writer_reset byte_simps)
  have "IsObject (m_writer (h\<lparr>m_writer := w1\<rparr>))" using w1(2) by (cases w1) (auto simp: writer_ok_def)
  from add_members_result [OF this, of ms] obtain w where
    w: "add_members ms (h\<lparr>m_writer := w1\<rparr>) = (Inr (), h\<lparr>m_writer := w\<rparr>)"
      "\<forall>n \<in> {bs ''id'', bs ''result'', bs ''error''}. get n w = get n w1" by auto
  have run: "on_complete E i reply h = (Inr (), post (SendJson (stringify (lib E) w)) (h\<lparr>m_writer := w\<rparr>))"
    unfolding on_complete_def END_TRY_def
    by (simp add: act_simps assms(3-7) get_error_def get_result_def get_def write_doc_def w1(1) members_def w(1)
        post_send_json_def)
  have "id_of w = Some (id_json i)"
    using w(2) other(2) id_of_reset [OF assms(1)] assms(2) by (simp add: id_of_def)
  then have "get_id w = Inr i" by (rule get_id_id_of)
  moreover have "get_result w = Inr (Some v)" "get_error w = Inr None"
    using w(2) w1(3) other(1) by (simp_all add: get_result_def get_error_def)
  ultimately show ?thesis using run by (auto simp: post_def)
qed

section \<open>The call\<close>

text \<open>C11: \<open>fetch-balance\<close> and \<open>fetch-history\<close> from end to end. For a request with an id and an address on a
  configured service, nothing is sent to the client at once; one request goes to the server, to the
  path named after the method, with the same id, the token, the coin and the address. When the server
  answers it with a result, the client gets exactly one reply, with its id and that result.\<close>

theorem fetch_call:
  assumes "req_target req = bs ''/''" and "req_is_post req" and "reader_parse (lib E) (req_text req) = Some doc"
    and "t = FetchBalance \<and> get_method doc = bs ''fetch-balance'' \<or> t = FetchHistory \<and> get_method doc = bs ''fetch-history''"
    and "get_id doc = Inr i" and "i \<noteq> 0"
    and "get_params doc = Inr (Some p)" and "get_string (bs ''address'') p = Some a" and "a \<noteq> []"
    and "coin_key (s_settings E) \<noteq> - 1" and "token (s_settings E) \<noteq> []"
    and "reader_parse (lib E) (stringify (lib E) (server_call E t i a)) = Some (server_call E t i a)"
    and "reader_parse (lib E) reply = Some (JObject ms)" and "get_id (JObject ms) = Inr i"
    and "map_of ms (bs ''error'') = None" and "map_of ms (bs ''result'') = Some v"
  shows "\<exists>h r h' w. process_request E fs req = Inr ([], Some (t, LiveNetwork h))
    \<and> posted h = [SendRequest r (OnComplete i)]
    \<and> req_body r = stringify (lib E) (server_call E t i a) \<and> target r = 47 # get_method doc
    \<and> resume E (OnComplete i) reply (LiveNetwork h) = (Inr (), LiveNetwork h')
    \<and> posted h' = posted h @ [SendJson (stringify (lib E) w)]
    \<and> get_id w = Inr i \<and> get_result w = Inr (Some v) \<and> get_error w = Inr None"
proof -
  have t: "t = FetchBalance \<or> t = FetchHistory" and map: "map_of map_handlers (get_method doc) = Some t"
    and m: "get_method doc \<noteq> []" "hd (get_method doc) \<noteq> 47"
    using assms(4) by (auto simp: map_handlers_def byte_simps)
  from fetch_runs [OF t assms(3,5-12) m, of fs] obtain h r answer where
    run: "run_task E fs t (req_text req) = (Inr (answer, True), LiveNetwork h)" "m_writer h = server_call E t i a"
      "posted h = [SendRequest r (OnComplete i)]" "req_body r = stringify (lib E) (server_call E t i a)"
      "target r = 47 # get_method doc" by blast
  have "process_request E fs req = Inr ([], Some (t, LiveNetwork h))"
    unfolding process_request_doc [OF assms(1-3)] map option.case run(1) by simp
  moreover have "writer_ok (m_writer h)" "id_of (m_writer h) = Some (id_json i)"
    unfolding run(2) using assms(6)
    by (simp_all add: writer_ok_def server_call_def id_of_def get_def id_json_def byte_simps)
  from on_complete_result [OF this assms(6,13-16)] obtain h' w where
    "on_complete E i reply h = (Inr (), h')" "posted h' = posted h @ [SendJson (stringify (lib E) w)]"
    "get_id w = Inr i" "get_result w = Inr (Some v)" "get_error w = Inr None" by blast
  ultimately show ?thesis using run(3-5) by (auto simp: resume_def)
qed

text \<open>A library that knows the three texts of one call.\<close>

definition example_fetch_request :: json where
  "example_fetch_request = JObject [(bs ''id'', JInt 7), (bs ''method'', JString (bs ''fetch-balance'')),
     (bs ''params'', JObject [(bs ''address'', JString (bs ''a''))])]"

definition example_fetch_call :: json where
  "example_fetch_call = server_call example_service FetchBalance 7 (bs ''a'')"

definition example_fetch_service :: service where
  "example_fetch_service = example_service\<lparr>s_http := example_http\<lparr>
     parse_json := (\<lambda>t. if t = bs ''c'' then Some example_fetch_request
       else if t = bs ''printed'' then Some example_fetch_call
       else if t = bs ''r'' then Some (JObject [(bs ''id'', JInt 7), (bs ''result'', JInt 5)]) else None)\<rparr>\<rparr>"

lemma fetch_example_parses:
  "reader_parse (lib example_fetch_service) (bs ''c'') = Some example_fetch_request"
  "reader_parse (lib example_fetch_service) (bs ''r'') = Some (JObject [(bs ''id'', JInt 7), (bs ''result'', JInt 5)])"
  "reader_parse (lib example_fetch_service) (stringify (lib example_fetch_service) d) = Some example_fetch_call"
proof -
  have c: "c_str (bs ''c'') = bs ''c''" "c_str (bs ''r'') = bs ''r''" "c_str (bs ''printed'') = bs ''printed''"
    by (simp_all add: c_str_def byte_simps)
  have ne: "bs ''r'' \<noteq> bs ''c''" "bs ''printed'' \<noteq> bs ''c''" "bs ''r'' \<noteq> bs ''printed''" by (simp_all add: byte_simps)
  show "reader_parse (lib example_fetch_service) (bs ''c'') = Some example_fetch_request"
    "reader_parse (lib example_fetch_service) (bs ''r'') = Some (JObject [(bs ''id'', JInt 7), (bs ''result'', JInt 5)])"
    "reader_parse (lib example_fetch_service) (stringify (lib example_fetch_service) d) = Some example_fetch_call"
    by (simp_all add: reader_parse_def stringify_def c ne lib_def example_fetch_service_def example_service_def
        example_http_def json_lib.truncate_def)
qed

theorem fetch_call_witness:
  "\<exists>h h' w. process_request example_fetch_service no_files (example_post (bs ''c''))
      = Inr ([], Some (FetchBalance, LiveNetwork h))
    \<and> resume example_fetch_service (OnComplete 7) (bs ''r'') (LiveNetwork h) = (Inr (), LiveNetwork h')
    \<and> posted h' = posted h @ [SendJson (stringify (lib example_fetch_service) w)] \<and> get_result w = Inr (Some (JInt 5))"
proof -
  let ?E = example_fetch_service
  have call: "server_call ?E FetchBalance 7 (bs ''a'') = example_fetch_call"
    by (simp add: example_fetch_call_def server_call_def example_fetch_service_def)
  have set_simps: "coin_key (s_settings ?E) = 2" "token (s_settings ?E) = [116]"
    by (simp_all add: example_fetch_service_def example_service_def example_settings_def byte_simps)
  have parse: "reader_parse (lib ?E) (req_text (example_post (bs ''c''))) = Some example_fetch_request"
    using fetch_example_parses(1) by (simp add: example_post_def)
  have sent: "reader_parse (lib ?E) (stringify (lib ?E) (server_call ?E FetchBalance 7 (bs ''a'')))
      = Some (server_call ?E FetchBalance 7 (bs ''a''))"
    by (simp add: call fetch_example_parses(3))
  have "\<exists>h r h' w. process_request ?E no_files (example_post (bs ''c'')) = Inr ([], Some (FetchBalance, LiveNetwork h))
    \<and> posted h = [SendRequest r (OnComplete 7)]
    \<and> req_body r = stringify (lib ?E) (server_call ?E FetchBalance 7 (bs ''a''))
    \<and> target r = 47 # get_method example_fetch_request
    \<and> resume ?E (OnComplete 7) (bs ''r'') (LiveNetwork h) = (Inr (), LiveNetwork h')
    \<and> posted h' = posted h @ [SendJson (stringify (lib ?E) w)]
    \<and> get_id w = Inr 7 \<and> get_result w = Inr (Some (JInt 5)) \<and> get_error w = Inr None"
    by (rule fetch_call [OF _ _ parse _ _ _ _ _ _ _ _ sent fetch_example_parses(2), where p = "JObject [(bs ''address'', JString (bs ''a''))]"])
      (simp_all add: example_post_def example_fetch_request_def get_id_def get_params_def
        get_def IsInt_def get_method_def get_string_def set_simps byte_simps)
  then show ?thesis by blast
qed

end
