(* ===== verification/GenerateSpec.thy ===== *)
theory GenerateSpec
  imports FetchSpec WalletSpec
begin

text \<open>
  A whole call of \<open>generate\<close>: from the client's request to the key file, the reply, and the wallet that
  opens the file.
\<close>

section \<open>The handler\<close>

text \<open>The two writers a call can end with.\<close>

definition generated :: "u32 \<Rightarrow> bytes \<Rightarrow> json" where
  "generated i addr = JObject [(bs ''jsonrpc'', JString json_rpc_ver), (bs ''id'', JInt (uint i)),
     (bs ''result'', JObject [(bs ''address'', JString addr)])]"

definition failed :: "u32 \<Rightarrow> int \<Rightarrow> bytes \<Rightarrow> json" where
  "failed i code msg = JObject [(bs ''jsonrpc'', JString json_rpc_ver), (bs ''id'', JInt (uint i)),
     (bs ''error'', JObject [(bs ''code'', JInt code), (bs ''message'', JString msg)])]"

lemma write_generated: "add_result (call_start i) (bs ''address'') (JString addr) = Inr (generated i addr)"
  by (simp add: add_result_def add_in_def get_value_def set_value_def call_start_def generated_def byte_simps)

lemma write_failed: "set_error (writer_reset (call_start i)) code msg = Inr (failed i code msg)"
  by (simp add: set_error_def writer_reset_def set_value_def call_start_def failed_def byte_simps)

lemma generate_execute_result:
  assumes "m_writer h = call_start i"
    and "(gen, fs') = genPrivateKey (s_crypto E) (s_scrypt E) (s_scrypt2 E) (disk h) (fst (s_key E)) (snd (s_key E))
          (wallet_stotage (s_settings E)) (gen_password h)"
  shows "generate_execute E h =
    (case gen of
       Inr (addr, raw) \<Rightarrow> (Inr (), h\<lparr>disk := fs', m_writer := generated i addr\<rparr>)
     | Inl e \<Rightarrow> (case error_of E e of
         None \<Rightarrow> (Inl e, h\<lparr>disk := fs'\<rparr>)
       | Some (code, msg) \<Rightarrow> (Inr (), h\<lparr>disk := fs', m_writer := failed i code msg\<rparr>)))"
  unfolding generate_execute_def END_TRY_def
  by (simp add: act_simps write_doc_def assms(1) assms(2) [symmetric] write_generated write_failed
      split: sum.split prod.split option.split)

lemma new_generate_handler_fields:
  "m_writer (new_generate_handler E fs) = new_writer" "posted (new_generate_handler E fs) = []"
  "disk (new_generate_handler E fs) = fs" "m_pending (new_generate_handler E fs) = False"
  by (simp_all add: new_generate_handler_def new_handler_def handler.defs generate_handler.defs)

lemma generate_runs:
  assumes "reader_parse (lib E) params = Some doc" and "get_id doc = Inr i" and "i \<noteq> 0"
    and "get_params doc = Inr (Some p)" and "get_string (bs ''password'') p = Some s" and "s \<noteq> []" and "allowed_password s"
    and "coin_key (s_settings E) \<noteq> - 1" and "token (s_settings E) \<noteq> []"
    and "(gen, fs') = genPrivateKey (s_crypto E) (s_scrypt E) (s_scrypt2 E) fs (fst (s_key E)) (snd (s_key E))
          (wallet_stotage (s_settings E)) s"
  shows "\<exists>h. posted h = [] \<and> run_task E fs Generate params =
    (case gen of
       Inr (addr, raw) \<Rightarrow>
         (Inr (stringify (lib E) (generated i addr), False), LiveGenerate (h\<lparr>disk := fs', m_writer := generated i addr\<rparr>))
     | Inl e \<Rightarrow> (case error_of E e of
         None \<Rightarrow> (Inl e, LiveGenerate (h\<lparr>disk := fs'\<rparr>))
       | Some (code, msg) \<Rightarrow>
           (Inr (stringify (lib E) (failed i code msg), False), LiveGenerate (h\<lparr>disk := fs', m_writer := failed i code msg\<rparr>))))"
proof -
  let ?h0 = "new_generate_handler E fs" and ?pp = "generate_prepare_params E"
  let ?h1 = "?h0\<lparr>m_reader := doc, m_id := i, m_writer := call_start i\<rparr>"
  let ?h2 = "?h1\<lparr>gen_password := s\<rparr>"
  have ok: "writer_ok (m_writer ?h0)" by (rule new_handlers_ok)
  from prepare_eq [OF assms(1,2) ok, of ?pp] obtain w where
    w: "set_id (m_writer ?h0) i = Inr w"
      "prepare E ?pp params ?h0 = END_TRY E False (ret ()) (prepare_rest E ?pp) (?h0\<lparr>m_reader := doc, m_id := i, m_writer := w\<rparr>)"
    by metis
  then have "w = call_start i" using set_id_new [OF assms(3)] by (simp add: new_generate_handler_fields)
  moreover have "?pp ?h1 = (Inr True, ?h2)"
    using assms(3-7) by (simp add: generate_prepare_params_def END_TRY_def act_simps check_id_def params_of_def string_field_def)
  ultimately have prep: "prepare E ?pp params ?h0 = (Inr True, ?h2)"
    unfolding w(2) END_TRY_def using assms(8,9) by (simp add: prepare_rest_def act_simps)
  have gen: "(gen, fs') = genPrivateKey (s_crypto E) (s_scrypt E) (s_scrypt2 E) (disk ?h2) (fst (s_key E)) (snd (s_key E))
          (wallet_stotage (s_settings E)) (gen_password ?h2)"
    by (simp add: assms(10) new_generate_handler_fields)
  have "m_writer ?h2 = call_start i" by simp
  note exec = generate_execute_result [OF this gen]
  have same: "?h2\<lparr>disk := fs\<rparr> = ?h2" using new_generate_handler_fields(3) [of E fs] by (cases "?h0") simp
  have "posted ?h2 = []" by (simp add: new_generate_handler_fields)
  moreover have "run_task E fs Generate params =
    (case gen of
       Inr (addr, raw) \<Rightarrow>
         (Inr (stringify (lib E) (generated i addr), False), LiveGenerate (?h2\<lparr>disk := fs', m_writer := generated i addr\<rparr>))
     | Inl e \<Rightarrow> (case error_of E e of
         None \<Rightarrow> (Inl e, LiveGenerate (?h2\<lparr>disk := fs'\<rparr>))
       | Some (code, msg) \<Rightarrow>
           (Inr (stringify (lib E) (failed i code msg), False), LiveGenerate (?h2\<lparr>disk := fs', m_writer := failed i code msg\<rparr>))))"
    unfolding same run_task_def task.case perform_def act_simps prep prod.case sum.case if_True exec
    by (simp add: handler_result_def new_generate_handler_fields same split: sum.split prod.split option.split)
  ultimately show ?thesis by blast
qed

lemma failed_fields:
  assumes "i \<noteq> 0"
  shows "get_id (failed i code msg) = Inr i" "get_result (failed i code msg) = Inr None"
    and "get_id (generated i addr) = Inr i" "get_error (generated i addr) = Inr None"
    and "get_result (generated i addr) = Inr (Some (JObject [(bs ''address'', JString addr)]))"
    and "get_error (failed i code msg) = Inr (Some (JObject [(bs ''code'', JInt code), (bs ''message'', JString msg)]))"
proof -
  have "id_of (failed i code msg) = Some (id_json i)" "id_of (generated i addr) = Some (id_json i)"
    using assms by (simp_all add: id_of_def get_def failed_def generated_def id_json_def byte_simps)
  then show "get_id (failed i code msg) = Inr i" "get_id (generated i addr) = Inr i" by (simp_all add: get_id_id_of)
qed (simp_all add: get_result_def get_error_def get_def failed_def generated_def byte_simps)

section \<open>The call\<close>

lemma generate_process:
  assumes "req_target req = bs ''/''" and "req_is_post req" and "reader_parse (lib E) (req_text req) = Some doc"
    and "get_method doc = bs ''generate''" and "get_id doc = Inr i" and "i \<noteq> 0"
    and "get_params doc = Inr (Some p)" and "get_string (bs ''password'') p = Some s" and "s \<noteq> []" and "allowed_password s"
    and "coin_key (s_settings E) \<noteq> - 1" and "token (s_settings E) \<noteq> []"
    and "(gen, fs') = genPrivateKey (s_crypto E) (s_scrypt E) (s_scrypt2 E) fs (fst (s_key E)) (snd (s_key E))
          (wallet_stotage (s_settings E)) s"
  shows "\<exists>h. posted h = [] \<and> process_request E fs req =
    (let reply = (\<lambda>w h. Inr ([send_json (stringify (lib E) w)], Some (Generate, LiveGenerate h)))
     in case gen of
       Inr (addr, raw) \<Rightarrow> reply (generated i addr) (h\<lparr>disk := fs', m_writer := generated i addr\<rparr>)
     | Inl e \<Rightarrow> (case error_of E e of
         None \<Rightarrow> Inl e
       | Some (code, msg) \<Rightarrow> reply (failed i code msg) (h\<lparr>disk := fs', m_writer := failed i code msg\<rparr>)))"
proof -
  from generate_runs [OF assms(3,5-13)] obtain h where h: "posted h = []" and
    run: "run_task E fs Generate (req_text req) =
      (case gen of
         Inr (addr, raw) \<Rightarrow>
           (Inr (stringify (lib E) (generated i addr), False), LiveGenerate (h\<lparr>disk := fs', m_writer := generated i addr\<rparr>))
       | Inl e \<Rightarrow> (case error_of E e of
           None \<Rightarrow> (Inl e, LiveGenerate (h\<lparr>disk := fs'\<rparr>))
         | Some (code, msg) \<Rightarrow>
             (Inr (stringify (lib E) (failed i code msg), False), LiveGenerate (h\<lparr>disk := fs', m_writer := failed i code msg\<rparr>))))"
    by blast
  have map: "map_of map_handlers (get_method doc) = Some Generate"
    unfolding assms(4) by (simp add: map_handlers_def byte_simps)
  note proc = process_request_doc [OF assms(1-3), of fs, unfolded map option.case run]
  show ?thesis
    using h by (intro exI [of _ h]) (simp add: proc split: sum.split option.split prod.split)
qed

text \<open>C10: \<open>generate\<close> from end to end. For a request with an id and an allowed password on a configured
  service, the client gets exactly one reply at once, with its id. If the key could be made, the reply
  has its address as the result; and if moreover the key file of that address could be written, and no file is in the
  way under the plain address, a wallet opened by this address and password, over the files as
  the call left them and in whatever memory (scrypt's allocations succeed, here as during the call), holds exactly the key that the generator gave. If not, the
  reply has the error that was thrown and every file is as before, though folders for it may have been made; only
  undefined behaviour is no exception, and leaves the service.\<close>

theorem generate_call:
  assumes "req_target req = bs ''/''" and "req_is_post req" and "reader_parse (lib E) (req_text req) = Some doc"
    and "get_method doc = bs ''generate''" and "get_id doc = Inr i" and "i \<noteq> 0"
    and "get_params doc = Inr (Some p)" and "get_string (bs ''password'') p = Some s" and "s \<noteq> []" and "allowed_password s"
    and "coin_key (s_settings E) \<noteq> - 1" and "token (s_settings E) \<noteq> []"
    and "crypto_ok (s_crypto E)" and "scrypt_env_ok (s_scrypt E)" and "scrypt_env_ok env"
  shows "case genPrivateKey (s_crypto E) (s_scrypt E) (s_scrypt2 E) fs (fst (s_key E)) (snd (s_key E))
        (wallet_stotage (s_settings E)) s of
      (Inr (addr, raw), fs') \<Rightarrow> \<exists>h w.
        process_request E fs req = Inr ([send_json (stringify (lib E) w)], Some (Generate, LiveGenerate h))
        \<and> posted h = [] \<and> get_id w = Inr i \<and> get_error w = Inr None
        \<and> get_result w = Inr (Some (JObject [(bs ''address'', JString addr)]))
        \<and> (may_write fs (makePath (wallet_stotage (s_settings E)) [convertAddressToFileName addr])
           \<and> isExist fs (makePath (wallet_stotage (s_settings E)) [toLower addr]) = Inr False \<longrightarrow>
           (\<exists>wallet. BtcWallet_file (s_crypto E) env (disk h) (wallet_stotage (s_settings E)) addr s = Inr wallet
             \<and> address wallet = addr
             \<and> CreateWIF (s_crypto E) (fst (s_key E)) (snd (s_key E)) False True = Inr (wif wallet)))
    | (Inl e, fs') \<Rightarrow> (case error_of E e of
        None \<Rightarrow> process_request E fs req = Inl e
      | Some (code, msg) \<Rightarrow> \<exists>h w.
        process_request E fs req = Inr ([send_json (stringify (lib E) w)], Some (Generate, LiveGenerate h))
        \<and> posted h = [] \<and> files (disk h) = files fs \<and> dirs fs \<subseteq> dirs (disk h)
        \<and> get_id w = Inr i \<and> get_result w = Inr None
        \<and> get_error w = Inr (Some (JObject [(bs ''code'', JInt code), (bs ''message'', JString msg)])))"
proof -
  obtain gen fs' where run: "genPrivateKey (s_crypto E) (s_scrypt E) (s_scrypt2 E) fs (fst (s_key E)) (snd (s_key E))
    (wallet_stotage (s_settings E)) s = (gen, fs')" by (metis surj_pair)
  from generate_process [OF assms(1-12) run [symmetric]] obtain h where h: "posted h = []" and
    proc: "process_request E fs req =
    (let reply = (\<lambda>w h. Inr ([send_json (stringify (lib E) w)], Some (Generate, LiveGenerate h)))
     in case gen of
       Inr (addr, raw) \<Rightarrow> reply (generated i addr) (h\<lparr>disk := fs', m_writer := generated i addr\<rparr>)
     | Inl e \<Rightarrow> (case error_of E e of
         None \<Rightarrow> Inl e
       | Some (code, msg) \<Rightarrow> reply (failed i code msg) (h\<lparr>disk := fs', m_writer := failed i code msg\<rparr>)))" by blast
  note fields = failed_fields [OF assms(6)]
  show ?thesis
  proof (cases gen)
    case (Inl e)
    then show ?thesis
      using h fields genPrivateKey_frame [OF run] unfolding run by (auto simp: proc split: option.split)
  next
    case (Inr r)
    obtain addr raw where r: "r = (addr, raw)" by (cases r)
    have "case BtcWallet_file (s_crypto E) env fs' (wallet_stotage (s_settings E)) addr s of Inl e \<Rightarrow> False
      | Inr w \<Rightarrow> address w = addr \<and> CreateWIF (s_crypto E) (fst (s_key E)) (snd (s_key E)) False True = Inr (wif w)"
      if "may_write fs (makePath (wallet_stotage (s_settings E)) [convertAddressToFileName addr])"
        "isExist fs (makePath (wallet_stotage (s_settings E)) [toLower addr]) = Inr False"
      using generated_opens [OF assms(13-15) run [unfolded Inr r] that] .
    then show ?thesis
      using h fields unfolding run Inr r prod.case sum.case
      by (intro exI [of _ "h\<lparr>disk := fs', m_writer := generated i addr\<rparr>"] exI [of _ "generated i addr"] conjI impI)
        (simp_all add: proc Inr r split: sum.split_asm)
  qed
qed

text \<open>A service whose key generator gives the key of the example wallet.\<close>

definition example_generate_request :: json where
  "example_generate_request = JObject [(bs ''id'', JInt 7), (bs ''method'', JString (bs ''generate'')),
     (bs ''params'', JObject [(bs ''password'', JString (bs ''secret''))])]"

definition example_generate_service :: service where
  "example_generate_service = \<lparr>s_http = example_http\<lparr>parse_json := (\<lambda>t. Some example_generate_request)\<rparr>,
     s_crypto = example_crypto, s_scrypt = example_scrypt_env, s_scrypt2 = example_scrypt_env,
     s_wallet = \<lparr>sort_inputs = (\<lambda>xs. xs), before_begin = Some 0\<rparr>,
     s_settings = example_settings\<lparr>wallet_stotage := bs ''wallet''\<rparr>, s_what = (\<lambda>x. bs ''what''),
     s_key = (True, DumpToHexString example_key @ bs ''h''), s_uninit = 0\<rparr>"

theorem generate_call_witness:
  "\<exists>h w wallet. process_request example_generate_service example_fs (example_post (bs ''c''))
      = Inr ([send_json (stringify (lib example_generate_service) w)], Some (Generate, LiveGenerate h))
    \<and> get_result w = Inr (Some (JObject [(bs ''address'', JString example_address)]))
    \<and> BtcWallet_file example_crypto example_scrypt_env (disk h) (bs ''wallet'') example_address (bs ''secret'') = Inr wallet"
proof -
  let ?E = example_generate_service
  obtain fs' raw where gen: "genPrivateKey example_crypto example_scrypt_env example_scrypt_env example_fs True
      (DumpToHexString example_key @ bs ''h'') (bs ''wallet'') (bs ''secret'') = (Inr (example_address, raw), fs')"
    using example_generates by blast
  have sel: "s_crypto ?E = example_crypto" "s_scrypt ?E = example_scrypt_env" "s_scrypt2 ?E = example_scrypt_env"
    "s_key ?E = (True, DumpToHexString example_key @ bs ''h'')" "wallet_stotage (s_settings ?E) = bs ''wallet''"
    "coin_key (s_settings ?E) = 2" "token (s_settings ?E) = bs ''t''"
    by (simp_all add: example_generate_service_def example_settings_def)
  have parse: "reader_parse (lib ?E) (req_text (example_post (bs ''c''))) = Some example_generate_request"
    by (simp add: reader_parse_def lib_def example_generate_service_def example_http_def json_lib.truncate_def)
  have doc: "get_method example_generate_request = bs ''generate''" "get_id example_generate_request = Inr 7"
    "get_params example_generate_request = Inr (Some (JObject [(bs ''password'', JString (bs ''secret''))]))"
    "get_string (bs ''password'') (JObject [(bs ''password'', JString (bs ''secret''))]) = Some (bs ''secret'')"
    "bs ''secret'' \<noteq> []" "allowed_password (bs ''secret'')" "bs ''t'' \<noteq> []"
    by (simp_all add: example_generate_request_def get_method_def get_string_def get_id_def get_def IsInt_def get_params_def
        byte_simps)
  have files: "may_write example_fs q" "isExist example_fs q = Inr False" for q
    by (simp_all add: example_fs_def isExist_def)
  show ?thesis
    using generate_call [OF _ _ parse doc(1,2) _ doc(3-6) _ _ _ _ scrypt_env_ok_example, of example_fs]
      crypto_ok_example scrypt_env_ok_example doc(7)
    unfolding sel fst_conv snd_conv gen by (simp add: example_post_def files) blast
qed

end
