(* ===== verification/Server.thy ===== *)
theory Server
  imports Session
begin

text \<open>
  The running service, from \<open>src/src/main.cpp\<close>, \<open>http_server.cpp\<close> and \<open>http_session.cpp\<close>: how a session
  takes its requests from the socket, and the process as a whole, with its main thread, the thread that
  reads the console, the threads that run the handlers of \<open>io_context\<close>, and the pool on which
  \<open>boost::asio::post\<close> runs what the task handlers post.

  An action is one handler (or one step of the main or console thread), run to its end; the operating
  system chooses which comes next, what is read, and whether a call on a socket fails. An exception
  that leaves a handler ends the process (\<open>std::terminate\<close>): nothing in the threads or the pool catches
  it. The actions are an executable function, the runs a relation over it.
\<close>

section \<open>Reading requests\<close>

text \<open>The HTTP parser on what is in the buffer: more is needed, an error, or a message and its length.\<close>

datatype http_parse = NeedMore | BadMessage | Message http_request nat

type_synonym http_parser = "bytes \<Rightarrow> http_parse"

text \<open>What Beast documents of \<open>http::async_read\<close>, which is not code of the program: segments are added to the buffer
  until the parser is done. The result is the
  message, how many bytes it took, and what stays in the buffer and on the socket.\<close>

fun read_message :: "http_parser \<Rightarrow> bytes \<Rightarrow> bytes list \<Rightarrow> (http_request \<times> nat \<times> bytes \<times> bytes list) option" where
  "read_message P buf [] =
     (case P buf of Message req n \<Rightarrow> Some (req, min n (length buf), drop n buf, []) | _ \<Rightarrow> None)"
| "read_message P buf (s # segs) =
     (case P buf of
        Message req n \<Rightarrow> Some (req, min n (length buf), drop n buf, s # segs)
      | BadMessage \<Rightarrow> None
      | NeedMore \<Rightarrow> read_message P (buf @ s) segs)"

lemma read_message_shorter:
  "read_message P buf segs = Some (req, n, rest, segs') \<Longrightarrow>
    length segs' < length segs \<or> (segs' = segs \<and> n \<le> length buf)"
  by (induction P buf segs rule: read_message.induct) (auto split: http_parse.splits)

text \<open>The loop of \<open>run\<close>: each round begins by emptying the buffer.\<close>

function session_requests :: "http_parser \<Rightarrow> bytes list \<Rightarrow> http_request list" where
  "session_requests P segs =
     (case read_message P [] segs of
        None \<Rightarrow> []
      | Some (req, n, buf, rest) \<Rightarrow> if n > 0 then req # session_requests P rest else [])"
  by pat_completeness auto

termination
  by (relation "measure (\<lambda>(P, segs). length segs)") (use read_message_shorter in fastforce)+

declare session_requests.simps [simp del]

section \<open>The process\<close>

text \<open>The main thread: the console thread is started, the server object is made, its handlers run, its
  threads have returned, \<open>main\<close> has returned. \<open>Terminated\<close> is \<open>std::terminate\<close> or \<open>abort\<close>, \<open>Killed\<close> the default
  effect of a signal, \<open>Misbehaved\<close> undefined behaviour.\<close>

datatype main_state = Starting | Created | Serving | Joining | Exited int | Terminated | Killed | Misbehaved

text \<open>A connection. What was asked and written on it is a history that no code reads.\<close>

record conn =
  c_peer :: endpoint
  c_reading :: bool
  c_asked :: "http_request list"
  c_written :: "http_response list"

text \<open>A task handler that is alive, and the connection it answers. A request to the server belongs to the
  task with its number, and so does what is posted.\<close>

record process =
  p_main :: main_state
  p_console :: bool           \<comment> \<open>the console thread reads\<close>
  p_stopped :: bool           \<comment> \<open>\<open>io_context::stop\<close>\<close>
  p_signal :: bool            \<comment> \<open>\<open>signals.async_wait\<close> is under way\<close>
  p_conns :: "conn list"
  p_tasks :: "(nat \<times> task \<times> live) list"
  p_requests :: "(nat \<times> request \<times> continuation) list"
  p_pool :: "(nat \<times> posted) list"
  p_disk :: filesys

definition initial_process :: "filesys \<Rightarrow> process" where
  "initial_process fs = \<lparr>p_main = Starting, p_console = True, p_stopped = False, p_signal = False, p_conns = [],
     p_tasks = [], p_requests = [], p_pool = [], p_disk = fs\<rparr>"

definition alive :: "process \<Rightarrow> bool" where
  "alive p \<longleftrightarrow> p_main p \<in> {Starting, Created, Serving, Joining}"

text \<open>Handlers of the \<open>io_context\<close> run while its threads do.\<close>

definition io_running :: "process \<Rightarrow> bool" where
  "io_running p \<longleftrightarrow> p_main p = Serving \<and> \<not> p_stopped p"

definition ended_by :: "exc \<Rightarrow> main_state" where
  "ended_by e = (case e of Undefined note \<Rightarrow> Misbehaved | _ \<Rightarrow> Terminated)"

section \<open>What a task handler posts\<close>

fun dispatch :: "nat \<Rightarrow> posted list \<Rightarrow> process \<Rightarrow> process" where
  "dispatch j [] p = p"
| "dispatch j (SendRequest r k # xs) p = dispatch j xs (p\<lparr>p_requests := p_requests p @ [(j, r, k)]\<rparr>)"
| "dispatch j (SendJson txt # xs) p = dispatch j xs (p\<lparr>p_pool := p_pool p @ [(j, SendJson txt)]\<rparr>)"
| "dispatch j (PostExecute # xs) p = dispatch j xs (p\<lparr>p_pool := p_pool p @ [(j, PostExecute)]\<rparr>)"

text \<open>A task that runs on finds the files as they are now.\<close>

fun with_disk :: "filesys \<Rightarrow> live \<Rightarrow> live" where
  "with_disk fs (LiveGenerate h) = LiveGenerate (h\<lparr>disk := fs\<rparr>)"
| "with_disk fs (LiveNetwork h) = LiveNetwork (h\<lparr>disk := fs\<rparr>)"
| "with_disk fs (LiveTx h) = LiveTx (h\<lparr>disk := fs\<rparr>)"

text \<open>A task has run on: what it posted since then is dispatched.\<close>

definition continued :: "nat \<Rightarrow> unit res \<times> live \<Rightarrow> process \<Rightarrow> process" where
  "continued j r p =
     (case r of
        (Inl e, l') \<Rightarrow> p\<lparr>p_main := ended_by e\<rparr>
      | (Inr _, l') \<Rightarrow>
          (case p_tasks p ! j of (i, t, l) \<Rightarrow>
             dispatch j (drop (length (posted (base_of l))) (posted (base_of l')))
               (p\<lparr>p_disk := disk (base_of l'), p_tasks := (p_tasks p)[j := (i, t, l')]\<rparr>)))"

definition update_conn :: "nat \<Rightarrow> (conn \<Rightarrow> conn) \<Rightarrow> process \<Rightarrow> process" where
  "update_conn i f p = p\<lparr>p_conns := (p_conns p)[i := f (p_conns p ! i)]\<rparr>"

text \<open>\<open>send_response\<close> asks the socket for its peer and writes; both throw when the socket fails.\<close>

definition write_to :: "nat \<Rightarrow> bool \<Rightarrow> http_response list \<Rightarrow> process \<Rightarrow> process" where
  "write_to i socket_ok out p =
     (if out \<noteq> [] \<and> \<not> socket_ok then p\<lparr>p_main := Terminated\<rparr>
      else update_conn i (\<lambda>c. c\<lparr>c_written := c_written c @ out\<rparr>) p)"

section \<open>The handlers of a connection\<close>

text \<open>\<open>accept\<close>, for an error (\<open>None\<close>) or a socket: the peer's address, if it can still be asked for, and
  whether shutting the socket down would throw.\<close>

definition on_accept :: "settings \<Rightarrow> (endpoint option \<times> bool) option \<Rightarrow> process \<Rightarrow> process" where
  "on_accept s c p =
     (case c of
        None \<Rightarrow> p
      | Some (None, _) \<Rightarrow> p\<lparr>p_main := Terminated\<rparr>
      | Some (Some ep, shutdown_ok) \<Rightarrow>
          if check_access s ep
          then p\<lparr>p_conns := p_conns p @ [\<lparr>c_peer = ep, c_reading = True, c_asked = [], c_written = []\<rparr>]\<rparr>
          else if shutdown_ok then p
          else p\<lparr>p_main := Terminated\<rparr>)"

text \<open>\<open>process_request\<close> on a socket, then \<open>run\<close> again. It begins by asking the socket for its peer.\<close>

definition on_request :: "service \<Rightarrow> nat \<Rightarrow> http_request \<Rightarrow> bool \<Rightarrow> bool \<Rightarrow> process \<Rightarrow> process" where
  "on_request E i req peer_ok write_ok p =
     (let p = update_conn i (\<lambda>c. c\<lparr>c_asked := c_asked c @ [req]\<rparr>) p
      in if \<not> peer_ok then p\<lparr>p_main := Terminated\<rparr>
         else (case process_request E (p_disk p) req of
             Inl e \<Rightarrow> p\<lparr>p_main := ended_by e\<rparr>
           | Inr (out, l) \<Rightarrow>
               (case l of
                  None \<Rightarrow> write_to i write_ok out p
                | Some (t, l) \<Rightarrow>
                    write_to i write_ok out
                      (dispatch (length (p_tasks p)) (posted (base_of l))
                        (p\<lparr>p_disk := disk (base_of l), p_tasks := p_tasks p @ [(i, t, l)]\<rparr>)))))"

definition run_posted :: "service \<Rightarrow> nat \<Rightarrow> posted \<Rightarrow> bool \<Rightarrow> process \<Rightarrow> process" where
  "run_posted E j x socket_ok p =
     (case p_tasks p ! j of (i, t, l) \<Rightarrow>
        (case x of
           SendJson txt \<Rightarrow> write_to i socket_ok [send_json txt] p
         | PostExecute \<Rightarrow> continued j (execute_again E t (with_disk (p_disk p) l)) p
         | SendRequest r k \<Rightarrow> p))"

section \<open>The handlers of a request to the server\<close>

text \<open>The steps of \<open>HttpRequest\<close>, by name; \<open>None\<close> when the handler is not due.\<close>

datatype net_event =
    Resolved error_code | Connected error_code | Shaken error_code | Written error_code
  | ReadDone error_code nat bytes | RequestTimer | ConnectTimer

definition on_completion ::
    "operation \<Rightarrow> (request \<Rightarrow> request res) \<Rightarrow> request \<Rightarrow> request res option" where
  "on_completion x f r =
     (if pending_op r = Some x \<and> \<not> io_stopped r then Some (f (r\<lparr>pending_op := None\<rparr>)) else None)"

fun net_handler :: "http_lib \<Rightarrow> net_event \<Rightarrow> request \<Rightarrow> request res option" where
  "net_handler L (Resolved e) r = on_completion Resolve (on_resolve L e) r"
| "net_handler L (Connected e) r = on_completion Connect (on_connect L e) r"
| "net_handler L (Shaken e) r = on_completion Handshake (on_handshake L e) r"
| "net_handler L (Written e) r = on_completion Write (on_write L e) r"
| "net_handler L (ReadDone e status body) r = on_completion Read (on_read L e status body) r"
| "net_handler L RequestTimer r = (if t_waiting (m_timer r) then Some (fire_request_timer L r) else None)"
| "net_handler L ConnectTimer r = (if t_waiting (m_connect_timer r) then Some (Inr (fire_connect_timer r)) else None)"

lemma net_handler_step: "(\<exists>ev. net_handler L ev r = Some s) \<longleftrightarrow> step L r s"
proof
  assume "\<exists>ev. net_handler L ev r = Some s"
  then obtain ev where "net_handler L ev r = Some s" ..
  then show "step L r s"
    by (cases ev) (auto simp: on_completion_def completes_def intro: step.intros split: if_splits)
next
  assume "step L r s"
  then show "\<exists>ev. net_handler L ev r = Some s"
  proof (cases rule: step.cases)
    case (resolved r0 e)
    then show ?thesis by (intro exI [of _ "Resolved e"]) (simp add: on_completion_def completes_def)
  next
    case (connected r0 e)
    then show ?thesis by (intro exI [of _ "Connected e"]) (simp add: on_completion_def completes_def)
  next
    case (shaken r0 e)
    then show ?thesis by (intro exI [of _ "Shaken e"]) (simp add: on_completion_def completes_def)
  next
    case (written r0 e)
    then show ?thesis by (intro exI [of _ "Written e"]) (simp add: on_completion_def completes_def)
  next
    case (read r0 e status body)
    then show ?thesis by (intro exI [of _ "ReadDone e status body"]) (simp add: on_completion_def completes_def)
  next
    case request_timer
    then show ?thesis by (intro exI [of _ RequestTimer]) simp
  next
    case connect_timer
    then show ?thesis by (intro exI [of _ ConnectTimer]) simp
  qed
qed

text \<open>A handler of request \<open>n\<close> has run. When it called the callback, the task goes on with the text.\<close>

definition on_net :: "service \<Rightarrow> nat \<Rightarrow> request res \<Rightarrow> process \<Rightarrow> process" where
  "on_net E n s p =
     (case s of
        Inl e \<Rightarrow> p\<lparr>p_main := ended_by e\<rparr>
      | Inr r' \<Rightarrow>
          (case p_requests p ! n of (j, r, k) \<Rightarrow>
             let p = p\<lparr>p_requests := (p_requests p)[n := (j, r', k)]\<rparr>
             in (case drop (length (calls r)) (calls r') of
                   [] \<Rightarrow> p
                 | txt # _ \<Rightarrow> (case p_tasks p ! j of (i, t, l) \<Rightarrow> continued j (resume E k txt (with_disk (p_disk p) l)) p))))"

section \<open>Actions\<close>

datatype action =
    Construct                       \<comment> \<open>\<open>std::make_unique<http_server>\<close>\<close>
  | Listen bool                     \<comment> \<open>the acceptor can be opened or not\<close>
  | ThreadsJoined
  | ConsoleJoined
  | ConsoleWord bytes
  | Signal                        \<comment> \<open>\<open>SIGINT\<close>, \<open>SIGTERM\<close> or \<open>SIGABRT\<close> while the \<open>signal_set\<close> of \<open>run\<close> has them\<close>
  | UncaughtSignal                \<comment> \<open>the same before and after\<close>
  | Accept "(endpoint option \<times> bool) option"
  | Request nat http_request bool bool
  | ReadEnd nat
  | Net nat net_event
  | RunPosted nat bool              \<comment> \<open>an element of the pool; whether its socket works\<close>

text \<open>\<open>input_handler\<close>: the word \<open>stop\<close> stops the server, which is a null pointer until it is made.\<close>

definition on_word :: "bytes \<Rightarrow> process \<Rightarrow> process" where
  "on_word w p =
     (if w = bs ''stop''
      then (if p_main p = Starting then p\<lparr>p_main := Misbehaved\<rparr> else p\<lparr>p_stopped := True, p_console := False\<rparr>)
      else p)"

text \<open>The \<open>signal_set\<close> is a local variable of \<open>run\<close>: it takes the signals from there until its threads have
  returned. The handler is registered once and logs the first of them; the others stay in the queue.\<close>

definition on_signal :: "process \<Rightarrow> process" where
  "on_signal p = (if io_running p \<and> p_signal p then p\<lparr>p_signal := False\<rparr> else p)"

text \<open>\<open>run\<close> of the server: with a positive number of threads they run the handlers until the context is
  stopped, otherwise it returns at once. When the acceptor cannot be opened, the exception leaves the
  \<open>try\<close> block of \<open>main\<close>, which destroys the console thread before it is joined.\<close>

definition on_listen :: "settings \<Rightarrow> bool \<Rightarrow> process \<Rightarrow> process" where
  "on_listen s opened p =
     (if \<not> opened then p\<lparr>p_main := Terminated\<rparr>
      else p\<lparr>p_signal := True, p_main := (if 0 < threads s then Serving else Joining)\<rparr>)"

fun act :: "service \<Rightarrow> action \<Rightarrow> process \<Rightarrow> process option" where
  "act E Construct p = (if p_main p = Starting then Some (p\<lparr>p_main := Created\<rparr>) else None)"
| "act E (Listen opened) p = (if p_main p = Created then Some (on_listen (s_settings E) opened p) else None)"
| "act E ThreadsJoined p = (if p_main p = Serving \<and> p_stopped p then Some (p\<lparr>p_main := Joining\<rparr>) else None)"
| "act E ConsoleJoined p = (if p_main p = Joining \<and> \<not> p_console p then Some (p\<lparr>p_main := Exited 0\<rparr>) else None)"
| "act E (ConsoleWord w) p = (if alive p \<and> p_console p then Some (on_word w p) else None)"
| "act E Signal p = (if p_main p = Serving then Some (on_signal p) else None)"
| "act E UncaughtSignal p =
     (if p_main p \<in> {Starting, Created, Joining} then Some (p\<lparr>p_main := Killed\<rparr>) else None)"
| "act E (Accept c) p = (if io_running p then Some (on_accept (s_settings E) c p) else None)"
| "act E (Request i req peer_ok write_ok) p =
     (if io_running p \<and> i < length (p_conns p) \<and> c_reading (p_conns p ! i)
      then Some (on_request E i req peer_ok write_ok p) else None)"
| "act E (ReadEnd i) p =
     (if io_running p \<and> i < length (p_conns p) \<and> c_reading (p_conns p ! i)
      then Some (update_conn i (\<lambda>c. c\<lparr>c_reading := False\<rparr>) p) else None)"
| "act E (Net n ev) p =
     (if (io_running p \<or> alive p \<and> ev \<in> {RequestTimer, ConnectTimer}) \<and> n < length (p_requests p)
      then (case p_requests p ! n of (j, r, k) \<Rightarrow>
              map_option (\<lambda>s. on_net E n s p) (net_handler (s_http E) ev r))
      else None)"
| "act E (RunPosted m socket_ok) p =
     (if alive p \<and> m < length (p_pool p)
      then (case p_pool p ! m of (j, x) \<Rightarrow>
              Some (run_posted E j x socket_ok (p\<lparr>p_pool := take m (p_pool p) @ drop (Suc m) (p_pool p)\<rparr>)))
      else None)"

inductive reaches :: "service \<Rightarrow> process \<Rightarrow> action list \<Rightarrow> process \<Rightarrow> bool" for E p where
  start: "reaches E p [] p"
| further: "reaches E p as q \<Longrightarrow> act E a q = Some r \<Longrightarrow> reaches E p (as @ [a]) r"

inductive_cases reaches_snoc: "reaches E p (as @ [a]) r"

end
