(* ===== verification/BadId.thy ===== *)
theory BadId
  imports ServiceSpec
begin

text \<open>
  What becomes of a request whose id is a text without a number in front, from \<open>http_session::process_request\<close>
  down to the writer of a handler.
\<close>

section \<open>An id that cannot be read\<close>

lemma get_id_text:
  assumes "map_of ms (bs ''id'') = Some (JString s)" and "strto_decimal s = None"
  shows "get_id (JObject ms) = Inl (StdException InvalidArgument)"
proof -
  have "strto_decimal (c_str s) = strto_decimal s"
    using c_str_id [of "c_str s"] by (simp add: strto_decimal_def)
  then show ?thesis using assms by (simp add: get_id_def get_def stoi_def sto_range_def)
qed

definition null_id_error :: "service \<Rightarrow> json" where
  "null_id_error E = JObject [(bs ''jsonrpc'', JString json_rpc_ver), (bs ''id'', JNull),
     (bs ''error'', JObject [(bs ''code'', JInt (- 32667)), (bs ''message'', JString (s_what E InvalidArgument))])]"

lemma perform_bad_id:
  assumes "reader_parse (lib E) params = Some doc" and "get_id doc = Inl (StdException InvalidArgument)"
    and "m_writer h = new_writer" and "\<not> m_pending h"
  shows "\<exists>h'. perform E pp ex h params = (Inr (stringify (lib E) (null_id_error E), False), h')"
proof -
  have "prepare E pp params h = (Inr False, h\<lparr>m_reader := doc, m_writer := null_id_error E\<rparr>)"
    unfolding prepare_def END_TRY_def
    by (simp add: act_simps assms error_of_def write_doc_def new_writer_def writer_reset_def set_error_def set_value_def
        null_id_error_def byte_simps)
  then show ?thesis using assms(4) by (simp add: perform_def act_simps handler_result_def)
qed

lemma new_handlers_fresh:
  "m_writer (new_generate_handler E fs) = new_writer" "m_writer (new_network_handler E fs) = new_writer"
  "m_writer (new_tx_handler E fs) = new_writer"
  "\<not> m_pending (new_generate_handler E fs)" "\<not> m_pending (new_network_handler E fs)" "\<not> m_pending (new_tx_handler E fs)"
  by (simp_all add: new_generate_handler_def new_network_handler_def new_tx_handler_def new_handler_def
      handler.defs network_handler.defs generate_handler.defs create_tx_handler.defs)

lemma run_task_bad_id:
  assumes "reader_parse (lib E) params = Some doc" and "get_id doc = Inl (StdException InvalidArgument)"
  shows "\<exists>l. run_task E fs t params = (Inr (stringify (lib E) (null_id_error E), False), l)"
proof -
  note p = perform_bad_id [OF assms]
  have "\<exists>l. apsnd f (perform E pp ex h params) = (Inr (stringify (lib E) (null_id_error E), False), l)"
    if "m_writer h = new_writer" "\<not> m_pending h" for f pp ex and h :: "'x handler_scheme"
    using p [OF that, of pp ex] by auto
  note rule = this
  show ?thesis
    unfolding run_task_def by (cases t) (auto intro!: rule simp: new_handlers_fresh)
qed

text \<open>C36: A request whose id is a text that does not begin with a number is answered with an error (and a
  null id) when its method is known. When the method is unknown the exception of \<open>std::stoi\<close> leaves
  \<open>process_request\<close>: nobody catches it, and the service ends.\<close>

theorem unreadable_id:
  assumes "req_target req = bs ''/''" and "req_is_post req" and "reader_parse (lib E) (req_text req) = Some (JObject ms)"
    and "map_of ms (bs ''id'') = Some (JString s)" and "strto_decimal s = None"
  shows "case map_of map_handlers (get_method (JObject ms)) of
      None \<Rightarrow> process_request E fs req = Inl (StdException InvalidArgument)
    | Some t \<Rightarrow> \<exists>l. process_request E fs req = Inr ([send_json (stringify (lib E) (null_id_error E))], Some (t, l))"
proof (cases "map_of map_handlers (get_method (JObject ms))")
  case None
  then show ?thesis
    unfolding process_request_doc [OF assms(1-3)] None get_id_text [OF assms(4,5)] by simp
next
  case (Some t)
  from run_task_bad_id [OF assms(3) get_id_text [OF assms(4,5)], of fs t] obtain l where
    l: "run_task E fs t (req_text req) = (Inr (stringify (lib E) (null_id_error E), False), l)" by blast
  show ?thesis
    unfolding process_request_doc [OF assms(1-3)] Some option.case l by simp
qed

definition example_bad_service :: service where
  "example_bad_service = example_service\<lparr>s_http := example_http\<lparr>parse_json := (\<lambda>t.
     Some (JObject [(bs ''id'', JString (bs ''x''))]))\<rparr>\<rparr>"

theorem unreadable_id_witness:
  "process_request example_bad_service no_files (example_post (bs ''c'')) = Inl (StdException InvalidArgument)"
proof -
  let ?ms = "[(bs ''id'', JString (bs ''x''))]"
  have parse: "reader_parse (lib example_bad_service) (req_text (example_post (bs ''c''))) = Some (JObject ?ms)"
    by (simp add: reader_parse_def lib_def example_bad_service_def example_service_def example_http_def
        json_lib.truncate_def)
  have m: "map_of map_handlers (get_method (JObject ?ms)) = None"
    by (simp add: map_handlers_def get_method_def get_string_def byte_simps)
  have s: "strto_decimal (bs ''x'') = None"
    by (simp add: strto_decimal_def c_str_def isspace_def is_digit_def byte_simps)
  have "case map_of map_handlers (get_method (JObject ?ms)) of
      None \<Rightarrow> process_request example_bad_service no_files (example_post (bs ''c'')) = Inl (StdException InvalidArgument)
    | Some t \<Rightarrow> \<exists>l. process_request example_bad_service no_files (example_post (bs ''c''))
        = Inr ([send_json (stringify (lib example_bad_service) (null_id_error example_bad_service))], Some (t, l))"
    by (rule unreadable_id [OF _ _ parse _ s]) (simp_all add: example_post_def)
  then show ?thesis unfolding m by simp
qed

end
