(* ===== verification/ServerSpec.thy ===== *)
theory ServerSpec
  imports Server BadId
begin

text \<open>
  What holds of every run of the process, whatever the clients, the console and the operating system do:
  who is served, what ends it, and what a single client can do to it; and what a session reads from its
  socket.
\<close>

section \<open>Runs\<close>

lemma dispatch_fields [simp]:
  "p_main (dispatch j xs p) = p_main p" "p_console (dispatch j xs p) = p_console p"
  "p_stopped (dispatch j xs p) = p_stopped p" "p_signal (dispatch j xs p) = p_signal p"
  "p_conns (dispatch j xs p) = p_conns p" "p_tasks (dispatch j xs p) = p_tasks p" "p_disk (dispatch j xs p) = p_disk p"
  by (induction j xs p rule: dispatch.induct) simp_all

lemma continued_fields [simp]:
  "p_console (continued j r p) = p_console p" "p_stopped (continued j r p) = p_stopped p"
  "p_signal (continued j r p) = p_signal p" "p_conns (continued j r p) = p_conns p"
  by (simp_all add: continued_def split: prod.split sum.split)

lemma update_conn_fields [simp]:
  "p_main (update_conn i f p) = p_main p" "p_console (update_conn i f p) = p_console p"
  "p_stopped (update_conn i f p) = p_stopped p" "p_signal (update_conn i f p) = p_signal p"
  "p_tasks (update_conn i f p) = p_tasks p" "p_requests (update_conn i f p) = p_requests p"
  "p_pool (update_conn i f p) = p_pool p" "p_disk (update_conn i f p) = p_disk p"
  "length (p_conns (update_conn i f p)) = length (p_conns p)"
  by (simp_all add: update_conn_def)

lemma on_net_fields [simp]:
  "p_console (on_net E n s p) = p_console p" "p_stopped (on_net E n s p) = p_stopped p"
  "p_signal (on_net E n s p) = p_signal p" "p_conns (on_net E n s p) = p_conns p"
  by (simp_all add: on_net_def Let_def split: prod.split sum.split list.split)

lemma write_to_fields [simp]:
  "p_console (write_to i b out p) = p_console p" "p_stopped (write_to i b out p) = p_stopped p"
  "p_signal (write_to i b out p) = p_signal p"
  by (simp_all add: write_to_def)

lemma run_posted_fields [simp]:
  "p_console (run_posted E j x b p) = p_console p" "p_stopped (run_posted E j x b p) = p_stopped p"
  "p_signal (run_posted E j x b p) = p_signal p"
  by (simp_all add: run_posted_def split: prod.split posted.split)

lemma on_request_fields [simp]:
  "p_console (on_request E i req b c p) = p_console p" "p_stopped (on_request E i req b c p) = p_stopped p"
  "p_signal (on_request E i req b c p) = p_signal p"
  by (simp_all add: on_request_def Let_def split: prod.split sum.split option.split)

lemma on_signal_fields [simp]:
  "p_main (on_signal p) = p_main p" "p_console (on_signal p) = p_console p" "p_stopped (on_signal p) = p_stopped p"
  "p_conns (on_signal p) = p_conns p" "p_tasks (on_signal p) = p_tasks p" "p_requests (on_signal p) = p_requests p"
  "p_pool (on_signal p) = p_pool p" "p_disk (on_signal p) = p_disk p"
  by (simp_all add: on_signal_def)

lemma reaches_one: "act E a p = Some q \<Longrightarrow> reaches E p [a] q"
  using reaches.further [OF reaches.start] by fastforce

lemma reaches_append: "reaches E q cs r \<Longrightarrow> reaches E p as q \<Longrightarrow> reaches E p (as @ cs) r"
proof (induction rule: reaches.induct)
  case (further cs q' a r)
  then show ?case using reaches.further [of E p "as @ cs" q' a r] by simp
qed simp

lemma reaches_Cons: "reaches E p (a # as) q \<Longrightarrow> \<exists>r. act E a p = Some r \<and> reaches E r as q"
proof (induction as arbitrary: q rule: rev_induct)
  case Nil
  then have "reaches E p ([] @ [a]) q" by simp
  then show ?case by (rule reaches_snoc) (auto elim: reaches.cases intro: reaches.start)
next
  case (snoc b as)
  from snoc.prems have "reaches E p ((a # as) @ [b]) q" by simp
  then show ?case by (rule reaches_snoc) (use snoc.IH reaches.further in blast)
qed

text \<open>What every action of a kind keeps, every run of such actions keeps.\<close>

locale run_invariant =
  fixes E :: service and allowed :: "action \<Rightarrow> bool" and inv :: "process \<Rightarrow> bool"
  assumes kept: "act E a p = Some q \<Longrightarrow> allowed a \<Longrightarrow> inv p \<Longrightarrow> inv q"
begin

lemma run: "reaches E p as q \<Longrightarrow> list_all allowed as \<Longrightarrow> inv p \<Longrightarrow> inv q"
  by (induction rule: reaches.induct) (auto intro: kept)

end

section \<open>Who is served\<close>

text \<open>An action changes the peer of no connection, and adds a connection only if it has access.\<close>

definition peers :: "process \<Rightarrow> endpoint list" where "peers p = map c_peer (p_conns p)"

lemma peers_fields [simp]:
  "peers (dispatch j xs p) = peers p" "peers (continued j r p) = peers p" "peers (on_net E n s p) = peers p"
  "peers (p\<lparr>p_main := m\<rparr>) = peers p" "peers (p\<lparr>p_signal := b\<rparr>) = peers p" "peers (p\<lparr>p_stopped := b\<rparr>) = peers p"
  "peers (p\<lparr>p_console := b\<rparr>) = peers p" "peers (p\<lparr>p_tasks := ts\<rparr>) = peers p" "peers (p\<lparr>p_disk := fs\<rparr>) = peers p"
  "peers (p\<lparr>p_pool := pool\<rparr>) = peers p" "peers (on_signal p) = peers p"
  by (simp_all add: peers_def)

lemma peers_update_conn: "(\<And>c. c_peer (f c) = c_peer c) \<Longrightarrow> peers (update_conn i f p) = peers p"
  unfolding peers_def by (cases "i < length (p_conns p)")
    (simp_all add: update_conn_def map_update list_update_same_conv list_update_beyond)

lemma peers_handlers [simp]:
  "peers (write_to i b out p) = peers p" "peers (run_posted E j x b p) = peers p" "peers (on_request E i req b c p) = peers p"
proof -
  show wr: "peers (write_to i b out p) = peers p" for i b out p
    by (simp add: write_to_def peers_update_conn)
  show "peers (run_posted E j x b p) = peers p"
    by (simp add: run_posted_def wr split: prod.split posted.split)
  show "peers (on_request E i req b c p) = peers p"
    by (simp add: on_request_def Let_def wr peers_update_conn split: prod.split sum.split option.split)
qed

lemma peers_accept:
  "peers (on_accept s c p) = peers p
    \<or> (\<exists>ep shutdown_ok. c = Some (Some ep, shutdown_ok) \<and> check_access s ep \<and> peers (on_accept s c p) = peers p @ [ep])"
  by (auto simp: on_accept_def peers_def split: option.split prod.split)

lemma act_peers:
  assumes "act E a p = Some q"
  shows "peers q = peers p \<or> (\<exists>ep. check_access (s_settings E) ep \<and> peers q = peers p @ [ep])"
  using assms peers_accept [of "s_settings E" _ p]
  by (cases a) (auto simp: on_listen_def on_word_def peers_update_conn split: if_splits option.splits prod.splits)

interpretation admission: run_invariant E "\<lambda>a. True" "\<lambda>p. list_all (check_access (s_settings E)) (peers p)" for E
  by unfold_locales (auto dest: act_peers)

text \<open>The settings that decide.\<close>

definition same_access :: "settings option \<Rightarrow> settings \<Rightarrow> bool" where
  "same_access m s \<longleftrightarrow> (\<forall>s'. m = Some s' \<longrightarrow> access s' = access s \<and> any_conns s' = any_conns s)"

lemma same_access_option:
  assumes "\<And>x s. access (store x s) = access s" and "\<And>x s. any_conns (store x s) = any_conns s"
  shows "same_access (option_as as_type vm name store s) s"
  using assms by (auto simp: same_access_def option_as_def split: option.splits)

lemma same_access_bind:
  assumes "same_access m s" and "\<And>s1. same_access (f s1) s1"
  shows "same_access (Option.bind m f) s"
  using assms by (cases m) (auto simp: same_access_def)

lemma read_vm_keeps:
  assumes "read_vm vm s = Some s'"
  shows "access s' = access s" and "any_conns s' = (vm (bs ''any'') \<noteq> None \<or> any_conns s)"
proof -
  have "same_access (read_vm vm s) (if vm (bs ''any'') \<noteq> None then s\<lparr>any_conns := True\<rparr> else s)"
    unfolding read_vm_def Let_def by (intro same_access_bind same_access_option) simp_all
  with assms show "access s' = access s" and "any_conns s' = (vm (bs ''any'') \<noteq> None \<or> any_conns s)"
    by (auto simp: same_access_def)
qed

lemma set_resolve_access: "a \<in> set (resolve_access resolve vs) \<longleftrightarrow> (\<exists>v eps. v \<in> set vs \<and> resolve v = Some eps \<and> a \<in> set eps)"
  by (induction vs) (auto split: option.splits)

lemma access_read_file:
  "access (read_file dir resolve tree (initial_settings dir)) = (case tree of None \<Rightarrow> []
     | Some t \<Rightarrow> resolve_access resolve (children t (bs ''service.access'')))"
  by (simp add: read_file_def initial_settings_def Let_def split: option.split)

text \<open>Who may connect, in terms of the command line and the configuration file.\<close>

definition may_connect :: "variables_map \<Rightarrow> ptree option \<Rightarrow> (bytes \<Rightarrow> bytes list option) \<Rightarrow> endpoint \<Rightarrow> bool" where
  "may_connect vm tree resolve ep \<longleftrightarrow> vm (bs ''any'') \<noteq> None \<or> ep_loopback ep
     \<or> (\<exists>t name eps. tree = Some t \<and> name \<in> set (children t (bs ''service.access''))
          \<and> resolve name = Some eps \<and> ep_address ep \<in> set eps)"

lemma check_access_main:
  assumes "main dir resolve tree (Some vm) = Serve s"
  shows "check_access s ep = may_connect vm tree resolve ep"
proof -
  let ?f = "read_file dir resolve tree (initial_settings dir)"
  from assms have "read_vm vm ?f = Some s" by (auto simp: main_def Let_def split: if_splits option.splits)
  from read_vm_keeps [OF this] have s: "access s = access ?f" "any_conns s = (vm (bs ''any'') \<noteq> None)"
    by (simp_all add: server_address_read_file(2))
  show ?thesis by (cases tree) (auto simp: check_access_def s access_read_file set_resolve_access may_connect_def)
qed

section \<open>What stops the service\<close>

lemma act_alive: "act E a p = Some q \<Longrightarrow> alive p"
  by (cases a) (auto simp: alive_def io_running_def split: if_splits)

definition ended :: "process \<Rightarrow> bool" where
  "ended p \<longleftrightarrow> (\<exists>c. p_main p = Exited c)"

lemma ended_by_exc: "ended_by e \<noteq> Exited c"
  by (cases e) (simp_all add: ended_by_def)

lemma handlers_not_ended:
  "\<not> ended p \<Longrightarrow> \<not> ended (write_to i b out p)" "\<not> ended p \<Longrightarrow> \<not> ended (continued j r p)"
  by (auto simp: ended_def write_to_def continued_def ended_by_exc split: prod.splits sum.splits)

lemma act_ends:
  assumes "act E a p = Some q" and "ended q"
  shows "p_main q = Exited 0 \<and> \<not> p_console p"
proof -
  have p: "\<not> ended p" using act_alive [OF assms(1)] by (auto simp: ended_def alive_def)
  have "\<not> ended (on_request E i req b c p)" for i req b c
    using p by (auto simp: on_request_def Let_def ended_def ended_by_exc write_to_def split: sum.split option.split prod.split)
  moreover have "\<not> ended (on_net E n s p)" for n s
    using p handlers_not_ended(2)
    by (auto simp: on_net_def Let_def ended_def ended_by_exc continued_def split: sum.split list.split prod.split)
  moreover have "\<not> ended (run_posted E j x b (p\<lparr>p_pool := pool\<rparr>))" for j x b pool
    using p by (auto simp: run_posted_def ended_def ended_by_exc write_to_def continued_def split: sum.split posted.split prod.split)
  moreover have "\<not> ended (on_accept s c p)" for s c
    using p by (auto simp: on_accept_def ended_def split: option.split prod.split)
  ultimately show ?thesis
    using assms p
    by (cases a) (auto simp: on_listen_def on_word_def ended_def split: if_splits option.splits prod.splits)
qed

lemma act_console: "act E a p = Some q \<Longrightarrow> p_console q \<or> (\<not> p_console p \<or> a = ConsoleWord (bs ''stop''))"
  by (cases a) (auto simp: on_listen_def on_word_def on_accept_def update_conn_def
      split: if_splits option.splits prod.splits)

lemma act_stopped: "act E a p = Some q \<Longrightarrow> p_console p = (\<not> p_stopped p) \<Longrightarrow> p_console q = (\<not> p_stopped q)"
  by (cases a) (auto simp: on_listen_def on_word_def on_accept_def split: if_splits option.splits prod.splits)

interpretation exits: run_invariant E "\<lambda>a. True" "\<lambda>p. ended p \<longrightarrow> p_main p = Exited 0" for E
  by unfold_locales (use act_ends in blast)

text \<open>The thread of the console ends with the word that stops the server.\<close>

interpretation console: run_invariant E "\<lambda>a. True" "\<lambda>p. p_console p = (\<not> p_stopped p)" for E
  by unfold_locales (use act_stopped in blast)

lemma stop_run:
  assumes "io_running p" and "p_console p = (\<not> p_stopped p)"
  shows "\<exists>q. reaches E p [ConsoleWord (bs ''stop''), ThreadsJoined, ConsoleJoined] q \<and> p_main q = Exited 0"
proof -
  let ?p1 = "p\<lparr>p_stopped := True, p_console := False\<rparr>"
  have "act E (ConsoleWord (bs ''stop'')) p = Some ?p1" "act E ThreadsJoined ?p1 = Some (?p1\<lparr>p_main := Joining\<rparr>)"
    "act E ConsoleJoined (?p1\<lparr>p_main := Joining\<rparr>) = Some (?p1\<lparr>p_main := Exited 0\<rparr>)"
    using assms by (simp_all add: io_running_def alive_def on_word_def)
  from reaches.further [OF reaches.further [OF reaches_one [OF this(1)] this(2)] this(3)] show ?thesis
    by (intro exI conjI) (simp, simp)
qed

text \<open>As long as the console does not read the word, its thread reads on, and \<open>main\<close> waits for it.\<close>

interpretation unstopped: run_invariant E "\<lambda>a. a \<noteq> ConsoleWord (bs ''stop'')" "\<lambda>p. p_console p \<and> \<not> ended p" for E
  by unfold_locales (use act_console act_ends in blast)

text \<open>A signal is noted once by a handler that only logs it: without the signals the run is the same.\<close>

lemma signal_dispatch: "dispatch j xs (p\<lparr>p_signal := b\<rparr>) = (dispatch j xs p)\<lparr>p_signal := b\<rparr>"
proof (induction xs arbitrary: p)
  case (Cons x xs)
  have commute: "p\<lparr>p_signal := b, p_requests := rs\<rparr> = p\<lparr>p_requests := rs, p_signal := b\<rparr>"
    "p\<lparr>p_signal := b, p_pool := pool\<rparr> = p\<lparr>p_pool := pool, p_signal := b\<rparr>" for rs pool
    by (cases p; simp)+
  show ?case by (cases x) (simp_all add: commute Cons.IH)
qed simp

lemma signal_conn: "update_conn i f (p\<lparr>p_signal := b\<rparr>) = (update_conn i f p)\<lparr>p_signal := b\<rparr>"
  by (cases p) (simp add: update_conn_def)

lemma signal_commutes:
  "p\<lparr>p_signal := b, p_main := m\<rparr> = p\<lparr>p_main := m, p_signal := b\<rparr>"
  "p\<lparr>p_signal := b, p_tasks := ts\<rparr> = p\<lparr>p_tasks := ts, p_signal := b\<rparr>"
  "p\<lparr>p_signal := b, p_requests := rs\<rparr> = p\<lparr>p_requests := rs, p_signal := b\<rparr>"
  "p\<lparr>p_signal := b, p_conns := cs\<rparr> = p\<lparr>p_conns := cs, p_signal := b\<rparr>"
  "p\<lparr>p_signal := b, p_pool := pool\<rparr> = p\<lparr>p_pool := pool, p_signal := b\<rparr>"
  "p\<lparr>p_signal := b, p_disk := fs, p_tasks := ts\<rparr> = p\<lparr>p_disk := fs, p_tasks := ts, p_signal := b\<rparr>"
  "p\<lparr>p_signal := b, p_stopped := x, p_console := y\<rparr> = p\<lparr>p_stopped := x, p_console := y, p_signal := b\<rparr>"
  by (cases p; simp)+

lemma signal_task:
  "continued j r (p\<lparr>p_signal := b\<rparr>) = (continued j r p)\<lparr>p_signal := b\<rparr>"
  "write_to i ok out (p\<lparr>p_signal := b\<rparr>) = (write_to i ok out p)\<lparr>p_signal := b\<rparr>"
  by (simp_all add: continued_def write_to_def signal_dispatch signal_conn signal_commutes split: prod.split sum.split)

lemma signal_handlers:
  "on_accept s c (p\<lparr>p_signal := b\<rparr>) = (on_accept s c p)\<lparr>p_signal := b\<rparr>"
  "on_word w (p\<lparr>p_signal := b\<rparr>) = (on_word w p)\<lparr>p_signal := b\<rparr>"
  "on_net E n r (p\<lparr>p_signal := b\<rparr>) = (on_net E n r p)\<lparr>p_signal := b\<rparr>"
  "run_posted E j x ok (p\<lparr>p_signal := b\<rparr>) = (run_posted E j x ok p)\<lparr>p_signal := b\<rparr>"
  by (simp_all add: on_accept_def on_word_def on_net_def run_posted_def signal_task signal_commutes Let_def
      split: prod.split sum.split option.split posted.split list.split)

lemma signal_request:
  "on_request E i req b1 b2 (p\<lparr>p_signal := b\<rparr>) = (on_request E i req b1 b2 p)\<lparr>p_signal := b\<rparr>"
  by (simp add: on_request_def Let_def signal_conn signal_task signal_commutes signal_dispatch
      split: prod.split sum.split option.split)

lemma act_unsignalled:
  assumes "act E a p = Some q" and "a \<noteq> Signal"
  shows "\<exists>c. act E a (p\<lparr>p_signal := b\<rparr>) = Some (q\<lparr>p_signal := c\<rparr>)"
proof -
  have same: "io_running (p\<lparr>p_signal := b\<rparr>) = io_running p" "alive (p\<lparr>p_signal := b\<rparr>) = alive p"
    by (simp_all add: io_running_def alive_def)
  have listen: "on_listen s True (p\<lparr>p_signal := b\<rparr>) = on_listen s True p" "(on_listen s True p)\<lparr>p_signal := True\<rparr> = on_listen s True p"
    "on_listen s False (p\<lparr>p_signal := b\<rparr>) = (on_listen s False p)\<lparr>p_signal := b\<rparr>" for s
    by (cases p; simp add: on_listen_def)+
  note simps = same signal_handlers signal_request signal_commutes signal_conn
  from assms have "act E a (p\<lparr>p_signal := b\<rparr>) = Some (q\<lparr>p_signal := if a = Listen True then True else b\<rparr>)"
  proof (cases a)
    case (Listen opened)
    then show ?thesis using assms(1) listen by (cases opened) (auto split: if_splits)
  next
    case (Net n ev)
    then show ?thesis using assms(1) by (auto simp: simps split: if_splits prod.splits)
  next
    case (RunPosted m ok)
    then show ?thesis using assms(1) by (auto simp: simps split: if_splits prod.splits)
  qed (auto simp: simps split: if_splits)
  then show ?thesis by blast
qed

lemma reaches_unsignalled:
  "reaches E p as q \<Longrightarrow> \<exists>b. reaches E p (filter (\<lambda>a. a \<noteq> Signal) as) (q\<lparr>p_signal := b\<rparr>)"
proof (induction rule: reaches.induct)
  case start
  show ?case by (intro exI [of _ "p_signal p"]) (simp add: reaches.start)
next
  case (further as q a r)
  then obtain b where b: "reaches E p (filter (\<lambda>a. a \<noteq> Signal) as) (q\<lparr>p_signal := b\<rparr>)" by blast
  show ?case
  proof (cases "a = Signal")
    case True
    then have "\<exists>c. r = q\<lparr>p_signal := c\<rparr>" using further(2)
      by (cases q) (auto simp: on_signal_def split: if_splits)
    then obtain c where "r = q\<lparr>p_signal := c\<rparr>" ..
    then show ?thesis using b True by auto
  next
    case False
    from act_unsignalled [OF further(2) this, of b] obtain c where "act E a (q\<lparr>p_signal := b\<rparr>) = Some (r\<lparr>p_signal := c\<rparr>)" ..
    from reaches.further [OF b this] False show ?thesis by auto
  qed
qed

section \<open>What a session reads\<close>

text \<open>The segments up to the one that completes a message.\<close>

definition arrives :: "http_parser \<Rightarrow> bytes list \<Rightarrow> http_request \<Rightarrow> bool" where
  "arrives P segs req \<longleftrightarrow> segs \<noteq> [] \<and> (\<forall>k < length segs. P (concat (take k segs)) = NeedMore)
     \<and> (\<exists>n > 0. P (concat segs) = Message req n)"

lemma read_message_arrives:
  assumes "\<And>k. k < length segs \<Longrightarrow> P (buf @ concat (take k segs)) = NeedMore"
    and "P (buf @ concat segs) = Message req n"
  shows "\<exists>b. read_message P buf (segs @ rest) = Some (req, min n (length (buf @ concat segs)), b, rest)"
  using assms
proof (induction segs arbitrary: buf)
  case Nil
  then show ?case by (cases rest) simp_all
next
  case (Cons s segs)
  have "P buf = NeedMore" using Cons.prems(1) [of 0] by simp
  moreover have "P ((buf @ s) @ concat (take k segs)) = NeedMore" if "k < length segs" for k
    using Cons.prems(1) [of "Suc k"] that by simp
  ultimately show ?case using Cons.IH [of "buf @ s"] Cons.prems(2) by simp
qed

lemma session_requests_arrives:
  "list_all2 (arrives P) gs reqs \<Longrightarrow> P [] = NeedMore \<Longrightarrow> session_requests P (concat gs) = reqs"
proof (induction rule: list_all2_induct)
  case Nil
  then show ?case by (simp add: session_requests.simps)
next
  case (Cons g gs req reqs)
  from Cons.hyps(1) obtain n where n: "n > 0" "P (concat g) = Message req n"
    and more: "k < length g \<Longrightarrow> P (concat (take k g)) = NeedMore" for k by (auto simp: arrives_def)
  with Cons.prems have "concat g \<noteq> []" by (metis http_parse.distinct(3))
  moreover obtain b where "read_message P [] (g @ concat gs) = Some (req, min n (length (concat g)), b, concat gs)"
    using read_message_arrives [of g P "[]" req n "concat gs"] n(2) more by auto
  ultimately show ?case using n(1) Cons.IH Cons.prems by (subst session_requests.simps) auto
qed

section \<open>Properties\<close>

text \<open>C14: In every run of a started service, whatever else happens, a connection is served only if the
  command line has \<open>--any\<close>, or the client is on the same machine, or its address is one that a name below
  \<open>service.access\<close> of the configuration file resolves to. And as long as the service runs, whoever may
  connect gets a session; everybody else is dropped and changes nothing, provided the shutdown of the socket does not
  fail (as it does when the client has reset the connection): its exception ends the process.\<close>

theorem access_control:
  assumes "main dir resolve tree (Some vm) = Serve (s_settings E)" and "reaches E (initial_process fs) as p"
  shows "list_all (\<lambda>c. may_connect vm tree resolve (c_peer c)) (p_conns p)
    \<and> (io_running p \<longrightarrow> act E (Accept (Some (Some ep, shutdown_ok))) p = Some
        (if may_connect vm tree resolve ep
         then p\<lparr>p_conns := p_conns p @ [\<lparr>c_peer = ep, c_reading = True, c_asked = [], c_written = []\<rparr>]\<rparr>
         else if shutdown_ok then p else p\<lparr>p_main := Terminated\<rparr>))"
proof -
  have "list_all (check_access (s_settings E)) (peers p)"
    by (rule admission.run [OF assms(2)]) (simp_all add: peers_def initial_process_def list_all_iff)
  then show ?thesis
    by (simp add: peers_def list_all_iff on_accept_def check_access_main [OF assms(1)])
qed

definition example_tree :: ptree where
  "example_tree = \<lparr>get_ushort = (\<lambda>_. None), get_int = (\<lambda>_. None), get_str = (\<lambda>_. None),
     children = (\<lambda>p. if p = bs ''service.access'' then [bs ''friend'', bs ''unknown''] else [])\<rparr>"

definition example_resolve :: "bytes \<Rightarrow> bytes list option" where
  "example_resolve name = (if name = bs ''friend'' then Some [bs ''10.0.0.7''] else None)"

definition friend :: endpoint where "friend = \<lparr>ep_address = bs ''10.0.0.7'', ep_loopback = False\<rparr>"

definition stranger :: endpoint where "stranger = \<lparr>ep_address = bs ''10.0.0.8'', ep_loopback = False\<rparr>"

text \<open>A service that is up.\<close>

definition up :: "filesys \<Rightarrow> process" where
  "up fs = (initial_process fs)\<lparr>p_signal := True, p_main := Serving\<rparr>"

lemma reaches_up: "0 < threads (s_settings E) \<Longrightarrow> reaches E (initial_process fs) [Construct, Listen True] (up fs)"
proof -
  assume "0 < threads (s_settings E)"
  then have listen: "act E (Listen True) ((initial_process fs)\<lparr>p_main := Created\<rparr>) = Some (up fs)"
    by (simp add: on_listen_def up_def initial_process_def)
  have "act E Construct (initial_process fs) = Some ((initial_process fs)\<lparr>p_main := Created\<rparr>)"
    by (simp add: initial_process_def)
  from reaches.further [OF reaches_one [OF this] listen] show ?thesis by simp
qed

lemma up_running [simp]: "io_running (up fs)" "p_conns (up fs) = []"
  by (simp_all add: up_def io_running_def initial_process_def)

theorem access_control_witness:
  "\<exists>E p. main (bs ''/d'') example_resolve (Some example_tree) (Some Map.empty) = Serve (s_settings E)
    \<and> reaches E (initial_process no_files) [Construct, Listen True] p
    \<and> map_option (\<lambda>p. map c_peer (p_conns p)) (act E (Accept (Some (Some friend, True))) p) = Some [friend]
    \<and> act E (Accept (Some (Some stranger, True))) p = Some p
    \<and> act E (Accept (Some (Some stranger, False))) p = Some (p\<lparr>p_main := Terminated\<rparr>)"
proof -
  obtain s where s: "main (bs ''/d'') example_resolve (Some example_tree) (Some Map.empty) = Serve s" "threads s = 4"
    by (simp add: main_def read_vm_def option_as_def read_file_def example_tree_def initial_settings_def or_default_def Let_def)
  let ?E = "example_service\<lparr>s_settings := s\<rparr>"
  have E: "main (bs ''/d'') example_resolve (Some example_tree) (Some Map.empty) = Serve (s_settings ?E)"
    and r: "reaches ?E (initial_process no_files) [Construct, Listen True] (up no_files)"
    using s reaches_up [of ?E] by simp_all
  have "bs ''friend'' \<noteq> bs ''unknown''" "bs ''10.0.0.7'' \<noteq> bs ''10.0.0.8''" by (simp_all add: byte_simps)
  then have may: "may_connect Map.empty (Some example_tree) example_resolve friend"
    "\<not> may_connect Map.empty (Some example_tree) example_resolve stranger"
    by (simp_all add: may_connect_def friend_def stranger_def example_tree_def example_resolve_def)
  note ok = access_control [OF E r, THEN conjunct2, rule_format, OF up_running(1)]
  have "map_option (\<lambda>p. map c_peer (p_conns p)) (act ?E (Accept (Some (Some friend, True))) (up no_files)) = Some [friend]"
    "act ?E (Accept (Some (Some stranger, True))) (up no_files) = Some (up no_files)"
    "act ?E (Accept (Some (Some stranger, False))) (up no_files) = Some ((up no_files)\<lparr>p_main := Terminated\<rparr>)"
    unfolding ok using may by simp_all
  then show ?thesis by (intro exI conjI) (rule E, rule r)
qed

text \<open>C15: Nothing but the word \<open>stop\<close> on the console makes the service exit: when it has exited, the
  status is 0 and the word was read. While \<open>run\<close> of the server is under way, \<open>SIGINT\<close>, \<open>SIGTERM\<close> and \<open>SIGABRT\<close> change
  nothing: without them the
  run is possible with the same result (before and after, they have their default effect, which kills the process: \<open>UncaughtSignal\<close>). And as long as the service runs, the word stops it.\<close>

theorem only_stop_ends:
  assumes "reaches E (initial_process fs) as p"
  shows "(\<forall>c. p_main p = Exited c \<longrightarrow> c = 0 \<and> ConsoleWord (bs ''stop'') \<in> set as)
    \<and> (\<exists>b. reaches E (initial_process fs) (filter (\<lambda>a. a \<noteq> Signal) as) (p\<lparr>p_signal := b\<rparr>))
    \<and> (io_running p \<longrightarrow>
        (\<exists>q. reaches E p [ConsoleWord (bs ''stop''), ThreadsJoined, ConsoleJoined] q \<and> p_main q = Exited 0))"
proof (intro conjI allI impI)
  have init: "\<not> ended (initial_process fs)" "p_console (initial_process fs) = (\<not> p_stopped (initial_process fs))"
    "p_console (initial_process fs)" by (simp_all add: initial_process_def ended_def)
  fix c
  assume "p_main p = Exited c"
  then have "ended p" by (auto simp: ended_def)
  then show "c = 0" using exits.run [OF assms] init(1) \<open>p_main p = Exited c\<close> by (simp add: list_all_iff)
  show "ConsoleWord (bs ''stop'') \<in> set as"
    using unstopped.run [OF assms] init \<open>ended p\<close> by (auto simp: list_all_iff)
next
  show "\<exists>b. reaches E (initial_process fs) (filter (\<lambda>a. a \<noteq> Signal) as) (p\<lparr>p_signal := b\<rparr>)"
    by (rule reaches_unsignalled [OF assms])
next
  assume "io_running p"
  moreover have "p_console p = (\<not> p_stopped p)"
    by (rule console.run [OF assms]) (simp_all add: initial_process_def list_all_iff)
  ultimately show "\<exists>q. reaches E p [ConsoleWord (bs ''stop''), ThreadsJoined, ConsoleJoined] q \<and> p_main q = Exited 0"
    using stop_run by blast
qed

theorem only_stop_ends_witness:
  "\<exists>q. reaches example_service (up no_files) [ConsoleWord (bs ''stop''), ThreadsJoined, ConsoleJoined] q \<and> p_main q = Exited 0"
proof -
  have "reaches example_service (initial_process no_files) [Construct, Listen True] (up no_files)"
    by (rule reaches_up) (simp add: example_service_def example_settings_def initial_settings_def)
  from only_stop_ends [OF this] show ?thesis by simp
qed

text \<open>C17: A message is read from the segments up to the one that completes it; the next one is read from
  the segment after. What the last segment holds behind the message, such as the requests that a client
  sent without waiting for the reply, is lost.\<close>

theorem pipelined_requests_lost:
  assumes "list_all2 (arrives P) gs reqs" and "P [] = NeedMore"
  shows "session_requests P (concat gs) = reqs"
  by (rule session_requests_arrives [OF assms])

text \<open>A protocol of messages of one byte: of two messages in the first segment, one is answered.\<close>

definition example_parser :: http_parser where
  "example_parser b = (case b of [] \<Rightarrow> NeedMore | x # _ \<Rightarrow> Message (example_post [x]) 1)"

theorem pipelined_requests_lost_witness:
  "session_requests example_parser [[1, 2], [3]] = [example_post [1], example_post [3]]"
proof -
  have "list_all2 (arrives example_parser) [[[1, 2]], [[3]]] [example_post [1], example_post [3]]"
    by (auto simp: arrives_def example_parser_def)
  from pipelined_requests_lost [OF this] show ?thesis by (simp add: example_parser_def)
qed

definition afterwards :: "service \<Rightarrow> action \<Rightarrow> process \<Rightarrow> main_state option" where
  "afterwards E a p = map_option p_main (act E a p)"

text \<open>A request that the service parses to the document.\<close>

definition says :: "service \<Rightarrow> http_request \<Rightarrow> json \<Rightarrow> bool" where
  "says E req doc \<longleftrightarrow> req_target req = bs ''/'' \<and> req_is_post req \<and> reader_parse (lib E) (req_text req) = Some doc"

lemma afterwards_request:
  assumes "io_running p" and "i < length (p_conns p)" and "c_reading (p_conns p ! i)"
  shows "afterwards E (Request i req True ok) p = (case process_request E (p_disk p) req of
      Inl e \<Rightarrow> Some (ended_by e)
    | Inr (out, l) \<Rightarrow> Some (if out \<noteq> [] \<and> \<not> ok then Terminated else Serving))"
  using assms
  by (auto simp: afterwards_def on_request_def Let_def write_to_def io_running_def split: sum.split prod.split option.split)

text \<open>C16: What a single client can do to the whole service. Nothing catches what a handler throws: the
  process terminates when a socket is gone before the server asks for its peer, when a client without
  access has reset its connection before it is shut down, when a reply cannot be written, and when the
  request has an unknown method and an id that is a text without a number; and its behaviour is undefined
  when the request is JSON but not an object.\<close>

theorem one_client_ends_service:
  assumes "io_running p" and "i < length (p_conns p)" and "c_reading (p_conns p ! i)"
  shows "afterwards E (Accept (Some (None, ok))) p = Some Terminated
    \<and> (\<not> check_access (s_settings E) ep \<longrightarrow> afterwards E (Accept (Some (Some ep, False))) p = Some Terminated)
    \<and> afterwards E (Request i req False ok) p = Some Terminated
    \<and> (\<forall>r out l. process_request E (p_disk p) req = Inr (r # out, l) \<longrightarrow>
         afterwards E (Request i req True False) p = Some Terminated)
    \<and> (\<forall>doc. says E req doc \<and> \<not> IsObject doc \<longrightarrow> afterwards E (Request i req True ok) p = Some Misbehaved)
    \<and> (\<forall>ms s. says E req (JObject ms) \<and> map_of map_handlers (get_method (JObject ms)) = None
         \<and> map_of ms (bs ''id'') = Some (JString s) \<and> strto_decimal s = None \<longrightarrow>
         afterwards E (Request i req True ok) p = Some Terminated)"
proof (intro conjI allI impI)
  show "afterwards E (Accept (Some (None, ok))) p = Some Terminated"
    using assms(1) by (simp add: afterwards_def on_accept_def)
  show "\<not> check_access (s_settings E) ep \<Longrightarrow> afterwards E (Accept (Some (Some ep, False))) p = Some Terminated"
    using assms(1) by (simp add: afterwards_def on_accept_def)
  show "afterwards E (Request i req False ok) p = Some Terminated"
    using assms by (simp add: afterwards_def on_request_def Let_def)
  show "afterwards E (Request i req True False) p = Some Terminated"
    if "process_request E (p_disk p) req = Inr (r # out, l)" for r out l
    by (simp add: afterwards_request [OF assms] that)
  fix doc
  assume "says E req doc \<and> \<not> IsObject doc"
  then have says: "says E req doc" and "get_method doc = []"
    "get_id doc = Inl (Undefined (bs ''FindMember: not an object''))"
    by (cases doc; simp add: get_method_def get_string_def get_id_def get_def)+
  then have "process_request E (p_disk p) req = Inl (Undefined (bs ''FindMember: not an object''))"
    using process_request_doc [of req E doc "p_disk p"] by (simp add: says_def map_handlers_def byte_simps)
  then show "afterwards E (Request i req True ok) p = Some Misbehaved"
    by (simp add: afterwards_request [OF assms] ended_by_def)
next
  fix ms s
  assume a: "says E req (JObject ms) \<and> map_of map_handlers (get_method (JObject ms)) = None
    \<and> map_of ms (bs ''id'') = Some (JString s) \<and> strto_decimal s = None"
  then have "process_request E (p_disk p) req = Inl (StdException InvalidArgument)"
    using process_request_doc [of req E "JObject ms" "p_disk p"] get_id_text [of ms s] by (simp add: says_def)
  then show "afterwards E (Request i req True ok) p = Some Terminated"
    by (simp add: afterwards_request [OF assms] ended_by_def)
qed

text \<open>A JSON library that reads every text as a list.\<close>

definition example_list_service :: service where
  "example_list_service = example_service\<lparr>s_http := example_http\<lparr>parse_json := (\<lambda>t. Some (JArray []))\<rparr>\<rparr>"

definition example_connected :: process where
  "example_connected = (up no_files)\<lparr>p_conns := [\<lparr>c_peer = friend, c_reading = True, c_asked = [], c_written = []\<rparr>]\<rparr>"

theorem one_client_ends_service_witness:
  "afterwards example_list_service (Request 0 (example_post (bs ''[]'')) True True) example_connected = Some Misbehaved
    \<and> afterwards example_list_service (Request 0 (example_post (bs ''[]'')) False True) example_connected = Some Terminated"
proof -
  have p: "io_running example_connected" "0 < length (p_conns example_connected)" "c_reading (p_conns example_connected ! 0)"
    by (simp_all add: example_connected_def up_def initial_process_def io_running_def)
  have "says example_list_service (example_post (bs ''[]'')) (JArray [])"
    by (simp add: says_def example_post_def reader_parse_def lib_def example_list_service_def example_service_def
        example_http_def json_lib.truncate_def)
  moreover have "\<not> IsObject (JArray [])" by simp
  ultimately show ?thesis
    using one_client_ends_service [OF p, of example_list_service True friend "example_post (bs ''[]'')"] by blast
qed

end
