(* ===== verification/PlainRequests.thy ===== *)
theory PlainRequests
  imports GenerateSpec BadId
begin

text \<open>
  Which requests the service survives: operations whose result is never undefined behaviour nor an abort,
  whatever the state of the files and of the handler, and how many replies they make. The requests are all but those of
  \<open>create-tx\<close> and \<open>send-tx\<close>, which depend on key files and answers the client does not control.
\<close>

section \<open>Results that are no undefined behaviour and no abort\<close>

definition escapes :: "exc \<Rightarrow> bool" where
  "escapes e \<longleftrightarrow> e = AssertFailed \<or> (\<exists>n. e = Undefined n)"

definition safe :: "'a res \<Rightarrow> bool" where
  "safe r \<longleftrightarrow> (\<forall>e. r = Inl e \<longrightarrow> \<not> escapes e)"

named_theorems safe_intros \<open>results that are no undefined behaviour\<close>

lemma safe_simps [simp]: "safe (Inr x)" "safe (Inl e) \<longleftrightarrow> \<not> escapes e"
  "\<not> escapes (TypedException t s)" "\<not> escapes (StringException s)" "\<not> escapes (InvalidParam s)"
  "\<not> escapes (StdException std)"
  by (simp_all add: safe_def escapes_def)

lemma error_of_escapes: "error_of E e = None \<longleftrightarrow> escapes e"
  by (simp add: error_of_None escapes_def)

lemma safe_rbind [safe_intros]: "safe m \<Longrightarrow> (\<And>x. m = Inr x \<Longrightarrow> safe (f x)) \<Longrightarrow> safe (rbind m f)"
  by (cases m) simp_all

lemma safe_checks [safe_intros]:
  "(v \<Longrightarrow> safe k) \<Longrightarrow> safe (CHECK_TYPED v t s k)" "(v \<Longrightarrow> safe k) \<Longrightarrow> safe (CHECK v s k)"
  by (simp_all add: CHECK_TYPED_def CHECK_def)

lemma safe_substr [safe_intros]: "safe (substr s p n)" "safe (substr_from s p)"
  by (simp_all add: substr_def substr_from_def)

lemma safe_saveToFile: "saveToFile fs path data = (r, fs') \<Longrightarrow> safe r"
proof -
  have made: "make_dirs fs ds = (r, fs') \<Longrightarrow> safe r" for fs ds r fs'
    by (induction fs ds rule: make_dirs.induct) (auto simp: safe_def escapes_def split: if_splits)
  have "safe (missing_dirs fs ds)" for ds
    by (induction ds) (auto intro!: safe_intros simp: isExist_def)
  then show "saveToFile fs path data = (r, fs') \<Longrightarrow> safe r"
    by (auto simp: saveToFile_def createDirectories_def safe_def escapes_def split: if_splits sum.splits prod.splits dest: made)
qed

lemma safe_HexStringToDump: "length s < 2 ^ 31 \<Longrightarrow> safe (HexStringToDump s)"
proof -
  have "safe (HexStringToDump_loop s t d)" for t d
    by (induction s t d rule: HexStringToDump_loop.induct) (auto intro!: safe_intros simp: hex_nibble_def)
  then show "length s < 2 ^ 31 \<Longrightarrow> safe (HexStringToDump s)" by (simp add: HexStringToDump_eq)
qed

lemma safe_WIFToPrivkey:
  assumes "length w < 2 ^ 31"
  shows "safe (WIFToPrivkey w)"
proof -
  have "length (c_str w) < 2 ^ 31" using assms length_takeWhile_le [of "\<lambda>c. c \<noteq> 0" w] by (simp add: c_str_def)
  from DecodeBase58_not_Inl [OF this] show ?thesis
    unfolding WIFToPrivkey_def Let_def
    by (intro safe_intros) (auto simp: safe_def CHECK_TYPED_def split: option.splits if_splits)
qed

lemma safe_getAddress:
  assumes "crypto_ok K" and "length w < 2 ^ 31"
  shows "safe (Wif.getAddress K w t)"
  using safe_WIFToPrivkey [OF assms(2)] assms(1)
  by (cases "WIFToPrivkey w") (auto simp: getAddress_Inl getAddress_eq split: option.split)

text \<open>A key generator that prints a number of ordinary length.\<close>

lemma length_CreateWIF:
  assumes K: "crypto_ok K" and "CreateWIF K valid printed t c = Inr w"
  shows "length w < 2 ^ 31"
proof -
  obtain sk where sk: "length sk \<le> 2 ^ 30" "w = wif_text K sk t c"
    using assms(2) by (auto simp: CreateWIF_def Let_def res_simps privateKeyToWif_eq dest: HexStringToDump_bound)
  then obtain p where "w = base58 p" "length p \<le> 2 ^ 30 + 6"
    using crypto_lengths [OF K] by (auto simp: wif_text_def Let_def)
  then show ?thesis using length_base58 [of p] by simp
qed

lemma safe_genPrivateKey:
  assumes K: "crypto_ok K" and env: "scrypt_env_ok env" "scrypt_env_ok env2" and "length printed < 2 ^ 31"
  shows "safe (fst (genPrivateKey K env env2 fs valid printed folder password))"
proof -
  have "safe (privateKeyToWif K sk t c)" if "HexStringToDump s = Inr sk" for s sk t c
    using HexStringToDump_bound [OF that] by (simp add: privateKeyToWif_eq)
  then have "safe (CreateWIF K valid printed False True)"
    unfolding CreateWIF_def Let_def using assms(4)
    by (intro safe_intros safe_HexStringToDump) (auto simp: substr_def split: if_splits)
  moreover have "length key < 2 ^ 31" if "CreateWIF K valid printed False True = Inr key" for key
    using that by (rule length_CreateWIF [OF K])
  moreover have "safe (stored_key K env key password)"
    if "CreateWIF K valid printed False True = Inr key" "Wif.getAddress K key False = Inr (addr, True)" for key addr
  proof -
    note addr = that(2)
    obtain sk pub where key: "WIFToPrivkey key = Inr (sk, True)" "ec_pubkey_create K sk = Some pub"
      by (rule getAddress_Inr [OF K addr])
    obtain e where "encryptWif K env key password = Inr e" by (rule encrypt_decrypt [OF K env key])
    then show ?thesis by (auto simp: stored_key_def intro!: safe_intros)
  qed
  moreover have "BtcWallet_data K env2 (stored @ WIF_AND_ADDRESS_DELIMITER @ addr) password
      = Inr \<lparr>wif = key, address = addr\<rparr>"
    if "CreateWIF K valid printed False True = Inr key" "Wif.getAddress K key False = Inr (addr, True)"
      "stored_key K env key password = Inr stored" for key addr stored
  proof -
    have "addr \<noteq> []" by (rule getAddress_Inr [OF K that(2)])
    then show ?thesis using BtcWallet_data_eq [OF _ _ _ that(2)] stored_reads [OF K env that] by blast
  qed
  ultimately have "safe (fresh_wallet K env env2 valid printed password)"
    unfolding fresh_wallet_def by (intro safe_intros safe_getAddress [OF K]) (auto intro!: safe_intros safe_getAddress [OF K])
  then show ?thesis unfolding genPrivateKey_eq using safe_saveToFile by (fastforce split: sum.split prod.split)
qed

section \<open>Operations of a handler\<close>

text \<open>On a request that is an object, with a well-formed writer: no undefined behaviour, and both stay so.\<close>

definition solid :: "('a handler_scheme, 'b) act \<Rightarrow> bool" where
  "solid m \<longleftrightarrow> (\<forall>h. IsObject (m_reader h) \<longrightarrow> writer_ok (m_writer h) \<longrightarrow>
     safe (fst (m h)) \<and> m_reader (snd (m h)) = m_reader h \<and> writer_ok (m_writer (snd (m h))))"

definition unchanged :: "('h \<Rightarrow> 'c) \<Rightarrow> ('h, 'b) act \<Rightarrow> bool" where
  "unchanged sel m \<longleftrightarrow> (\<forall>h. sel (snd (m h)) = sel h)"

named_theorems solid_intros \<open>operations without undefined behaviour\<close>
named_theorems unchanged_intros \<open>operations that leave a part of the handler alone\<close>

lemma solidD:
  "solid m \<Longrightarrow> m h = (r, h') \<Longrightarrow> IsObject (m_reader h) \<Longrightarrow> writer_ok (m_writer h) \<Longrightarrow>
    safe r \<and> IsObject (m_reader h') \<and> writer_ok (m_writer h')"
  unfolding solid_def by (metis fst_conv snd_conv)

lemma solid_act [solid_intros]:
  "solid (ret x)" "\<not> escapes e \<Longrightarrow> solid (raise e)" "safe r \<Longrightarrow> solid (lift r)" "solid (read_state g)" "solid (check b msg)"
  "(\<And>h. m_reader (f h) = m_reader h \<and> m_writer (f h) = m_writer h) \<Longrightarrow> solid (assign f)"
  by (auto simp: solid_def act_simps check_def CHK_PRM_def)

lemma solid_write [solid_intros]:
  "(\<And>w. writer_ok w \<Longrightarrow> \<exists>w'. f w = Inr w' \<and> writer_ok w') \<Longrightarrow> solid (write_doc f)"
  by (fastforce simp: solid_def write_doc_def split: sum.split)

lemma solid_andThen [solid_intros]:
  fixes m :: "('a handler_scheme, 'b) act"
  assumes "solid m" and "\<And>x. solid (k x)"
  shows "solid (andThen m k)"
  unfolding solid_def
proof (intro allI impI)
  fix h :: "'a handler_scheme"
  assume h: "IsObject (m_reader h)" "writer_ok (m_writer h)"
  obtain r h1 where m: "m h = (r, h1)" by (cases "m h")
  have m': "safe r" "m_reader h1 = m_reader h" "writer_ok (m_writer h1)"
    using assms(1) h m unfolding solid_def by (metis fst_conv snd_conv)+
  show "safe (fst (andThen m k h)) \<and> m_reader (snd (andThen m k h)) = m_reader h \<and> writer_ok (m_writer (snd (andThen m k h)))"
  proof (cases r)
    case (Inr x)
    then show ?thesis using assms(2) [of x] h m m' by (simp add: act_simps solid_def)
  qed (use m m' in \<open>simp add: act_simps\<close>)
qed

lemma solid_branch [solid_intros]:
  "(c \<Longrightarrow> solid a) \<Longrightarrow> (\<not> c \<Longrightarrow> solid b) \<Longrightarrow> solid (if c then a else b)"
  "solid a \<Longrightarrow> (\<And>y. solid (g y)) \<Longrightarrow> solid (case x of None \<Rightarrow> a | Some y \<Rightarrow> g y)"
  by (auto split: option.split)

lemma solid_END_TRY [solid_intros]:
  fixes body :: "('a handler_scheme, 'b) act"
  assumes "solid body" and "solid param"
  shows "solid (END_TRY E r param body)"
  unfolding solid_def
proof (intro allI impI)
  fix h :: "'a handler_scheme"
  assume h: "IsObject (m_reader h)" "writer_ok (m_writer h)"
  obtain x h1 where m: "body h = (x, h1)" by (cases "body h")
  have m': "safe x" "m_reader h1 = m_reader h" "writer_ok (m_writer h1)"
    using assms(1) h m unfolding solid_def by (metis fst_conv snd_conv)+
  have err: "solid (andThen (write_doc (\<lambda>w. set_error (writer_reset w) code msg)) (\<lambda>_. andThen param (\<lambda>_. ret r)))" for code msg
    using set_error_ok [OF writer_reset_ok] by (intro solid_intros assms(2)) blast
  show "safe (fst (END_TRY E r param body h)) \<and> m_reader (snd (END_TRY E r param body h)) = m_reader h
    \<and> writer_ok (m_writer (snd (END_TRY E r param body h)))"
  proof (cases x)
    case (Inl e)
    then have "\<not> escapes e" using m'(1) by simp
    then obtain code msg where "error_of E e = Some (code, msg)" using error_of_escapes [of E e] by auto
    then show ?thesis using err [of code msg] h m m' Inl by (simp add: END_TRY_def solid_def)
  qed (use m m' in \<open>simp add: END_TRY_def\<close>)
qed

lemma unchanged_act [unchanged_intros]:
  "unchanged sel (ret x)" "unchanged sel (raise e)" "unchanged sel (lift r)" "unchanged sel (read_state g)"
  "unchanged sel (check b msg)" "(\<And>h. sel (f h) = sel h) \<Longrightarrow> unchanged sel (assign f)"
  by (simp_all add: unchanged_def act_simps check_def)

lemma unchanged_write [unchanged_intros]:
  "(\<And>h w. sel (h\<lparr>m_writer := w\<rparr>) = sel h) \<Longrightarrow> unchanged sel (write_doc f)"
  by (auto simp: unchanged_def write_doc_def split: sum.split)

lemma unchanged_andThen [unchanged_intros]:
  "unchanged sel m \<Longrightarrow> (\<And>x. unchanged sel (k x)) \<Longrightarrow> unchanged sel (andThen m k)"
  unfolding unchanged_def andThen_def by (auto split: prod.split sum.split) (metis snd_conv)+

lemma unchanged_branch [unchanged_intros]:
  "unchanged sel a \<Longrightarrow> unchanged sel b \<Longrightarrow> unchanged sel (if c then a else b)"
  "unchanged sel a \<Longrightarrow> (\<And>y. unchanged sel (g y)) \<Longrightarrow> unchanged sel (case x of None \<Rightarrow> a | Some y \<Rightarrow> g y)"
  by (auto split: option.split)

lemma unchanged_END_TRY [unchanged_intros]:
  assumes "\<And>h w. sel (h\<lparr>m_writer := w\<rparr>) = sel h" and "unchanged sel body" and "unchanged sel param"
  shows "unchanged sel (END_TRY E r param body)"
proof -
  have err: "unchanged sel (andThen (write_doc (\<lambda>w. set_error (writer_reset w) code msg)) (\<lambda>_. andThen param (\<lambda>_. ret r)))" for code msg
    by (intro unchanged_intros assms)
  show ?thesis
    using assms(2) err unfolding unchanged_def END_TRY_def
    by (auto split: prod.split sum.split option.split) (metis snd_conv)+
qed

section \<open>The parts of the handlers\<close>

lemma get_object: "IsObject doc \<Longrightarrow> \<exists>v. get name doc = Inr v"
  by (cases doc) (auto simp: get_def)

lemma solid_params [solid_intros]:
  "solid (check_id :: ('a handler_scheme, unit) act)" "solid (params_of :: ('a handler_scheme, json) act)"
proof -
  show "solid (check_id :: ('a handler_scheme, unit) act)" unfolding check_id_def by (intro solid_intros)
  show "solid (params_of :: ('a handler_scheme, json) act)"
    unfolding solid_def
  proof (intro allI impI)
    fix h :: "'a handler_scheme"
    assume "IsObject (m_reader h)" "writer_ok (m_writer h)"
    then show "safe (fst (params_of h)) \<and> m_reader (snd (params_of h)) = m_reader h \<and> writer_ok (m_writer (snd (params_of h)))"
      using get_object [of "m_reader h" "bs ''params''"]
      by (auto simp: params_of_def get_params_def act_simps split: option.split)
  qed
qed

lemma unchanged_params [unchanged_intros]: "unchanged sel check_id" "unchanged sel params_of"
  unfolding check_id_def params_of_def by (intro unchanged_intros)+

lemma solid_string_field [solid_intros]:
  "(\<And>s h. m_reader (store s h) = m_reader h \<and> m_writer (store s h) = m_writer h) \<Longrightarrow>
    solid (string_field p name missing e store)"
  unfolding string_field_def by (intro solid_intros) auto

lemma unchanged_string_field [unchanged_intros]:
  "(\<And>s h. sel (store s h) = sel h) \<Longrightarrow> unchanged sel (string_field p name missing e store)"
  unfolding string_field_def by (intro unchanged_intros)

lemma set_value_writes:
  "writer_ok w \<Longrightarrow> name \<noteq> bs ''jsonrpc'' \<Longrightarrow> \<exists>w'. set_value w name v = Inr w' \<and> writer_ok w'"
  using set_value_ok [of w name v] by blast

lemma safe_set_id: "writer_ok w \<Longrightarrow> safe (set_id w i)"
  using set_value_writes [OF _ names_differ(1)] unfolding set_id_def by (metis safe_simps(1))

lemma set_params_writes: "writer_ok w \<Longrightarrow> \<exists>w'. set_params w v = Inr w' \<and> writer_ok w'"
proof -
  assume "writer_ok w"
  then have "\<exists>d r. get_value w (bs ''params'') kObjectType = Inr (d, r) \<and> writer_ok d"
    using names_differ(6)
    by (cases w) (auto simp: get_value_def writer_ok_def split: option.split dest: map_of_SomeD)
  then show ?thesis using set_value_writes [OF _ names_differ(6)] by (auto simp: set_params_def)
qed

lemma write_call_parts:
  "solid (write_call E m j)" "(\<And>h w. sel (h\<lparr>m_writer := w\<rparr>) = sel h) \<Longrightarrow> unchanged sel (write_call E m j)"
  unfolding write_call_def
  by (intro solid_intros; simp add: add_def set_value_writes set_params_writes names_differ)
    (intro unchanged_intros; simp)

lemma network_params_parts:
  "solid (network_prepare_params E t)"
  "(\<And>h w. sel (h\<lparr>m_writer := w\<rparr>) = sel h) \<Longrightarrow> unchanged sel (network_prepare_params E t)"
proof -
  have "solid (fetch_balance_prepare_params E)" "solid (fetch_history_prepare_params E)" "solid (unimplemented_prepare_params E)"
    unfolding fetch_balance_prepare_params_def fetch_history_prepare_params_def unimplemented_prepare_params_def
    by (intro solid_intros write_call_parts; simp)+
  then show "solid (network_prepare_params E t)"
    by (cases t) (simp_all add: get_blocks_prepare_params_def get_tx_prepare_params_def
        get_last_txs_prepare_params_def get_count_blocks_prepare_params_def get_block_by_hash_prepare_params_def
        get_block_by_number_prepare_params_def get_dump_block_by_hash_prepare_params_def
        get_dump_block_by_number_prepare_params_def)
  assume sel: "\<And>h w. sel (h\<lparr>m_writer := w\<rparr>) = sel h"
  have "unchanged sel (fetch_balance_prepare_params E)" "unchanged sel (fetch_history_prepare_params E)"
    "unchanged sel (unimplemented_prepare_params E)"
    unfolding fetch_balance_prepare_params_def fetch_history_prepare_params_def unimplemented_prepare_params_def
    by (intro unchanged_intros write_call_parts sel; simp)+
  then show "unchanged sel (network_prepare_params E t)"
    by (cases t) (simp_all add: get_blocks_prepare_params_def get_tx_prepare_params_def
        get_last_txs_prepare_params_def get_count_blocks_prepare_params_def get_block_by_hash_prepare_params_def
        get_block_by_number_prepare_params_def get_dump_block_by_hash_prepare_params_def
        get_dump_block_by_number_prepare_params_def)
qed

lemma generate_params_parts:
  "solid (generate_prepare_params E)"
  "(\<And>h w. sel (h\<lparr>m_writer := w\<rparr>) = sel h) \<Longrightarrow> (\<And>h s. sel (h\<lparr>gen_password := s\<rparr>) = sel h) \<Longrightarrow>
    unchanged sel (generate_prepare_params E)"
  unfolding generate_prepare_params_def
  by (intro solid_intros; simp) (intro unchanged_intros; simp)

section \<open>Requests\<close>

text \<open>What the libraries and the key generator have to keep to: an object that is printed reads back as an
  object, if it is read at all; a printed key has an ordinary length.\<close>

definition prints_objects :: "service \<Rightarrow> bool" where
  "prints_objects E \<longleftrightarrow>
     (\<forall>ms v. reader_parse (lib E) (stringify (lib E) (JObject ms)) = Some v \<longrightarrow> IsObject v)"

definition service_ok :: "service \<Rightarrow> bool" where
  "service_ok E \<longleftrightarrow> prints_objects E \<and> crypto_ok (s_crypto E) \<and> scrypt_env_ok (s_scrypt E) \<and> scrypt_env_ok (s_scrypt2 E)
     \<and> length (snd (s_key E)) < 2 ^ 31"

lemma END_TRY_returns:
  assumes "solid body" and "\<And>h. \<exists>h'. param h = (Inr (), h')" and "IsObject (m_reader h)" and "writer_ok (m_writer h)"
  shows "\<exists>x h'. END_TRY E r param body h = (Inr x, h')"
proof -
  obtain x h' where run: "END_TRY E r param body h = (x, h')" by (cases "END_TRY E r param body h")
  then show ?thesis
  proof (cases rule: END_TRY_cases)
    case (escaped e)
    then show ?thesis using solidD [OF assms(1) _ assms(3,4)] error_of_escapes by fastforce
  next
    case (caught e h1 w)
    then show ?thesis using assms(2) [of "h1\<lparr>m_writer := w\<rparr>"] run by (auto simp: act_simps)
  qed (use run in auto)
qed

lemma solid_prepare_rest: "solid pp \<Longrightarrow> solid (prepare_rest E pp)"
proof -
  assume pp: "solid pp"
  have invalid: "solid (write_doc (\<lambda>w. set_error (writer_reset w) (- 32602) (bs ''Invalid params'')))"
    using set_error_ok [OF writer_reset_ok] by (intro solid_intros)
  have err: "solid (andThen (read_state m_writer) (\<lambda>w. andThen (lift (is_error w)) k))" if "\<And>b. solid (k b)"
    for k :: "bool \<Rightarrow> ('a handler_scheme, 'c) act"
  proof -
    have "andThen (read_state m_writer) (\<lambda>w. andThen (lift (is_error w)) k) h = k b h"
      if "is_error (m_writer h) = Inr b" for h :: "'a handler_scheme" and b
      using that by (simp add: act_simps)
    then show ?thesis using that is_error_ok unfolding solid_def by metis
  qed
  show ?thesis unfolding prepare_rest_def by (intro solid_intros pp err invalid)
qed

lemma unchanged_prepare_rest:
  "(\<And>h w. sel (h\<lparr>m_writer := w\<rparr>) = sel h) \<Longrightarrow> unchanged sel pp \<Longrightarrow> unchanged sel (prepare_rest E pp)"
  unfolding prepare_rest_def by (intro unchanged_intros) simp_all

lemma prepare_returns:
  assumes parse: "reader_parse (lib E) params = Some doc" and doc: "IsObject doc" "get_id doc = Inr i"
    and h: "writer_ok (m_writer h)" and pp: "solid pp" "unchanged sel pp"
    and sel: "\<And>h w. sel (h\<lparr>m_writer := w\<rparr>) = sel h" "\<And>h d. sel (h\<lparr>m_reader := d\<rparr>) = sel h" "\<And>h i. sel (h\<lparr>m_id := i\<rparr>) = sel h"
  shows "\<exists>b h'. prepare E pp params h = (Inr b, h') \<and> IsObject (m_reader h') \<and> writer_ok (m_writer h') \<and> sel h' = sel h"
proof -
  obtain w where w: "writer_ok w" and
    run: "prepare E pp params h = END_TRY E False (ret ()) (prepare_rest E pp) (h\<lparr>m_reader := doc, m_id := i, m_writer := w\<rparr>)"
    by (rule prepare_eq [OF parse doc(2) h])
  let ?h = "h\<lparr>m_reader := doc, m_id := i, m_writer := w\<rparr>"
  have rest: "solid (prepare_rest E pp)" by (rule solid_prepare_rest [OF pp(1)])
  obtain b h' where b: "END_TRY E False (ret ()) (prepare_rest E pp) ?h = (Inr b, h')"
    using END_TRY_returns [OF rest, of "ret ()" ?h E False] doc(1) w by (auto simp: act_simps)
  have "solid (END_TRY E False (ret ()) (prepare_rest E pp))" by (intro solid_intros rest)
  from solidD [OF this b] doc(1) w have "IsObject (m_reader h')" "writer_ok (m_writer h')" by simp_all
  moreover have "unchanged sel (END_TRY E False (ret ()) (prepare_rest E pp))"
    by (intro unchanged_intros unchanged_prepare_rest sel pp(2))
  then have "sel h' = sel h" using b sel by (metis snd_conv unchanged_def)
  ultimately show ?thesis using run b by auto
qed

text \<open>A request to the server as a handler starts it.\<close>

definition started :: "service \<Rightarrow> request \<Rightarrow> bool" where
  "started E r \<longleftrightarrow> (\<exists>host path body r0. prepared (lib E) host path body = Inr r0 \<and> r = execute_async True r0)"

lemma network_execute_cases:
  assumes "prints_objects E" and "IsObject (m_reader h)" and "writer_ok (m_writer h)" and "m_request h = new_request host"
  obtains (waits) h' r where "network_execute E h = (Inr (), h')" and "m_pending h'"
      and "posted h' = posted h @ [SendRequest r (OnComplete (m_id h))]" and "started E r"
  | (fails) h' where "network_execute E h = (Inr (), h')" and "m_pending h' = m_pending h" and "posted h' = posted h"
proof -
  let ?r = "set_path (get_method (m_reader h)) (new_request host)" and ?body = "stringify (lib E) (m_writer h)"
  let ?h = "h\<lparr>m_request := ?r\<rparr>"
  obtain ms where ms: "m_writer h = JObject ms" using assms(3) by (cases "m_writer h") (auto simp: writer_ok_def)
  have safe: "safe (set_body (lib E) ?body ?r)"
  proof (cases "reader_parse (lib E) ?body")
    case (Some v)
    then have "IsObject v" using assms(1) ms unfolding prints_objects_def by metis
    then have "safe (get_id v)"
      by (cases v) (auto simp: get_id_def get_def stoi_def sto_range_def split: option.split json.split)
    then show ?thesis
      using Some by (auto simp: set_body_def Let_def new_request_def set_path_def new_writer_def
          intro!: safe_intros safe_set_id writer_reset_ok split: prod.split)
  qed (simp add: set_body_def Let_def)
  show thesis
  proof (cases "set_body (lib E) ?body ?r")
    case (Inr r0)
    then have "prepared (lib E) host (Some (get_method (m_reader h))) ?body = Inr r0" by (simp add: prepared_def Let_def)
    then have "started E (execute_async True r0)" unfolding started_def by blast
    then show thesis
      using waits [of _ "execute_async True r0"] Inr
      by (simp add: network_execute_def END_TRY_def act_simps assms(4) post_def)
  next
    case (Inl e)
    then have "\<not> escapes e" using safe by simp
    then obtain code msg where err: "error_of E e = Some (code, msg)" using error_of_escapes [of E e] by auto
    obtain w where "set_error (writer_reset (m_writer h)) code msg = Inr w"
      using set_error_ok [OF writer_reset_ok] by blast
    then show thesis
      using fails Inl err by (simp add: network_execute_def END_TRY_def act_simps assms(4) write_doc_def)
  qed
qed

lemma unchanged_network_execute: "unchanged m_id (network_execute E)"
proof -
  have body: "unchanged m_id (\<lambda>h. case set_body (lib E) (stringify (lib E) (m_writer h)) (m_request h) of
      Inl e \<Rightarrow> (Inl e, h) | Inr r \<Rightarrow> (Inr (), h\<lparr>m_request := r\<rparr>))"
    by (auto simp: unchanged_def split: sum.split)
  show ?thesis unfolding network_execute_def by (intro unchanged_intros body) (simp_all add: post_def)
qed

text \<open>How a task answers: at once, or through one request to the server.\<close>

fun awaits :: "service \<Rightarrow> live \<Rightarrow> bool" where
  "awaits E (LiveNetwork h) = (\<exists>r. posted h = [SendRequest r (OnComplete (m_id h))] \<and> started E r)"
| "awaits E l = False"

fun silent :: "live \<Rightarrow> bool" where
  "silent (LiveNetwork h) = (posted h = [])"
| "silent (LiveGenerate h) = (posted h = [])"
| "silent (LiveTx h) = False"

lemma network_perform:
  assumes "prints_objects E" and "reader_parse (lib E) params = Some doc" and "IsObject doc" and "get_id doc = Inr i"
  shows "\<exists>txt pending h. perform E (network_prepare_params E t) (network_execute E) (new_network_handler E fs) params
      = (Inr (txt, pending), h) \<and> (if pending then awaits E (LiveNetwork h) else silent (LiveNetwork h))"
proof -
  let ?sel = "\<lambda>h :: network_handler. (posted h, m_pending h, m_request h)" and ?h0 = "new_network_handler E fs"
  have start: "?sel ?h0 = ([], False, new_request (server_address (s_settings E)))"
    by (simp add: new_network_handler_fields new_handlers_fresh)
  from prepare_returns [OF assms(2-4) new_handlers_ok(2) [of E fs] network_params_parts(1) [of E t]
      network_params_parts(2) [of ?sel E t]]
  obtain b h where h: "prepare E (network_prepare_params E t) params ?h0 = (Inr b, h)" "IsObject (m_reader h)"
    "writer_ok (m_writer h)" "?sel h = ?sel ?h0" by auto
  show ?thesis
  proof (cases b)
    case False
    then show ?thesis using h start by (simp add: perform_def act_simps handler_result_def ex_bool_eq)
  next
    case True
    have "m_request h = new_request (server_address (s_settings E))" using h(4) start by simp
    with assms(1) h(2,3) show ?thesis
    proof (cases rule: network_execute_cases)
      case (waits h' r)
      have "network_execute E h = (Inr (), h')" by fact
      moreover have "m_id h' = m_id h"
        using waits(1) unchanged_network_execute [of E] unfolding unchanged_def by (metis snd_conv)
      ultimately show ?thesis using h(1,4) start waits True by (auto simp: perform_def act_simps handler_result_def ex_bool_eq)
    next
      case (fails h')
      then show ?thesis using h(1,4) start True by (auto simp: perform_def act_simps handler_result_def ex_bool_eq)
    qed
  qed
qed

text \<open>When \<open>generate\<close> comes to execute, nothing has been written but the id.\<close>

lemma generate_ready:
  assumes "reader_parse (lib E) params = Some doc" and "get_id doc = Inr i"
    and run: "prepare E (generate_prepare_params E) params (new_generate_handler E fs) = (Inr True, h)"
  shows "get (bs ''result'') (m_writer h) = Inr None"
proof -
  let ?pp = "generate_prepare_params E" and ?h0 = "new_generate_handler E fs"
  obtain w where w: "set_id (m_writer ?h0) i = Inr w" and
    eq: "prepare E ?pp params ?h0 = END_TRY E False (ret ()) (prepare_rest E ?pp) (?h0\<lparr>m_reader := doc, m_id := i, m_writer := w\<rparr>)"
    by (rule prepare_eq [OF assms(1,2) new_handlers_ok(1)])
  let ?h = "?h0\<lparr>m_reader := doc, m_id := i, m_writer := w\<rparr>"
  from run [unfolded eq] have "prepare_rest E ?pp ?h = (Inr True, h)"
    by (cases rule: END_TRY_cases) (auto simp: act_simps)
  then have "?pp ?h = (Inr True, h)"
    by (cases "?pp ?h") (auto simp: prepare_rest_def act_simps check_def CHK_PRM_def split: sum.splits if_splits prod.splits)
  then have "m_writer h = w" unfolding generate_prepare_params_def
  proof (cases rule: END_TRY_cases)
    case (returned x)
    have quiet: "quiet (andThen check_id (\<lambda>_. andThen params_of (\<lambda>params.
        andThen (string_field params (bs ''password'') (bs ''password field not found'') (bs ''empty password'')
                   (\<lambda>s h. h\<lparr>gen_password := s\<rparr>)) (\<lambda>password.
        andThen (check (allowed_password password) (bs ''password contains not allowed symbols'')) (\<lambda>_. ret True)))))"
      by (intro quiet_intros) simp_all
    then have "m_writer h = m_writer ?h" using returned(1) unfolding quiet_def by (metis snd_conv)
    then show ?thesis by simp
  qed (auto simp: act_simps)
  moreover have "get (bs ''result'') w = Inr None"
    using get_set_value [OF w [unfolded set_id_def]] new_generate_handler_fields(1) names_differ(8)
    by (simp add: new_writer_def get_writer_reset names_differ [symmetric] byte_simps)
  ultimately show ?thesis by simp
qed

lemma generate_execute_returns:
  assumes "service_ok E" and "writer_ok (m_writer h)" and "get (bs ''result'') (m_writer h) = Inr None"
  shows "\<exists>h'. generate_execute E h = (Inr (), h') \<and> posted h' = posted h \<and> m_pending h' = m_pending h"
proof -
  let ?gen = "genPrivateKey (s_crypto E) (s_scrypt E) (s_scrypt2 E) (disk h) (fst (s_key E)) (snd (s_key E))
      (wallet_stotage (s_settings E)) (gen_password h)"
  obtain r fs' where gen: "?gen = (r, fs')" by (cases ?gen)
  have "safe (fst ?gen)" by (rule safe_genPrivateKey) (use assms(1) in \<open>simp_all add: service_ok_def\<close>)
  then have safe: "safe r" by (simp add: gen)
  have add: "\<exists>w. add_result (m_writer h) (bs ''address'') (JString addr) = Inr w" for addr
    using assms(2,3) by (cases "m_writer h")
      (auto simp: add_result_def add_in_def get_value_def set_value_def get_def writer_ok_def)
  show ?thesis
  proof (cases r)
    case (Inl e)
    then have "\<not> escapes e" using safe by simp
    then obtain code msg where err: "error_of E e = Some (code, msg)" using error_of_escapes [of E e] by auto
    obtain w where "set_error (writer_reset (m_writer h)) code msg = Inr w"
      using set_error_ok [OF writer_reset_ok] by blast
    then show ?thesis using Inl err gen by (simp add: generate_execute_def END_TRY_def act_simps write_doc_def)
  next
    case (Inr x)
    obtain addr raw where x: "x = (addr, raw)" by (cases x)
    obtain w where "add_result (m_writer h) (bs ''address'') (JString addr) = Inr w" using add by blast
    then show ?thesis using Inr x gen by (simp add: generate_execute_def END_TRY_def act_simps write_doc_def)
  qed
qed

lemma generate_perform:
  assumes "service_ok E" and "reader_parse (lib E) params = Some doc" and "IsObject doc" and "get_id doc = Inr i"
  shows "\<exists>txt h. perform E (generate_prepare_params E) (generate_execute E) (new_generate_handler E fs) params
      = (Inr (txt, False), h) \<and> silent (LiveGenerate h)"
proof -
  let ?sel = "\<lambda>h :: generate_handler. (posted h, m_pending h)" and ?h0 = "new_generate_handler E fs"
  from prepare_returns [OF assms(2-4) new_handlers_ok(1) [of E fs] generate_params_parts(1) [of E]
      generate_params_parts(2) [of ?sel E]]
  obtain b h where h: "prepare E (generate_prepare_params E) params ?h0 = (Inr b, h)"
    "writer_ok (m_writer h)" "?sel h = ?sel ?h0" by auto
  show ?thesis
  proof (cases b)
    case True
    then have "prepare E (generate_prepare_params E) params ?h0 = (Inr True, h)" using h(1) by simp
    note ready = generate_ready [OF assms(2,4) this]
    from generate_execute_returns [OF assms(1) h(2) ready] show ?thesis
      using h(1,3) True by (auto simp: perform_def act_simps handler_result_def new_generate_handler_fields)
  qed (use h in \<open>simp add: perform_def act_simps handler_result_def new_generate_handler_fields\<close>)
qed

section \<open>The answer to a request\<close>

text \<open>A request for \<open>create-tx\<close> or \<open>send-tx\<close>, and one the service can read: JSON, if it is that at all, that is an
  object with a readable id.\<close>

definition asks_tx :: "service \<Rightarrow> http_request \<Rightarrow> bool" where
  "asks_tx E req = (case reader_parse (lib E) (req_text req) of None \<Rightarrow> False
     | Some doc \<Rightarrow> get_method doc = bs ''create-tx'' \<or> get_method doc = bs ''send-tx'')"

definition readable :: "service \<Rightarrow> http_request \<Rightarrow> bool" where
  "readable E req = (req_target req = bs ''/'' \<longrightarrow> req_is_post req \<longrightarrow>
     (case reader_parse (lib E) (req_text req) of None \<Rightarrow> True
      | Some doc \<Rightarrow> IsObject doc \<and> (case get_id doc of Inl e \<Rightarrow> False | Inr i \<Rightarrow> True)))"

text \<open>One reply now and nothing left to do, or nothing now and one request to the server under way.\<close>

definition answers_once :: "service \<Rightarrow> http_response list \<Rightarrow> (task \<times> live) option \<Rightarrow> bool" where
  "answers_once E out l =
     (case l of
        None \<Rightarrow> length out = 1
      | Some (t, l) \<Rightarrow> (length out = 1 \<and> silent l) \<or> (out = [] \<and> awaits E l))"

lemma run_task_plain:
  assumes "service_ok E" and "reader_parse (lib E) params = Some doc" and "IsObject doc" and "get_id doc = Inr i"
    and "t \<noteq> CreateTx" and "t \<noteq> SendTx"
  shows "\<exists>txt pending l. run_task E fs t params = (Inr (txt, pending), l) \<and> (if pending then awaits E l else silent l)"
proof (cases "t = Generate")
  case True
  from generate_perform [OF assms(1-4), of fs] show ?thesis
    by (auto simp: run_task_def True ex_bool_eq)
next
  case False
  have "prints_objects E" using assms(1) by (simp add: service_ok_def)
  from network_perform [OF this assms(2-4), of t fs] obtain answer pending h where
    "perform E (network_prepare_params E t) (network_execute E) (new_network_handler E fs) params = (Inr (answer, pending), h)"
    "if pending then awaits E (LiveNetwork h) else silent (LiveNetwork h)" by blast
  then show ?thesis
    using False assms(5,6) by (cases t) (simp_all add: run_task_def)
qed

lemma map_handlers_tx:
  "map_of map_handlers m = Some t \<Longrightarrow> t = CreateTx \<or> t = SendTx \<Longrightarrow> m = bs ''create-tx'' \<or> m = bs ''send-tx''"
  by (auto simp: map_handlers_def split: if_splits)

lemma process_request_plain:
  assumes E: "service_ok E" and "readable E req" and "\<not> asks_tx E req"
  shows "\<exists>out l. process_request E fs req = Inr (out, l) \<and> answers_once E out l"
proof (cases "req_target req = bs ''/'' \<and> req_is_post req")
  case False
  then show ?thesis by (auto simp: process_request_def answers_once_def)
next
  case True
  note post = this [THEN conjunct1] this [THEN conjunct2]
  have error: "\<exists>w. set_error doc code msg = Inr w" if "writer_ok doc" for doc code msg
    using set_error_ok [OF that] by blast
  show ?thesis
  proof (cases "reader_parse (lib E) (req_text req)")
    case None
    obtain w where "set_error new_writer (- 32700) (bs ''Parse error'') = Inr w"
      using error [of new_writer] by (auto simp: new_writer_def writer_reset_ok)
    then show ?thesis using None post by (auto simp: process_request_def answers_once_def)
  next
    case (Some doc)
    then obtain i where doc: "IsObject doc" "get_id doc = Inr i"
      using assms(2) post by (auto simp: readable_def split: sum.splits)
    note parse = Some and proc = process_request_doc [OF post Some, of fs]
    show ?thesis
    proof (cases "map_of map_handlers (get_method doc)")
      case None
      from set_value_writes [OF writer_reset_ok names_differ(1)] obtain w where
        w: "set_id new_writer i = Inr w" "writer_ok w" unfolding set_id_def new_writer_def by metis
      obtain w' where "set_error w (- 32601) (bs ''Method not found'') = Inr w'" using error [OF w(2)] by blast
      then show ?thesis unfolding proc using None doc(2) w(1) by (simp add: answers_once_def)
    next
      case (Some t)
      have "t \<noteq> CreateTx" "t \<noteq> SendTx"
        using map_handlers_tx [OF Some] assms(3) parse by (auto simp: asks_tx_def)
      from run_task_plain [OF E parse doc this, of fs] obtain answer pending l where
        "run_task E fs t (req_text req) = (Inr (answer, pending), l)" "if pending then awaits E l else silent l" by blast
      then show ?thesis unfolding proc using Some by (simp add: answers_once_def split: if_splits)
    qed
  qed
qed

section \<open>The answer of the server\<close>

text \<open>A text of the server that is JSON at all is an object.\<close>

definition object_text :: "service \<Rightarrow> bytes \<Rightarrow> bool" where
  "object_text E txt = (case reader_parse (lib E) txt of None \<Rightarrow> True | Some doc \<Rightarrow> IsObject doc)"

definition posts_one :: "('a handler_scheme, 'b) act \<Rightarrow> bool" where
  "posts_one m \<longleftrightarrow> (\<forall>h. case m h of (Inl e, h') \<Rightarrow> posted h' = posted h
     | (Inr x, h') \<Rightarrow> \<exists>t. posted h' = posted h @ [SendJson t])"

lemma posts_oneD:
  "posts_one m \<Longrightarrow> m h = (Inl e, h') \<Longrightarrow> posted h' = posted h"
  "posts_one m \<Longrightarrow> m h = (Inr x, h') \<Longrightarrow> \<exists>t. posted h' = posted h @ [SendJson t]"
  unfolding posts_one_def by (drule spec [of _ h], simp)+

lemma posts_one_act: "posts_one (raise e)" "posts_one (post_send_json E)"
  by (auto simp: posts_one_def act_simps post_send_json_def post_def)

lemma posts_one_andThen:
  assumes "unchanged posted m" and "\<And>x. posts_one (k x)"
  shows "posts_one (andThen m k)"
  unfolding posts_one_def
proof
  fix h
  obtain r h1 where m: "m h = (r, h1)" by (cases "m h")
  then have same: "posted h1 = posted h" using assms(1) unfolding unchanged_def by (metis snd_conv)
  show "case andThen m k h of (Inl e, h') \<Rightarrow> posted h' = posted h
     | (Inr x, h') \<Rightarrow> \<exists>t. posted h' = posted h @ [SendJson t]"
  proof (cases r)
    case (Inr x)
    have "posts_one (k x)" by (rule assms(2))
    from this [unfolded posts_one_def, rule_format, of h1] show ?thesis
      using m same Inr by (auto simp: act_simps split: sum.splits prod.splits)
  qed (use m same in \<open>simp add: act_simps\<close>)
qed

lemma posts_one_END_TRY:
  assumes "posts_one body" and "END_TRY E r (post_send_json E) body h = (Inr x, h')"
  shows "\<exists>t. posted h' = posted h @ [SendJson t]"
  using assms(2)
proof (cases rule: END_TRY_cases)
  case (returned y)
  then show ?thesis using posts_oneD(2) [OF assms(1)] by blast
next
  case (caught e h1 w)
  then show ?thesis using posts_oneD(1) [OF assms(1) caught(1)]
    by (auto simp: act_simps post_send_json_def post_def)
qed simp

lemma unchanged_add_members: "unchanged posted (add_members ms)"
  by (induction ms rule: add_members.induct) (auto simp: Let_def intro!: unchanged_intros)

definition complete_body :: "service \<Rightarrow> u32 \<Rightarrow> json \<Rightarrow> ('a handler_scheme, unit) act" where
  "complete_body E rid doc =
     andThen (lift (get_id doc)) (\<lambda>id'.
     andThen (check (id' \<noteq> 0 \<and> id' = rid) (bs ''Returned id doesn't match'')) (\<lambda>_.
     andThen (lift (get_error doc)) (\<lambda>err.
     andThen (lift (get_result doc)) (\<lambda>res.
     andThen (check (err \<noteq> None \<or> res \<noteq> None) (bs ''No occur result or error'')) (\<lambda>_.
     andThen (case err of
                Some e \<Rightarrow> write_doc (\<lambda>w. set_error_value w e)
              | None \<Rightarrow> (case res of Some r \<Rightarrow> write_doc (\<lambda>w. set_result w r) | None \<Rightarrow> ret ())) (\<lambda>_.
     andThen (lift (members doc)) (\<lambda>ms.
     andThen (add_members ms) (\<lambda>_.
     post_send_json E))))))))"

lemma posts_one_complete: "posts_one (complete_body E rid doc)"
  unfolding complete_body_def
  by (intro posts_one_andThen posts_one_act unchanged_add_members unchanged_act unchanged_write unchanged_branch)
    (simp_all split: option.split)

lemma safe_get_id: "IsObject doc \<Longrightarrow> safe (get_id doc)"
  by (cases doc) (auto simp: get_id_def get_def stoi_def sto_range_def split: option.split json.split)

lemma safe_complete:
  assumes "IsObject doc" and "writer_ok (m_writer h)"
  shows "safe (fst (complete_body E rid doc h))"
proof -
  obtain ms where ms: "doc = JObject ms" using assms(1) by (cases doc) auto
  have wr: "\<exists>w. set_error_value (m_writer h) v = Inr w \<and> IsObject w" "\<exists>w. set_result (m_writer h) v = Inr w \<and> IsObject w" for v
    using assms(2) by (cases "m_writer h"; simp add: set_error_value_def set_result_def set_value_def writer_ok_def)+
  have post: "safe (fst (post_send_json E h'))" for h' :: "'a handler_scheme"
    by (simp add: post_send_json_def act_simps)
  have rest: "safe (fst (case add_members ms (h\<lparr>m_writer := w\<rparr>) of (Inl e, h) \<Rightarrow> (Inl e, h) | (Inr x, h) \<Rightarrow> post_send_json E h))"
    if "IsObject w" for w
    using add_members_result [of "h\<lparr>m_writer := w\<rparr>" ms] that post by auto
  show ?thesis
  proof (cases "get_id doc")
    case (Inr i)
    note id' = this
    show ?thesis
    proof (cases "map_of ms (bs ''error'')")
      case (Some e)
      obtain w where "set_error_value (m_writer h) e = Inr w" "IsObject w" using wr(1) by blast
      then show ?thesis using id' Some rest [of w]
        by (cases "i = rid"; cases "rid = 0")
          (simp_all add: complete_body_def act_simps check_def ms get_error_def get_result_def get_def write_doc_def members_def)
    next
      case None
      note err = this
      show ?thesis
      proof (cases "map_of ms (bs ''result'')")
        case (Some r)
        obtain w where "set_result (m_writer h) r = Inr w" "IsObject w" using wr(2) by blast
        then show ?thesis using id' err Some rest [of w]
          by (cases "i = rid"; cases "rid = 0")
            (simp_all add: complete_body_def act_simps check_def ms get_error_def get_result_def get_def write_doc_def members_def)
      qed (use id' err in \<open>cases "i = rid"; cases "rid = 0";
          simp add: complete_body_def act_simps check_def ms get_error_def get_result_def get_def\<close>)
    qed
  qed (use safe_get_id [OF assms(1)] in \<open>simp add: complete_body_def act_simps\<close>)
qed

lemma on_complete_once:
  fixes h :: "'a handler_scheme"
  assumes "object_text E answer"
  shows "\<exists>t h'. on_complete E i answer h = (Inr (), h') \<and> posted h' = posted h @ [SendJson t]"
proof -
  let ?body = "andThen (assign (\<lambda>h :: 'a handler_scheme. h\<lparr>m_writer := writer_reset (m_writer h)\<rparr>)) (\<lambda>_.
      case reader_parse (lib E) answer of None \<Rightarrow> raise (InvalidParam (bs ''Invalid response json''))
      | Some doc \<Rightarrow> complete_body E i doc)"
  have eq: "on_complete E i answer = END_TRY E () (post_send_json E) ?body"
    unfolding on_complete_def complete_body_def ..
  have one: "posts_one ?body"
    by (intro posts_one_andThen unchanged_act) (auto intro: posts_one_act posts_one_complete split: option.split)
  have "writer_ok (m_writer (h\<lparr>m_writer := writer_reset (m_writer h)\<rparr>))" by (simp add: writer_reset_ok)
  from safe_complete [OF _ this] have safe: "safe (fst (?body h))"
    using assms by (cases "reader_parse (lib E) answer") (simp_all add: object_text_def act_simps)
  obtain x h' where run: "END_TRY E () (post_send_json E) ?body h = (x, h')"
    by (cases "END_TRY E () (post_send_json E) ?body h")
  then have "\<exists>u. x = Inr u"
  proof (cases rule: END_TRY_cases)
    case (escaped e)
    then show ?thesis using safe by (simp add: error_of_escapes)
  next
    case (caught e h1 w)
    then show ?thesis by (auto simp: act_simps post_send_json_def)
  qed simp
  then show ?thesis using run posts_one_END_TRY [OF one] by (fastforce simp: eq)
qed

end
