(* ===== verification/Replies.thy ===== *)
theory Replies
  imports ServerSpec PlainRequests
begin

text \<open>
  Every request that a client may send without harm is answered exactly once: what is asked and what is
  written on a connection, and what it is still owed, balance in every run of the process.
\<close>

section \<open>The books\<close>

text \<open>The replies a connection is still owed: what the pool holds for it, and its requests to the server
  whose callback is still to be called.\<close>

definition conn_of :: "process \<Rightarrow> nat \<Rightarrow> nat" where "conn_of p j = fst (p_tasks p ! j)"

definition owed_pool :: "process \<Rightarrow> nat \<Rightarrow> nat \<times> posted \<Rightarrow> nat" where
  "owed_pool p i e = (if conn_of p (fst e) = i then 1 else 0)"

definition owed_request :: "process \<Rightarrow> nat \<Rightarrow> nat \<times> request \<times> continuation \<Rightarrow> nat" where
  "owed_request p i e = (if conn_of p (fst e) = i \<and> calls (fst (snd e)) = [] then 1 else 0)"

definition owed :: "process \<Rightarrow> nat \<Rightarrow> nat" where
  "owed p i = sum_list (map (owed_pool p i) (p_pool p)) + sum_list (map (owed_request p i) (p_requests p))"

definition settled :: "process \<Rightarrow> nat \<Rightarrow> bool" where
  "settled p i \<longleftrightarrow> length (c_written (p_conns p ! i)) + owed p i = length (c_asked (p_conns p ! i))"

definition net_task :: "process \<Rightarrow> nat \<Rightarrow> bool" where
  "net_task p j \<longleftrightarrow> j < length (p_tasks p) \<and> conn_of p j < length (p_conns p)
     \<and> (\<exists>t h. snd (p_tasks p ! j) = (t, LiveNetwork h))"

definition books :: "process \<Rightarrow> bool" where
  "books p \<longleftrightarrow>
     (\<forall>(j, r, k) \<in> set (p_requests p). net_task p j \<and> request_ok r \<and> IsObject (req_result r) \<and> (\<exists>rid. k = OnComplete rid))
   \<and> (\<forall>(j, x) \<in> set (p_pool p). net_task p j \<and> (\<exists>t. x = SendJson t))
   \<and> (\<forall>i < length (p_conns p). settled p i)"

section \<open>One step of a request to the server\<close>

text \<open>The result stays an object, and the callback is called with the print of one.\<close>

definition calls_back :: "http_lib \<Rightarrow> request \<Rightarrow> request \<Rightarrow> bool" where
  "calls_back L r r' \<longleftrightarrow> IsObject (req_result r')
     \<and> (calls r' = calls r \<or> (\<exists>doc. IsObject doc \<and> calls r' = calls r @ [stringify (json_lib.truncate L) doc]))"

lemma writer_object: "writer_ok w \<Longrightarrow> IsObject w"
  by (cases w) (simp_all add: writer_ok_def)

lemma calls_back_perform:
  "IsObject (req_result r) \<Longrightarrow> calls r = calls r0 \<Longrightarrow> calls_back L r0 (perform_callback L r)"
  by (auto simp: calls_back_def perform_callback_def get_result_text_def)

lemma calls_back_same: "IsObject (req_result r) \<Longrightarrow> calls r = calls r0 \<Longrightarrow> calls_back L r0 r"
  by (simp add: calls_back_def)

text \<open>A handler that begins with \<open>error_handler\<close>: it goes on, or it has called back and returns.\<close>

lemma error_handler_then:
  assumes "rbind (error_handler L e r) F = Inr r'" and "writer_ok (req_result r)" and "m_async r" and "calls r = calls r0"
  obtains "F (False, r) = Inr r'" | r1 where "F (True, r1) = Inr r'" and "calls_back L r0 r1"
  using assms(2,3)
proof (cases rule: error_handler_ok [where e = e and L = L])
  case 1
  then show ?thesis using assms(1) that(1) by simp
next
  case (2 w)
  let ?r = "perform_callback L (r\<lparr>m_timer := timer_stop (m_timer r),
      m_connect_timer := timer_stop (m_connect_timer r), req_result := w\<rparr>)"
  have "F (True, ?r) = Inr r'" using 2 assms(1) by simp
  moreover have "calls_back L r0 ?r" using 2(2) assms(4) by (intro calls_back_perform) (simp_all add: writer_object)
  ultimately show ?thesis by (rule that(2))
qed

lemma plain_calls_back:
  assumes "rbind (error_handler L e r) (\<lambda>(b, r). Inr (if b then r else g r)) = Inr r'"
    and "writer_ok (req_result r)" and "m_async r" and "calls r = calls r0"
    and "req_result (g r) = req_result r" and "calls (g r) = calls r"
  shows "calls_back L r0 r'"
  by (rule error_handler_then [OF assms(1-4)]) (use assms(2,4-6) writer_object in \<open>auto simp: calls_back_def\<close>)

fun polite_net :: "service \<Rightarrow> net_event \<Rightarrow> bool" where
  "polite_net E (ReadDone e status body) = object_text E body"
| "polite_net E ev = True"

lemma on_read_calls_back:
  assumes "on_read (s_http E) e status body r = Inr r'" and "object_text E body"
    and "writer_ok (req_result r)" and "m_async r" and "calls r = calls r0"
  shows "calls_back (s_http E) r0 r'"
  using assms(1) unfolding on_read_def
proof (rule error_handler_then [OF _ assms(3-5)])
  obtain doc succ where parse: "writer_parse (lib E) (req_result r) (c_str body) = (doc, succ)"
    by (cases "writer_parse (lib E) (req_result r) (c_str body)")
  have doc: "succ \<Longrightarrow> IsObject doc" "\<not> succ \<Longrightarrow> writer_ok doc"
    using parse assms(2,3) by (auto simp: writer_parse_def object_text_def reader_parse_def split: option.splits)
  assume "(case (False, r) of (b, r) \<Rightarrow>
      if b then Inr r
      else let r = r\<lparr>m_timer := timer_stop (m_timer r)\<rparr>;
               (doc, succ) = writer_parse (json_lib.truncate (s_http E)) (req_result r) (c_str body)
           in rbind (if \<not> succ \<and> status \<noteq> 200
                     then set_error doc 32002 (bs ''Incorrect response http status: '' @ reason (s_http E) status)
                     else Inr doc) (\<lambda>doc.
              let r = perform_callback (s_http E) (r\<lparr>req_result := doc\<rparr>); r = stop_io r in Inr r)) = Inr r'"
  then obtain d where d: "(if \<not> succ \<and> status \<noteq> 200
      then set_error doc 32002 (bs ''Incorrect response http status: '' @ reason (s_http E) status) else Inr doc) = Inr d"
    and r': "r' = stop_io (perform_callback (s_http E) (r\<lparr>m_timer := timer_stop (m_timer r), req_result := d\<rparr>))"
    using parse by (auto simp: Let_def lib_def rbind_eq_Inr)
  have "IsObject d"
  proof (cases "\<not> succ \<and> status \<noteq> 200")
    case True
    then have "writer_ok doc" using doc by simp
    from set_error_ok [OF this] show ?thesis using d True by (metis Inr_inject writer_object)
  next
    case False
    then show ?thesis using d doc writer_object by (cases succ) auto
  qed
  then show ?thesis
    unfolding r' using assms(5) calls_back_perform
    by (auto simp: stop_io_def calls_back_def perform_callback_def get_result_text_def)
qed simp

lemma request_timer_calls_back:
  assumes fire: "fire_request_timer L r = Inr r'" and ok: "request_ok r" "IsObject (req_result r)"
  shows "calls_back L r r'"
proof (cases "t_handler (m_timer r) = None")
  case True
  then show ?thesis using fire ok(2) by (auto simp: fire_request_timer_def timer_fire_def calls_back_def Let_def)
next
  case False
  then have "writer_ok (req_result r)" using ok(1) by (auto simp: request_ok_def after_connect_def)
  from set_error_ok [OF this] obtain w where
    w: "set_error (req_result r) 32001 (bs ''Request timeout'') = Inr w" "writer_ok w" by blast
  from writer_object [OF w(2)] show ?thesis using False fire w(1)
    by (fastforce simp: fire_request_timer_def timer_fire_def timer_fired_def on_request_timeout_def Let_def
        calls_back_def perform_callback_def get_result_text_def)
qed

lemma net_handler_calls_back:
  assumes ok: "request_ok r" "IsObject (req_result r)" and "polite_net E ev" and step: "net_handler (s_http E) ev r = Some s"
  shows "\<exists>r'. s = Inr r' \<and> request_ok r' \<and> calls_back (s_http E) r r'"
proof -
  have "step (s_http E) r s" using step net_handler_step by blast
  from step_ok [OF this ok(1)] obtain r' where r': "s = Inr r'" "request_ok r'" by blast
  have due: "writer_ok (req_result r0) \<and> m_async r0 \<and> calls r0 = calls r"
    if "pending_op r \<noteq> None" "r0 = r\<lparr>pending_op := None\<rparr>" for r0
    using that ok(1) by (simp add: request_ok_def)
  have "calls_back (s_http E) r r'"
  proof (cases ev)
    case (ReadDone e status body)
    then show ?thesis
      using step r'(1) assms(3) due on_read_calls_back [of E e status body "r\<lparr>pending_op := None\<rparr>" r' r]
      by (auto simp: on_completion_def split: if_splits)
  next
      case RequestTimer
    then have "fire_request_timer (s_http E) r = Inr r'" using step r'(1) by (simp split: if_splits)
    then show ?thesis by (rule request_timer_calls_back [OF _ ok])
  next
    case ConnectTimer
    then show ?thesis using step r'(1) ok(2)
      by (auto simp: fire_connect_timer_def timer_fire_def on_connect_timeout_def Let_def calls_back_def split: if_splits)
  next
    case (Connected e)
    then show ?thesis using step r'(1) due
      by (auto simp: on_completion_def on_connect_def Let_def split: if_splits intro: plain_calls_back)
  next
    case (Resolved e)
    then show ?thesis using step r'(1) due
      by (auto simp: on_completion_def on_resolve_def split: if_splits intro: plain_calls_back)
  next
    case (Shaken e)
    then show ?thesis using step r'(1) due
      by (auto simp: on_completion_def on_handshake_def split: if_splits intro: plain_calls_back)
  next
    case (Written e)
    then show ?thesis using step r'(1) due
      by (auto simp: on_completion_def on_write_def split: if_splits intro: plain_calls_back)
  qed
  with r' show ?thesis by blast
qed

text \<open>What the actions do to the books.\<close>

lemma sum_list_take_drop:
  "m < length xs \<Longrightarrow> sum_list (map f xs) = (f (xs ! m) :: nat) + sum_list (map f (take m xs @ drop (Suc m) xs))"
proof -
  assume "m < length xs"
  then have "xs = take m xs @ xs ! m # drop (Suc m) xs" by (rule id_take_nth_drop)
  then have "sum_list (map f xs) = sum_list (map f (take m xs @ xs ! m # drop (Suc m) xs))" by simp
  then show ?thesis by simp
qed

lemma sum_list_map_update:
  "n < length xs \<Longrightarrow> sum_list (map f (xs[n := y])) + f (xs ! n) = sum_list (map f xs) + (f y :: nat)"
  by (induction xs arbitrary: n) (auto split: nat.split)

lemma posted_base [simp]:
  "posted (base_of (LiveNetwork h)) = posted h" "posted (base_of (LiveGenerate h')) = posted h'"
  "posted (base_of (LiveTx h'')) = posted h''"
  by (simp_all add: base_of.simps handler.truncate_def)

declare base_of.simps [simp del]

text \<open>The books look at four fields only.\<close>

lemma books_fields:
  assumes "p_conns q = p_conns p" and "p_tasks q = p_tasks p" and "p_requests q = p_requests p" and "p_pool q = p_pool p"
  shows "books q = books p"
proof -
  have c: "conn_of q = conn_of p" by (rule ext) (simp add: conn_of_def assms(2))
  have o: "owed q = owed p"
    by (rule ext) (simp add: owed_def owed_pool_def [abs_def] owed_request_def [abs_def] c assms(3,4))
  have t: "net_task q = net_task p" by (rule ext) (simp add: net_task_def c assms(1,2))
  show ?thesis by (simp add: books_def settled_def o t assms)
qed

lemma owed_cong:
  assumes "p_requests q = p_requests p" and "p_pool q = p_pool p"
    and "\<And>e. e \<in> set (p_pool p) \<Longrightarrow> conn_of q (fst e) = conn_of p (fst e)"
    and "\<And>e. e \<in> set (p_requests p) \<Longrightarrow> conn_of q (fst e) = conn_of p (fst e)"
  shows "owed q i = owed p i"
proof -
  have "map (owed_pool q i) (p_pool p) = map (owed_pool p i) (p_pool p)"
    using assms(3) by (simp add: owed_pool_def)
  moreover have "map (owed_request q i) (p_requests p) = map (owed_request p i) (p_requests p)"
    using assms(4) by (simp add: owed_request_def)
  ultimately show ?thesis by (simp only: owed_def assms(1,2))
qed

lemma booksD:
  assumes "books p"
  shows "e \<in> set (p_requests p) \<Longrightarrow> net_task p (fst e) \<and> request_ok (fst (snd e)) \<and> IsObject (req_result (fst (snd e)))
      \<and> (\<exists>rid. snd (snd e) = OnComplete rid)"
    and "e' \<in> set (p_pool p) \<Longrightarrow> net_task p (fst e') \<and> (\<exists>t. snd e' = SendJson t)"
    and "i < length (p_conns p) \<Longrightarrow> settled p i"
  using assms unfolding books_def by (fastforce split: prod.splits)+

lemma booksI:
  assumes "\<And>e. e \<in> set (p_requests p) \<Longrightarrow> net_task p (fst e) \<and> request_ok (fst (snd e)) \<and> IsObject (req_result (fst (snd e)))
      \<and> (\<exists>rid. snd (snd e) = OnComplete rid)"
    and "\<And>e. e \<in> set (p_pool p) \<Longrightarrow> net_task p (fst e) \<and> (\<exists>t. snd e = SendJson t)"
    and "\<And>i. i < length (p_conns p) \<Longrightarrow> settled p i"
  shows "books p"
  using assms unfolding books_def by (fastforce split: prod.splits)

text \<open>A new connection is owed nothing.\<close>

lemma books_accept:
  assumes "books p" and "c_asked c = []" and "c_written c = []"
  shows "books (p\<lparr>p_conns := p_conns p @ [c]\<rparr>)"
proof (rule booksI)
  let ?q = "p\<lparr>p_conns := p_conns p @ [c]\<rparr>"
  have conn: "conn_of ?q = conn_of p" by (rule ext) (simp add: conn_of_def)
  have net: "net_task p j \<Longrightarrow> net_task ?q j" for j by (auto simp: net_task_def conn)
  have owed: "owed ?q i = owed p i" for i by (rule owed_cong) (simp_all add: conn)
  show "net_task ?q (fst e) \<and> request_ok (fst (snd e)) \<and> IsObject (req_result (fst (snd e)))
      \<and> (\<exists>rid. snd (snd e) = OnComplete rid)" if "e \<in> set (p_requests ?q)" for e
    using booksD(1) [OF assms(1), of e] that net by simp
  show "net_task ?q (fst e) \<and> (\<exists>t. snd e = SendJson t)" if "e \<in> set (p_pool ?q)" for e
    using booksD(2) [OF assms(1), of e] that net by simp
  show "settled ?q i" if i: "i < length (p_conns ?q)" for i
  proof (cases "i < length (p_conns p)")
    case True
    then show ?thesis using booksD(3) [OF assms(1) True] by (simp add: settled_def owed nth_append)
  next
    case False
    then have last: "i = length (p_conns p)" using i by simp
    have "owed_pool p i e = 0" if "e \<in> set (p_pool p)" for e
      using booksD(2) [OF assms(1) that] last by (auto simp: owed_pool_def net_task_def)
    moreover have "owed_request p i e = 0" if "e \<in> set (p_requests p)" for e
      using booksD(1) [OF assms(1) that] last by (auto simp: owed_request_def net_task_def)
    ultimately have "owed p i = 0" by (simp add: owed_def)
    then show ?thesis using last assms(2,3) by (simp add: settled_def owed)
  qed
qed

text \<open>A change that may move entries between the lists, as long as every account stays balanced.\<close>

lemma books_update:
  assumes "books p" and conns: "length (p_conns q) = length (p_conns p)"
    and tasks: "\<And>j. j < length (p_tasks p) \<Longrightarrow> j < length (p_tasks q) \<and> conn_of q j = conn_of p j
      \<and> ((\<exists>t h. snd (p_tasks p ! j) = (t, LiveNetwork h)) \<longrightarrow> (\<exists>t h. snd (p_tasks q ! j) = (t, LiveNetwork h)))"
    and requests: "\<And>e. e \<in> set (p_requests q) \<Longrightarrow> e \<in> set (p_requests p) \<or> net_task q (fst e)
      \<and> request_ok (fst (snd e)) \<and> IsObject (req_result (fst (snd e))) \<and> (\<exists>rid. snd (snd e) = OnComplete rid)"
    and pool: "\<And>e. e \<in> set (p_pool q) \<Longrightarrow> e \<in> set (p_pool p) \<or> net_task q (fst e) \<and> (\<exists>t. snd e = SendJson t)"
    and account: "\<And>i. i < length (p_conns p) \<Longrightarrow> settled p i \<Longrightarrow> settled q i"
  shows "books q"
proof (rule booksI)
  have net: "net_task p j \<Longrightarrow> net_task q j" for j
    using tasks [of j] unfolding net_task_def conns by auto
  show "net_task q (fst e) \<and> request_ok (fst (snd e)) \<and> IsObject (req_result (fst (snd e)))
      \<and> (\<exists>rid. snd (snd e) = OnComplete rid)" if "e \<in> set (p_requests q)" for e
    using requests [OF that] booksD(1) [OF assms(1)] net by blast
  show "net_task q (fst e) \<and> (\<exists>t. snd e = SendJson t)" if "e \<in> set (p_pool q)" for e
    using pool [OF that] booksD(2) [OF assms(1)] net by blast
  show "settled q i" if "i < length (p_conns q)" for i
    using account booksD(3) [OF assms(1)] that conns by simp
qed

text \<open>A request to the server that has just started.\<close>

lemma started_new:
  assumes "started E r"
  shows "request_ok r" "IsObject (req_result r)" "calls r = []"
proof -
  from assms obtain host path body r0 where r: "prepared (lib E) host path body = Inr r0" "r = execute_async True r0"
    unfolding started_def by blast
  then show "request_ok r" "IsObject (req_result r)" "calls r = []"
    using start_ok(1) [OF r(1)] prepared_fresh(5,6) [OF r(1)] writer_object
    by (auto simp: r(2) execute_async_def Let_def split: prod.split)
qed

text \<open>A request is answered at once; the task that did it, if there was one, is done.\<close>

lemma books_now:
  assumes p: "books p" and i: "i < length (p_conns p)" and "length out = 1"
    and same: "p_requests q = p_requests p" "p_pool q = p_pool p" "p_tasks q = p_tasks p @ ts"
    and conns: "p_conns q = (p_conns p)[i := (p_conns p ! i)\<lparr>c_asked := c_asked (p_conns p ! i) @ [req],
      c_written := c_written (p_conns p ! i) @ out\<rparr>]"
  shows "books q"
proof -
  have conn: "j < length (p_tasks p) \<Longrightarrow> conn_of q j = conn_of p j" for j by (simp add: conn_of_def same nth_append)
  have owed: "owed q k = owed p k" for k
    by (rule owed_cong) (use booksD(1,2) [OF p] in \<open>simp_all add: same conn net_task_def\<close>)
  show ?thesis
    by (rule books_update [OF p])
      (use assms(3) i in \<open>auto simp: same conn conns settled_def owed nth_list_update nth_append\<close>)
qed

text \<open>A request is answered later: a request to the server is under way.\<close>

lemma books_later:
  fixes p q :: process
  defines "n \<equiv> length (p_tasks p)"
  assumes p: "books p" and i: "i < length (p_conns p)"
    and new: "request_ok r" "IsObject (req_result r)" "calls r = []"
    and same: "p_requests q = p_requests p @ [(n, r, OnComplete rid)]" "p_pool q = p_pool p"
      "p_tasks q = p_tasks p @ [(i, t, LiveNetwork h)]"
    and conns: "p_conns q = (p_conns p)[i := (p_conns p ! i)\<lparr>c_asked := c_asked (p_conns p ! i) @ [req]\<rparr>]"
  shows "books q"
proof -
  have conn: "j < n \<Longrightarrow> conn_of q j = conn_of p j" "conn_of q n = i" for j
    by (simp_all add: conn_of_def same nth_append n_def)
  have "owed_pool q k e = owed_pool p k e" if "e \<in> set (p_pool p)" for e k
    using booksD(2) [OF p that] by (simp add: owed_pool_def conn net_task_def n_def)
  moreover have "owed_request q k e = owed_request p k e" if "e \<in> set (p_requests p)" for e k
    using booksD(1) [OF p that] by (simp add: owed_request_def conn net_task_def n_def)
  ultimately have owed: "owed q k = owed p k + (if k = i then 1 else 0)" for k
    unfolding owed_def same by (simp add: owed_request_def conn new(3) cong: map_cong)
  show ?thesis
    by (rule books_update [OF p])
      (use i new conn in \<open>auto simp: same conns settled_def owed nth_list_update nth_append net_task_def n_def\<close>)
qed

lemma p_conns_update_conn: "p_conns (update_conn i f p) = (p_conns p)[i := f (p_conns p ! i)]"
  by (simp add: update_conn_def)

lemma books_request:
  assumes E: "service_ok E" and p: "books p" and i: "i < length (p_conns p)"
    and req: "readable E req" "\<not> asks_tx E req"
  defines "q \<equiv> on_request E i req True True p"
  shows "books q" and "p_main q = p_main p"
proof -
  let ?p = "update_conn i (\<lambda>c. c\<lparr>c_asked := c_asked c @ [req]\<rparr>) p"
  from process_request_plain [OF E req, of "p_disk p"] obtain out l where
    l: "process_request E (p_disk p) req = Inr (out, l)" "answers_once E out l" by blast
  have "books q \<and> p_main q = p_main p"
  proof (cases l)
    case None
    then have q: "q = update_conn i (\<lambda>c. c\<lparr>c_written := c_written c @ out\<rparr>) ?p"
      using l(1) by (simp add: q_def on_request_def Let_def write_to_def)
    have "books q"
      by (rule books_now [OF p i, where ts = "[]" and out = out and req = req])
        (use None l(2) i in \<open>simp_all add: q answers_once_def p_conns_update_conn\<close>)
    then show ?thesis by (simp add: q)
  next
    case (Some x)
    obtain t l' where x: "x = (t, l')" by (cases x)
    from l(2) Some x consider (now) "silent l'" "length out = 1" | (later) "awaits E l'" "out = []"
      by (auto simp: answers_once_def)
    then show ?thesis
    proof cases
      case now
      then have "posted (base_of l') = []" by (cases l') simp_all
      then have q: "q = update_conn i (\<lambda>c. c\<lparr>c_written := c_written c @ out\<rparr>)
          (?p\<lparr>p_disk := disk (base_of l'), p_tasks := p_tasks p @ [(i, t, l')]\<rparr>)"
        using l(1) Some x by (simp add: q_def on_request_def Let_def write_to_def)
      have "books q"
        by (rule books_now [OF p i now(2), where ts = "[(i, t, l')]" and req = req])
          (use i in \<open>simp_all add: q p_conns_update_conn\<close>)
      then show ?thesis by (simp add: q)
    next
      case later
      then obtain h r where h: "l' = LiveNetwork h" "posted h = [SendRequest r (OnComplete (m_id h))]" "started E r"
        by (cases l') auto
      from started_new [OF h(3)] have new: "request_ok r" "IsObject (req_result r)" "calls r = []" .
      have q: "q = ?p\<lparr>p_disk := disk (base_of l'), p_tasks := p_tasks p @ [(i, t, l')],
          p_requests := p_requests p @ [(length (p_tasks p), r, OnComplete (m_id h))]\<rparr>"
        using l(1) Some x later h(2) i unfolding q_def on_request_def Let_def h(1)
        by (cases p) (simp add: write_to_def update_conn_def)
      have "books q"
        by (rule books_later [OF p i new, where rid = "m_id h" and t = t and h = h and req = req])
          (simp_all add: q h(1) p_conns_update_conn)
      then show ?thesis by (simp add: q)
    qed
  qed
  then show "books q" and "p_main q = p_main p" by simp_all
qed

text \<open>A posted reply is written.\<close>

lemma books_posted:
  fixes E :: service
  assumes p: "books p" and m: "m < length (p_pool p)" and e: "p_pool p ! m = (j, x)"
  defines "q \<equiv> run_posted E j x True (p\<lparr>p_pool := take m (p_pool p) @ drop (Suc m) (p_pool p)\<rparr>)"
  shows "books q" and "p_main q = p_main p"
proof -
  have mem: "(j, x) \<in> set (p_pool p)" using nth_mem [OF m] e by simp
  from booksD(2) [OF p mem] obtain reply t h where x: "x = SendJson reply" and net: "net_task p j"
    and task: "snd (p_tasks p ! j) = (t, LiveNetwork h)" by (auto simp: net_task_def)
  define i where "i = conn_of p j"
  have i: "i < length (p_conns p)" using net by (simp add: net_task_def i_def)
  have "p_tasks p ! j = (i, t, LiveNetwork h)" using task by (simp add: i_def conn_of_def prod_eq_iff)
  then have q: "q = update_conn i (\<lambda>c. c\<lparr>c_written := c_written c @ [send_json reply]\<rparr>)
      (p\<lparr>p_pool := take m (p_pool p) @ drop (Suc m) (p_pool p)\<rparr>)"
    by (simp add: q_def run_posted_def x write_to_def)
  have same: "p_requests q = p_requests p" "p_pool q = take m (p_pool p) @ drop (Suc m) (p_pool p)"
    "p_tasks q = p_tasks p" by (simp_all add: q)
  then have conn: "conn_of q = conn_of p" by (intro ext) (simp add: conn_of_def)
  have owed: "owed p k = owed q k + (if k = i then 1 else 0)" for k
    unfolding owed_def same(1,2) sum_list_take_drop [OF m, of "owed_pool p k"] e
    by (simp add: owed_pool_def [abs_def] owed_request_def [abs_def] conn i_def)
  have sub: "set (p_pool q) \<subseteq> set (p_pool p)" unfolding same by (auto dest: in_set_takeD in_set_dropD)
  have conns: "p_conns q = (p_conns p)[i := (p_conns p ! i)\<lparr>c_written := c_written (p_conns p ! i) @ [send_json reply]\<rparr>]"
    by (simp add: q update_conn_def)
  show "books q"
    by (rule books_update [OF p]) (use sub i in \<open>auto simp: same(1,3) conn conns settled_def owed nth_list_update\<close>)
  show "p_main q = p_main p" by (simp add: q)
qed

text \<open>A request to the server goes on.\<close>

lemma in_list_update: "e \<in> set (xs[n := y]) \<Longrightarrow> e \<in> set xs \<or> e = y"
  using set_update_subset_insert by fastforce

lemma owed_update:
  assumes "n < length (p_requests p)" and "p_requests p ! n = (j, r, k)"
  shows "owed (p\<lparr>p_requests := (p_requests p)[n := (j, r', k)]\<rparr>) x + owed_request p x (j, r, k)
    = owed p x + owed_request p x (j, r', k)"
  using sum_list_map_update [OF assms(1), of "owed_request p x" "(j, r', k)"] assms(2)
  by (simp add: owed_def owed_pool_def [abs_def] owed_request_def [abs_def] conn_of_def)

lemma books_goes_on:
  assumes p: "books p" and n: "n < length (p_requests p)" "p_requests p ! n = (j, r, OnComplete rid)"
    and r': "request_ok r'" "IsObject (req_result r')" "calls r' = calls r"
  shows "books (p\<lparr>p_requests := (p_requests p)[n := (j, r', OnComplete rid)]\<rparr>)" (is "books ?q")
proof (rule books_update [OF p])
  have net: "net_task p j" using booksD(1) [OF p, of "(j, r, OnComplete rid)"] n nth_mem by fastforce
  have owed: "owed ?q x = owed p x" for x using owed_update [OF n, of r' x] r'(3) by (simp add: owed_request_def)
  show "e \<in> set (p_requests p) \<or> net_task ?q (fst e) \<and> request_ok (fst (snd e)) \<and> IsObject (req_result (fst (snd e)))
      \<and> (\<exists>rid. snd (snd e) = OnComplete rid)" if "e \<in> set (p_requests ?q)" for e
    using in_list_update [of e "p_requests p" n "(j, r', OnComplete rid)"] that net r'(1,2) by (auto simp: net_task_def conn_of_def)
  show "settled ?q x" if "settled p x" for x using that by (simp add: settled_def owed)
qed (auto simp: conn_of_def)

text \<open>It calls back, and the reply is posted.\<close>

lemma books_called_back:
  assumes p: "books p" and n: "n < length (p_requests p)" "p_requests p ! n = (j, r, OnComplete rid)"
    and tj: "p_tasks p ! j = (i, t, LiveNetwork h)"
    and r': "request_ok r'" "IsObject (req_result r')" "calls r = []" "calls r' = [txt]"
    and same: "p_tasks q = (p_tasks p)[j := (i, t, LiveNetwork h')]" "p_pool q = p_pool p @ [(j, SendJson reply)]"
      "p_requests q = (p_requests p)[n := (j, r', OnComplete rid)]" "p_conns q = p_conns p"
  shows "books q"
proof (rule books_update [OF p])
  let ?p = "p\<lparr>p_requests := (p_requests p)[n := (j, r', OnComplete rid)]\<rparr>"
  have net: "net_task p j" using booksD(1) [OF p, of "(j, r, OnComplete rid)"] n nth_mem by fastforce
  then have j: "j < length (p_tasks p)" "i < length (p_conns p)" by (simp_all add: net_task_def conn_of_def tj)
  have conn: "conn_of q = conn_of p"
    by (rule ext) (use j(1) tj in \<open>auto simp: conn_of_def same(1) nth_list_update\<close>)
  have owed: "owed q x = owed p x" for x
  proof -
    have "conn_of ?p = conn_of p" "conn_of p j = i" by (intro ext, simp add: conn_of_def) (simp add: conn_of_def tj)
    then have "owed q x = owed ?p x + (if x = i then 1 else 0)"
      by (simp add: owed_def same(2,3) owed_pool_def [abs_def] owed_request_def [abs_def] conn)
    then show ?thesis using owed_update [OF n, of r' x] r'(3,4) by (simp add: owed_request_def conn_of_def tj split: if_splits)
  qed
  have new: "net_task q j" using j by (simp add: net_task_def conn same(1,4)) (simp add: conn_of_def tj)
  show "e \<in> set (p_requests p) \<or> net_task q (fst e) \<and> request_ok (fst (snd e)) \<and> IsObject (req_result (fst (snd e)))
      \<and> (\<exists>rid. snd (snd e) = OnComplete rid)" if "e \<in> set (p_requests q)" for e
    using in_list_update [of e "p_requests p" n "(j, r', OnComplete rid)"] that new r'(1,2) by (auto simp: same(3))
  show "x < length (p_tasks q) \<and> conn_of q x = conn_of p x \<and>
      ((\<exists>t h. snd (p_tasks p ! x) = (t, LiveNetwork h)) \<longrightarrow> (\<exists>t h. snd (p_tasks q ! x) = (t, LiveNetwork h)))"
    if "x < length (p_tasks p)" for x
    using that by (cases "x = j") (simp_all add: conn same(1))
  show "e \<in> set (p_pool p) \<or> net_task q (fst e) \<and> (\<exists>t. snd e = SendJson t)" if "e \<in> set (p_pool q)" for e
    using that new by (auto simp: same(2))
  show "settled q x" if "settled p x" for x using that by (simp add: same(4) settled_def owed)
qed (simp add: same(4))

lemma books_net:
  assumes E: "service_ok E" and p: "books p" and n: "n < length (p_requests p)" and e: "p_requests p ! n = (j, r, k)"
    and "polite_net E ev" and step: "net_handler (s_http E) ev r = Some s"
  defines "q \<equiv> on_net E n s p"
  shows "books q" and "p_main q = p_main p"
    and "\<exists>r' x. s = Inr r' \<and> p_requests q = (p_requests p)[n := (j, r', k)] \<and> p_pool q = p_pool p @ x \<and> length x \<le> 1"
proof -
  have mem: "(j, r, k) \<in> set (p_requests p)" using nth_mem [OF n] e by simp
  from booksD(1) [OF p mem] obtain rid t h where k: "k = OnComplete rid" and r: "request_ok r" "IsObject (req_result r)"
    and task: "snd (p_tasks p ! j) = (t, LiveNetwork h)" by (auto simp: net_task_def)
  obtain i where tj: "p_tasks p ! j = (i, t, LiveNetwork h)" using task by (cases "p_tasks p ! j") simp
  from net_handler_calls_back [OF r assms(5) step] obtain r' where
    r': "s = Inr r'" "request_ok r'" "IsObject (req_result r')"
    "calls r' = calls r \<or> (\<exists>doc. IsObject doc \<and> calls r' = calls r @ [stringify (lib E) doc])"
    by (auto simp: calls_back_def lib_def)
  let ?p = "p\<lparr>p_requests := (p_requests p)[n := (j, r', k)]\<rparr>"
  have "books q \<and> p_main q = p_main p \<and> p_requests q = p_requests ?p \<and> (\<exists>x. p_pool q = p_pool p @ x \<and> length x \<le> 1)"
    using r'(4)
  proof (elim disjE exE conjE)
    assume same: "calls r' = calls r"
    then have q: "q = ?p" by (simp add: q_def on_net_def r'(1) e Let_def)
    show ?thesis unfolding q k using books_goes_on [OF p n e [unfolded k] r'(2,3) same] by simp
  next
    fix doc
    assume doc: "IsObject doc" "calls r' = calls r @ [stringify (lib E) doc]"
    then have none: "calls r = []" using r'(2) by (cases "calls r") (auto simp: request_ok_def split: if_splits)
    have "object_text E (stringify (lib E) doc)"
      using E doc(1) unfolding service_ok_def prints_objects_def object_text_def by (cases doc) (auto split: option.split)
    from on_complete_once [OF this, of rid "h\<lparr>disk := p_disk p\<rparr>"] obtain reply h' where
      h': "on_complete E rid (stringify (lib E) doc) (h\<lparr>disk := p_disk p\<rparr>) = (Inr (), h')"
        "posted h' = posted h @ [SendJson reply]" by auto
    have q: "q = ?p\<lparr>p_disk := disk (base_of (LiveNetwork h')), p_tasks := (p_tasks p)[j := (i, t, LiveNetwork h')],
        p_pool := p_pool p @ [(j, SendJson reply)]\<rparr>"
      using tj h' by (simp add: q_def on_net_def r'(1) e Let_def doc(2) none k resume_def continued_def)
    have "books q"
      by (rule books_called_back [OF p n e [unfolded k] tj r'(2,3) none]) (simp_all add: q k doc(2) none)
    then show ?thesis by (simp add: q)
  qed
  then show "books q" and "p_main q = p_main p"
    and "\<exists>r' x. s = Inr r' \<and> p_requests q = (p_requests p)[n := (j, r', k)] \<and> p_pool q = p_pool p @ x \<and> length x \<le> 1"
    by (auto simp: r'(1))
qed

section \<open>Every run\<close>

text \<open>Clients, server and system as one may wish them: sockets that work, requests the service can read, no
  transactions, and from the remote server no JSON but objects.\<close>

fun polite :: "service \<Rightarrow> action \<Rightarrow> bool" where
  "polite E (Listen opened) = opened"
| "polite E (Accept c) = (case c of None \<Rightarrow> True | Some (ep, shutdown_ok) \<Rightarrow> ep \<noteq> None \<and> shutdown_ok)"
| "polite E (Request i req peer_ok write_ok) = (peer_ok \<and> write_ok \<and> readable E req \<and> \<not> asks_tx E req)"
| "polite E (Net n ev) = polite_net E ev"
| "polite E (RunPosted m socket_ok) = socket_ok"
| "polite E _ = True"

definition unharmed :: "process \<Rightarrow> bool" where
  "unharmed p \<longleftrightarrow> p_main p \<notin> {Terminated, Misbehaved}"

lemma act_books:
  assumes "service_ok E" and "books p" and "act E a p = Some q" and "polite E a"
    and "p_main p \<noteq> Starting" and "unharmed p"
  shows "books q \<and> unharmed q \<and> p_main q \<noteq> Starting"
proof (cases a)
  case (Accept c)
  then show ?thesis
    using assms books_fields [of "p" p]
    by (auto simp: on_accept_def unharmed_def intro: books_accept split: if_splits option.splits prod.splits)
next
  case (Request i req peer_ok write_ok)
  then show ?thesis using assms books_request [OF assms(1,2)] by (auto simp: unharmed_def split: if_splits)
next
  case (Net n ev)
  then obtain j r k s where s: "n < length (p_requests p)" "p_requests p ! n = (j, r, k)"
    "net_handler (s_http E) ev r = Some s" "q = on_net E n s p"
    using assms(3) by (auto split: if_splits prod.splits)
  then show ?thesis using books_net [OF assms(1,2) s(1,2) _ s(3)] assms(4-6) Net by (simp add: unharmed_def)
next
  case (RunPosted m ok)
  then obtain j x where x: "m < length (p_pool p)" "p_pool p ! m = (j, x)"
    "q = run_posted E j x ok (p\<lparr>p_pool := take m (p_pool p) @ drop (Suc m) (p_pool p)\<rparr>)"
    using assms(3) by (auto split: if_splits prod.splits)
  then show ?thesis using books_posted [OF assms(2) x(1,2)] assms(4-6) RunPosted by (simp add: unharmed_def)
next
  case (ReadEnd i)
  then have i: "i < length (p_conns p)" and q: "q = update_conn i (\<lambda>c. c\<lparr>c_reading := False\<rparr>) p"
    using assms(3) by (auto split: if_splits)
  have same: "p_requests q = p_requests p" "p_pool q = p_pool p" "p_tasks q = p_tasks p" by (simp_all add: q)
  then have conn: "conn_of q = conn_of p" by (intro ext) (simp add: conn_of_def)
  have owed: "owed q k = owed p k" for k by (rule owed_cong) (simp_all add: same conn)
  have conns_q: "p_conns q = (p_conns p)[i := (p_conns p ! i)\<lparr>c_reading := False\<rparr>]" by (simp add: q update_conn_def)
  have "books q"
    by (rule books_update [OF assms(2)]) (use i in \<open>auto simp: same conn conns_q settled_def owed nth_list_update\<close>)
  then show ?thesis using assms(5,6) by (simp add: q unharmed_def)
qed (use assms books_fields [of q p] in \<open>auto simp: on_listen_def on_word_def unharmed_def split: if_splits\<close>)

interpretation service: run_invariant E "polite E" "\<lambda>p. service_ok E \<and> books p \<and> unharmed p \<and> p_main p \<noteq> Starting" for E
  by unfold_locales (use act_books in blast)

lemma books_initial: "books (initial_process fs)"
  by (simp add: books_def initial_process_def)

lemma polite_run:
  assumes "service_ok E" and "reaches E (initial_process fs) (Construct # as) p" and "list_all (polite E) as"
  shows "books p \<and> unharmed p \<and> p_main p \<noteq> Starting"
proof -
  let ?p = "(initial_process fs)\<lparr>p_main := Created\<rparr>"
  from reaches_Cons [OF assms(2)] have "reaches E ?p as p" by (simp add: initial_process_def)
  moreover have "books ?p" using books_initial books_fields [of ?p "initial_process fs"] by simp
  ultimately show ?thesis using service.run [OF _ assms(3)] assms(1) by (auto simp: unharmed_def initial_process_def)
qed

section \<open>Delivery\<close>

text \<open>A request that has not called back is due for a handler: of its operation, which may fail, or of its
  timer.\<close>

lemma due:
  assumes "request_ok r" and "calls r = []"
  shows "\<exists>ev s. polite_net E ev \<and> net_handler (s_http E) ev r = Some s"
proof -
  have r: "m_callback r" "\<not> io_stopped r" "pending_op r \<noteq> None" using assms by (auto simp: request_ok_def split: if_splits)
  then obtain x where x: "pending_op r = Some x" by auto
  show ?thesis
  proof (cases x)
    case Read
    then have "t_waiting (m_timer r)" using assms(1) r(1) x by (auto simp: request_ok_def after_connect_def)
    then have "net_handler (s_http E) RequestTimer r = Some (fire_request_timer (s_http E) r)" by simp
    then show ?thesis by (intro exI [of _ RequestTimer]) simp
  next
    case Resolve
    then show ?thesis using r x by (intro exI [of _ "Resolved (0, 1)"]) (simp add: on_completion_def)
  next
    case Connect
    then show ?thesis using r x by (intro exI [of _ "Connected (0, 1)"]) (simp add: on_completion_def)
  next
    case Handshake
    then show ?thesis using r x by (intro exI [of _ "Shaken (0, 1)"]) (simp add: on_completion_def)
  next
    case Write
    then show ?thesis using r x by (intro exI [of _ "Written (0, 1)"]) (simp add: on_completion_def)
  qed
qed

text \<open>What is still to be done, and a step that leaves less.\<close>

definition to_do :: "process \<Rightarrow> nat" where
  "to_do p = sum_list (map (\<lambda>(j, r, k). 2 * work r) (p_requests p)) + length (p_pool p)"

definition asked :: "process \<Rightarrow> http_request list list" where
  "asked p = map c_asked (p_conns p)"

lemma asked_update_conn: "(\<And>c. c_asked (f c) = c_asked c) \<Longrightarrow> asked (update_conn i f p) = asked p"
  unfolding asked_def by (cases "i < length (p_conns p)")
    (simp_all add: update_conn_def map_update list_update_same_conv list_update_beyond)

lemma owed_none:
  assumes "p_pool p = []" and "\<And>e. e \<in> set (p_requests p) \<Longrightarrow> calls (fst (snd e)) \<noteq> []"
  shows "owed p i = 0"
proof -
  have "map (owed_request p i) (p_requests p) = map (\<lambda>_. 0) (p_requests p)"
    using assms(2) by (simp add: owed_request_def)
  then show ?thesis by (simp add: owed_def assms(1))
qed

lemma progress:
  assumes E: "service_ok E" and p: "books p" and io: "io_running p"
  shows "(\<forall>i. owed p i = 0) \<or> (\<exists>a q. (a = RunPosted 0 True \<or> (\<exists>n ev. a = Net n ev)) \<and> polite E a
      \<and> act E a p = Some q \<and> io_running q \<and> asked q = asked p \<and> to_do q < to_do p)"
proof (cases "p_pool p = []")
  case False
  obtain j x pool where e: "p_pool p = (j, x) # pool" using False by (cases "p_pool p") auto
  let ?q = "run_posted E j x True (p\<lparr>p_pool := pool\<rparr>)"
  from booksD(2) [OF p, of "(j, x)"] obtain t where x: "x = SendJson t" using e by auto
  have act: "act E (RunPosted 0 True) p = Some ?q" using io e by (simp add: alive_def io_running_def)
  have "p_main ?q = p_main p" "p_requests ?q = p_requests p" "p_pool ?q = pool" "asked ?q = asked p"
    by (simp_all add: x run_posted_def write_to_def asked_update_conn split: prod.split) (simp add: asked_def)
  then have "io_running ?q" "to_do ?q < to_do p" "asked ?q = asked p" using io e by (simp_all add: io_running_def to_do_def)
  then show ?thesis using act by (intro disjI2 exI [of _ "RunPosted 0 True"] exI [of _ ?q]) simp
next
  case pool: True
  show ?thesis
  proof (cases "\<exists>e \<in> set (p_requests p). calls (fst (snd e)) = []")
    case False
    then show ?thesis using owed_none [OF pool] by blast
  next
    case True
    then obtain n j r k where n: "n < length (p_requests p)" "p_requests p ! n = (j, r, k)" "calls r = []"
      by (auto simp: in_set_conv_nth)
    have ok: "request_ok r" using booksD(1) [OF p, of "(j, r, k)"] n(1,2) nth_mem by fastforce
    from due [OF this n(3)] obtain ev s where ev: "polite_net E ev" "net_handler (s_http E) ev r = Some s" by blast
    let ?q = "on_net E n s p"
    note q = books_net [OF E p n(1,2) ev]
    from q(3) obtain r' x where r': "s = Inr r'" "p_requests ?q = (p_requests p)[n := (j, r', k)]"
      "p_pool ?q = p_pool p @ x" "length x \<le> 1" by blast
    have "step (s_http E) r s" using ev(2) net_handler_step by blast
    from step_ok [OF this ok] have less: "work r' < work r" using r'(1) by auto
    have "to_do ?q < to_do p"
      using sum_list_map_update [OF n(1), of "\<lambda>(j, r, k). 2 * work r" "(j, r', k)"] less r'(3,4)
      by (simp add: to_do_def r'(2) n(2))
    moreover have "io_running ?q" "asked ?q = asked p" using io q(2) by (simp_all add: io_running_def asked_def)
    moreover have "act E (Net n ev) p = Some ?q" using io n(1,2) ev(2) by simp
    moreover have "polite E (Net n ev)" using ev(1) by simp
    ultimately show ?thesis by blast
  qed
qed

lemma delivery:
  assumes "service_ok E" and "books p" and "io_running p"
  shows "\<exists>as q. list_all (polite E) as \<and> reaches E p as q \<and> asked q = asked p \<and> books q \<and> (\<forall>i. owed q i = 0)"
  using assms(2,3)
proof (induction "to_do p" arbitrary: p rule: less_induct)
  case less
  from progress [OF assms(1) less.prems] consider (idle) "\<forall>i. owed p i = 0"
    | (more) a q where "polite E a" "act E a p = Some q" "io_running q" "asked q = asked p" "to_do q < to_do p" by blast
  then show ?case
  proof cases
    case idle
    then show ?thesis using less.prems reaches.start [of E p] by (intro exI [of _ "[]"] exI [of _ p]) simp
  next
    case a: more
    have "books q" using act_books [OF assms(1) less.prems(1) a(2,1)] less.prems(2) by (simp add: unharmed_def io_running_def)
    from less.hyps [OF a(5) this a(3)] obtain as r where
      r: "list_all (polite E) as" "reaches E q as r" "asked r = asked q" "books r" "\<forall>i. owed r i = 0" by blast
    then show ?thesis using a(1,4) reaches_append [OF r(2) reaches_one [OF a(2)]]
      by (intro exI [of _ "a # as"] exI [of _ r]) simp
  qed
qed

lemma settled_all: "books p \<Longrightarrow> \<forall>i. owed p i = 0 \<Longrightarrow> list_all (\<lambda>c. length (c_written c) = length (c_asked c)) (p_conns p)"
  using booksD(3) by (fastforce simp: list_all_length settled_def)

section \<open>Property\<close>

text \<open>C8: Let the libraries behave as documented, the allocations of scrypt succeed, and the printed form of an object be
  read back as an object (\<open>service_ok\<close>); let the sockets work, the clients send what the
  service can read (\<open>readable\<close>) and no transactions, and the remote server send nothing that is JSON but not an
  object (what \<open>on_complete\<close> does with such an answer is undefined behaviour; anything else may be sent, and every
  connection to it may fail at any point): all this is \<open>polite\<close>. Then, whatever the clients, the console, the signals and
  the timers do, and in whatever order the threads run their handlers: no exception and no undefined behaviour ends the
  process; no connection is ever sent more replies than it made requests; when nothing is left to
  happen, each has got exactly as many; and as long as the service runs, this can still be reached.\<close>

theorem every_request_answered:
  assumes "service_ok E" and "reaches E (initial_process fs) (Construct # as) p" and "list_all (polite E) as"
  shows "p_main p \<notin> {Terminated, Misbehaved}
    \<and> list_all (\<lambda>c. length (c_written c) \<le> length (c_asked c)) (p_conns p)
    \<and> (io_running p \<and> (\<forall>n ev. act E (Net n ev) p = None) \<and> act E (RunPosted 0 True) p = None \<longrightarrow>
        list_all (\<lambda>c. length (c_written c) = length (c_asked c)) (p_conns p))
    \<and> (io_running p \<longrightarrow> (\<exists>later q. list_all (polite E) later \<and> reaches E p later q
        \<and> map c_asked (p_conns q) = map c_asked (p_conns p)
        \<and> list_all (\<lambda>c. length (c_written c) = length (c_asked c)) (p_conns q)))"
proof -
  from polite_run [OF assms] have p: "books p" "unharmed p" by simp_all
  have "p_main p \<notin> {Terminated, Misbehaved}" using p(2) by (simp add: unharmed_def)
  moreover have "list_all (\<lambda>c. length (c_written c) \<le> length (c_asked c)) (p_conns p)"
    using booksD(3) [OF p(1)] by (fastforce simp: list_all_length settled_def)
  moreover have "list_all (\<lambda>c. length (c_written c) = length (c_asked c)) (p_conns p)"
    if "io_running p" "\<forall>n ev. act E (Net n ev) p = None" "act E (RunPosted 0 True) p = None"
    using progress [OF assms(1) p(1)] that settled_all [OF p(1)] by fastforce
  moreover have "\<exists>later q. list_all (polite E) later \<and> reaches E p later q \<and> map c_asked (p_conns q) = map c_asked (p_conns p)
      \<and> list_all (\<lambda>c. length (c_written c) = length (c_asked c)) (p_conns q)" if "io_running p"
    using delivery [OF assms(1) p(1) that] settled_all unfolding asked_def by blast
  ultimately show ?thesis by blast
qed

definition example_plain_service :: service where
  "example_plain_service = example_service\<lparr>s_scrypt := example_scrypt_env, s_scrypt2 := example_scrypt_env\<rparr>"

lemma example_plain_service_ok: "service_ok example_plain_service"
proof -
  have "prints_objects example_plain_service"
    by (simp add: prints_objects_def reader_parse_def stringify_def lib_def example_plain_service_def example_service_def
        example_http_def json_lib.truncate_def c_str_def byte_simps)
  then show ?thesis
    using crypto_ok_example scrypt_env_ok_example
    by (simp add: service_ok_def example_plain_service_def example_service_def)
qed

definition local :: endpoint where "local = \<lparr>ep_address = bs ''127.0.0.1'', ep_loopback = True\<rparr>"

definition bad_path :: http_request where
  "bad_path = \<lparr>req_target = bs ''/x'', req_is_post = True, req_text = []\<rparr>"

theorem every_request_answered_witness:
  "\<exists>p. reaches example_plain_service (initial_process no_files)
        (Construct # [Listen True, Accept (Some (Some local, True)), Request 0 bad_path True True]) p
    \<and> map c_asked (p_conns p) = [[bad_path]] \<and> p_main p \<notin> {Terminated, Misbehaved}
    \<and> list_all (\<lambda>c. length (c_written c) \<le> length (c_asked c)) (p_conns p)"
proof -
  let ?E = example_plain_service
  let ?c = "\<lparr>c_peer = local, c_reading = True, c_asked = [], c_written = []\<rparr>"
  let ?p = "(up no_files)\<lparr>p_conns := [?c]\<rparr>"
  let ?q = "on_request ?E 0 bad_path True True ?p"
  have up: "reaches ?E (initial_process no_files) [Construct, Listen True] (up no_files)"
    by (rule reaches_up) (simp add: example_plain_service_def example_service_def example_settings_def initial_settings_def)
  have in': "act ?E (Accept (Some (Some local, True))) (up no_files) = Some ?p"
    by (simp add: on_accept_def check_access_def local_def)
  have "io_running ?p" by (simp add: up_def initial_process_def io_running_def)
  then have "act ?E (Request 0 bad_path True True) ?p = Some ?q" by simp
  from reaches.further [OF reaches.further [OF up in'] this]
  have run: "reaches ?E (initial_process no_files)
      (Construct # [Listen True, Accept (Some (Some local, True)), Request 0 bad_path True True]) ?q" by simp
  have "bs ''/x'' \<noteq> bs ''/''" by (simp add: byte_simps)
  then have path: "req_target bad_path \<noteq> bs ''/''" by (simp add: bad_path_def)
  have "reader_parse (lib ?E) (req_text bad_path) = None"
    by (simp add: bad_path_def reader_parse_def lib_def example_plain_service_def example_service_def
        example_http_def json_lib.truncate_def c_str_def byte_simps)
  then have polite: "list_all (polite ?E) [Listen True, Accept (Some (Some local, True)), Request 0 bad_path True True]"
    using path by (simp add: readable_def asks_tx_def)
  have "process_request ?E (p_disk ?p) bad_path = Inr ([send_bad_request (bs ''Incorrect path'')], None)"
    using path by (simp add: process_request_def)
  then have asked: "map c_asked (p_conns ?q) = [[bad_path]]"
    by (simp add: on_request_def Let_def update_conn_def write_to_def)
  from every_request_answered [OF example_plain_service_ok run polite] run asked show ?thesis
    by (intro exI [of _ ?q]) simp
qed

end
