(* ===== verification/SaltGen.thy ===== *)
theory SaltGen
  imports Errors
begin

text \<open>
  \<open>src/src/ethtx/scrypt/crypto_scrypt_saltgen.cpp\<close>: \<open>libscrypt_salt_gen\<close> fills a buffer from
  \<open>/dev/urandom\<close>. What the system answers to the calls of \<open>read\<close> is a parameter, one answer per call;
  it never delivers more than it is asked for. The loop need not end, so it is a partial function:
  \<open>None\<close> is a call that never returns.
\<close>

section \<open>The program\<close>

text \<open>An answer of \<open>read\<close>: bytes (none: the end of the file), a negative result with \<open>EINTR\<close> or
  \<open>EAGAIN\<close>, or another error.\<close>

datatype read_answer = Bytes bytes | Interrupted | ReadFailed

record urandom =
  opened :: bool
  answer :: "nat \<Rightarrow> read_answer"

partial_function (option) salt_loop :: "(nat \<Rightarrow> read_answer) \<Rightarrow> nat \<Rightarrow> nat \<Rightarrow> bytes \<Rightarrow> (int \<times> bytes) option" where
  "salt_loop a len k buf =
     (if length buf < len
      then (case a k of
              Interrupted \<Rightarrow> salt_loop a len (Suc k) buf
            | ReadFailed \<Rightarrow> Some (- 1, buf)
            | Bytes ds \<Rightarrow> salt_loop a len (Suc k) (buf @ take (len - length buf) ds))
      else Some (0, buf))"

text \<open>The result and the buffer \<open>salt\<close> afterwards.\<close>

definition libscrypt_salt_gen :: "urandom \<Rightarrow> bytes \<Rightarrow> nat \<Rightarrow> (int \<times> bytes) option" where
  "libscrypt_salt_gen u salt len =
     (if \<not> opened u then Some (- 1, salt)
      else map_option (\<lambda>(result, buf). if result < 0 then (result, salt) else (result, buf @ drop len salt))
             (salt_loop (answer u) len 0 []))"

section \<open>What the device delivers\<close>

fun bytes_of :: "read_answer \<Rightarrow> bytes" where
  "bytes_of (Bytes ds) = ds"
| "bytes_of _ = []"

definition delivered :: "(nat \<Rightarrow> read_answer) \<Rightarrow> nat \<Rightarrow> bytes" where
  "delivered a k = concat (map (\<lambda>i. bytes_of (a i)) [0..<k])"

text \<open>The loop ends before call \<open>k\<close>: enough has been read, or this call fails.\<close>

definition ends_at :: "(nat \<Rightarrow> read_answer) \<Rightarrow> nat \<Rightarrow> nat \<Rightarrow> bool" where
  "ends_at a len k \<longleftrightarrow> len \<le> length (delivered a k) \<or> a k = ReadFailed"

lemma delivered_0 [simp]: "delivered a 0 = []"
  by (simp add: delivered_def)

lemma delivered_Suc: "delivered a (Suc k) = delivered a k @ bytes_of (a k)"
  by (simp add: delivered_def)

lemma take_delivered_Suc:
  "length (take len (delivered a k)) < len \<Longrightarrow>
   take len (delivered a k) @ take (len - length (take len (delivered a k))) (bytes_of (a k))
     = take len (delivered a (Suc k))"
  by (simp add: delivered_Suc)

lemma salt_loop_step:
  assumes "\<not> ends_at a len k"
  shows "salt_loop a len k (take len (delivered a k)) = salt_loop a len (Suc k) (take len (delivered a (Suc k)))"
proof -
  from assms have short: "length (take len (delivered a k)) < len" by (simp add: ends_at_def)
  show ?thesis
    using assms short take_delivered_Suc [OF short]
    by (subst salt_loop.simps) (auto simp: ends_at_def delivered_Suc split: read_answer.split)
qed

lemma salt_loop_end:
  assumes "ends_at a len k"
  shows "salt_loop a len k (take len (delivered a k)) =
    Some (if len \<le> length (delivered a k) then 0 else - 1, take len (delivered a k))"
  using assms by (subst salt_loop.simps) (auto simp: ends_at_def)

lemma salt_loop_up_to:
  "(\<And>i. i < k \<Longrightarrow> \<not> ends_at a len i) \<Longrightarrow>
   salt_loop a len 0 [] = salt_loop a len k (take len (delivered a k))"
proof (induction k)
  case (Suc k)
  then show ?case using salt_loop_step [of a len k] by simp
qed simp

lemma salt_loop_Some_ends:
  assumes "salt_loop a len k buf = Some r" and "buf = take len (delivered a k)"
  shows "\<exists>j \<ge> k. ends_at a len j"
  using assms
proof (induction arbitrary: rule: salt_loop.raw_induct [rotated, consumes 1])
  case (1 salt_loop' a len k buf r)
  show ?case
  proof (cases "ends_at a len k")
    case False
    then have short: "length (take len (delivered a k)) < len" by (simp add: ends_at_def)
    note next_buf = take_delivered_Suc [OF short]
    from False 1(2) have "\<exists>buf'. salt_loop' a len (Suc k) buf' = Some r \<and> buf' = take len (delivered a (Suc k))"
      using short next_buf by (auto simp: 1(3) ends_at_def delivered_Suc split: read_answer.splits)
    then have "\<exists>j \<ge> Suc k. ends_at a len j" using 1(1) by blast
    then show ?thesis using Suc_leD by blast
  qed blast
qed

lemma salt_loop_exact:
  "salt_loop a len 0 [] =
    (if \<exists>k. ends_at a len k
     then (let k = LEAST k. ends_at a len k
           in Some (if len \<le> length (delivered a k) then 0 else - 1, take len (delivered a k)))
     else None)"
proof (cases "\<exists>k. ends_at a len k")
  case True
  define k where "k = (LEAST k. ends_at a len k)"
  from True have "ends_at a len k" unfolding k_def by (rule LeastI_ex)
  moreover have "\<not> ends_at a len i" if "i < k" for i using that unfolding k_def by (rule not_less_Least)
  ultimately show ?thesis using True by (simp add: salt_loop_up_to [of k] salt_loop_end k_def [symmetric])
next
  case False
  then show ?thesis
    using salt_loop_Some_ends [of a len 0 "[]"] by (cases "salt_loop a len 0 []") auto
qed

lemma salt_gen_length:
  assumes "libscrypt_salt_gen u salt len = Some (result, salt')" and "length salt = len"
  shows "length salt' = len"
  using assms by (auto simp: libscrypt_salt_gen_def salt_loop_exact Let_def split: if_splits)

section \<open>Property\<close>

text \<open>C24: \<open>libscrypt_salt_gen\<close> returns exactly if the device cannot be opened or there is a call of
  \<open>read\<close> before which enough has been delivered or which fails; it stops at the first such call.
  Then it has filled the buffer with the first \<open>len\<close> bytes delivered, or returns -1 with the buffer
  as it was. When the device goes on to answer with nothing or with interruptions only, the call
  does not return.\<close>

theorem salt_gen_exact:
  "libscrypt_salt_gen u salt len =
    (if \<not> opened u then Some (- 1, salt)
     else if \<exists>k. ends_at (answer u) len k
     then (let k = LEAST k. ends_at (answer u) len k
           in if len \<le> length (delivered (answer u) k)
              then Some (0, take len (delivered (answer u) k) @ drop len salt) else Some (- 1, salt))
     else None)"
  by (auto simp: libscrypt_salt_gen_def salt_loop_exact Let_def)

end
