(* ===== verification/Guid.thy ===== *)
theory Guid
  imports Utils2
begin

text \<open>
  \<open>src/src/ethtx/crossguid/Guid.cpp\<close>: 16 bytes, their text in five groups of hexadecimal digits, and
  the constructor that reads such a text. \<open>newGuid\<close> for Windows and Unix (the variant \<open>GUID_LIBUUID\<close>
  that the file itself selects) takes its bytes from the system, which is a parameter.
\<close>

unbundle bit_operations_syntax

section \<open>The program\<close>

type_synonym Guid = bytes

definition zeroify :: "Guid \<Rightarrow> Guid" where
  "zeroify g = map (\<lambda>_. 0) g"

definition empty_Guid :: Guid where
  "empty_Guid = replicate 16 0"

definition isValid :: "Guid \<Rightarrow> bool" where
  "isValid g \<longleftrightarrow> g \<noteq> empty_Guid"

subsection \<open>To text\<close>

text \<open>\<open>snprintf (buf, n, ...)\<close> of a buffer that is then used as a C string, and its format \<open>%02x\<close>.\<close>

definition snprintf :: "nat \<Rightarrow> bytes \<Rightarrow> bytes" where
  "snprintf n s = take (n - 1) s"

definition fmt_02x :: "byte \<Rightarrow> bytes" where
  "fmt_02x c = [hex ! unat (drop_bit 4 c), hex ! unat (c AND 15)]"

definition Guid_str :: "Guid \<Rightarrow> bytes" where
  "Guid_str g =
     (let one = snprintf 10 (fmt_02x (g ! 0) @ fmt_02x (g ! 1) @ fmt_02x (g ! 2) @ fmt_02x (g ! 3));
          two = snprintf 6 (fmt_02x (g ! 4) @ fmt_02x (g ! 5));
          three = snprintf 6 (fmt_02x (g ! 6) @ fmt_02x (g ! 7));
          four = snprintf 6 (fmt_02x (g ! 8) @ fmt_02x (g ! 9));
          five = snprintf 14 (fmt_02x (g ! 10) @ fmt_02x (g ! 11) @ fmt_02x (g ! 12) @ fmt_02x (g ! 13)
                   @ fmt_02x (g ! 14) @ fmt_02x (g ! 15));
          sep = bs ''-'';
          out = one;
          out = out @ sep @ two;
          out = out @ sep @ three;
          out = out @ sep @ four;
          out = out @ sep @ five
      in out)"

text \<open>\<open>operator<<\<close>: each byte as an \<open>int\<close> in hexadecimal, two wide, filled with \<open>0\<close>.\<close>

definition setw_2 :: "bytes \<Rightarrow> bytes" where
  "setw_2 s = replicate (2 - length s) 48 @ s"

definition hex_int :: "byte \<Rightarrow> bytes" where
  "hex_int c = (if drop_bit 4 c = 0 then [hex ! unat (c AND 15)] else [hex ! unat (drop_bit 4 c), hex ! unat (c AND 15)])"

definition Guid_out :: "Guid \<Rightarrow> bytes" where
  "Guid_out g =
     setw_2 (hex_int (g ! 0)) @ setw_2 (hex_int (g ! 1)) @ setw_2 (hex_int (g ! 2)) @ setw_2 (hex_int (g ! 3))
     @ bs ''-'' @ setw_2 (hex_int (g ! 4)) @ setw_2 (hex_int (g ! 5))
     @ bs ''-'' @ setw_2 (hex_int (g ! 6)) @ setw_2 (hex_int (g ! 7))
     @ bs ''-'' @ setw_2 (hex_int (g ! 8)) @ setw_2 (hex_int (g ! 9))
     @ bs ''-'' @ setw_2 (hex_int (g ! 10)) @ setw_2 (hex_int (g ! 11)) @ setw_2 (hex_int (g ! 12))
     @ setw_2 (hex_int (g ! 13)) @ setw_2 (hex_int (g ! 14)) @ setw_2 (hex_int (g ! 15))"

subsection \<open>From text\<close>

definition hexDigitToChar :: "byte \<Rightarrow> byte" where
  "hexDigitToChar ch =
     (if 47 < ch \<and> ch < 58 then ch - 48
      else if 96 < ch \<and> ch < 103 then ch - 87
      else if 64 < ch \<and> ch < 71 then ch - 55
      else 0)"

definition isValidHexChar :: "byte \<Rightarrow> bool" where
  "isValidHexChar ch \<longleftrightarrow>
     (if 47 < ch \<and> ch < 58 then True
      else if 96 < ch \<and> ch < 103 then True
      else if 64 < ch \<and> ch < 71 then True
      else False)"

definition hexPairToChar :: "byte \<Rightarrow> byte \<Rightarrow> byte" where
  "hexPairToChar a b = hexDigitToChar a * 16 + hexDigitToChar b"

text \<open>The loop over the text; \<open>None\<close>: it bails out.\<close>

fun Guid_loop :: "bytes \<Rightarrow> byte \<Rightarrow> bool \<Rightarrow> nat \<Rightarrow> Guid \<Rightarrow> (nat \<times> Guid) option" where
  "Guid_loop [] charOne lookingForFirstChar nextByte g = Some (nextByte, g)"
| "Guid_loop (ch # s) charOne lookingForFirstChar nextByte g =
     (if ch = 45 then Guid_loop s charOne lookingForFirstChar nextByte g
      else if 16 \<le> nextByte \<or> \<not> isValidHexChar ch then None
      else if lookingForFirstChar then Guid_loop s ch False nextByte g
      else Guid_loop s charOne True (Suc nextByte) (g[nextByte := hexPairToChar charOne ch]))"

text \<open>The constructor; \<open>raw\<close> is the content of the 16 bytes before it.\<close>

definition Guid_of_string :: "Guid \<Rightarrow> bytes \<Rightarrow> Guid" where
  "Guid_of_string raw fromString =
     (case Guid_loop fromString 0 True 0 raw of
        None \<Rightarrow> zeroify raw
      | Some (nextByte, g) \<Rightarrow> if nextByte < 16 then zeroify g else g)"

definition newGuid :: "bytes \<Rightarrow> Guid" where
  "newGuid uuid = take 16 uuid"

section \<open>Reading\<close>

text \<open>A sequence of digits, two to a byte.\<close>

fun hex_pairs :: "bytes \<Rightarrow> bytes" where
  "hex_pairs [] = []"
| "hex_pairs [a] = []"
| "hex_pairs (a # b # s) = hexPairToChar a b # hex_pairs s"

lemma valid_iff: "isValidHexChar c \<longleftrightarrow> is_hex c"
  by (auto simp: isValidHexChar_def is_hex_def word_less_nat_alt word_le_nat_alt)

lemma hex_nibble_digit: "is_hex c \<Longrightarrow> hex_nibble h c = Inr (hexDigitToChar c)"
  by (auto simp: hex_nibble_def is_hex_def hexDigitToChar_def word_less_nat_alt word_le_nat_alt)

lemma HexStringToDump_loop_pairs:
  "even (length xs) \<Longrightarrow>
   HexStringToDump_loop h (xs @ ys) acc = rbind (HexStringToDump_loop h xs acc) (HexStringToDump_loop h ys)"
proof (induction h xs acc rule: HexStringToDump_loop.induct)
  case (3 h a b todo decoded)
  then show ?case by (cases "hex_nibble h a"; cases "hex_nibble h b") simp_all
qed simp_all

lemma HexStringToDump_hex_pairs:
  assumes "list_all is_hex s" and "even (length s)"
  shows "HexStringToDump_loop h (rev s) acc = Inr (hex_pairs s @ acc)"
  using assms
proof (induction s arbitrary: acc rule: hex_pairs.induct)
  case (3 a b s)
  then show ?case
    using HexStringToDump_loop_pairs [of "rev s" h "[b, a]" acc]
    by (simp add: hex_nibble_digit hexPairToChar_def push_bit_eq_mult mult.commute)
qed auto

lemma Guid_loop_filter: "Guid_loop s c l n g = Guid_loop (filter (\<lambda>c. c \<noteq> 45) s) c l n g"
  by (induction s c l n g rule: Guid_loop.induct) simp_all

lemma length_Guid_loop: "Guid_loop s c l n g = Some (m, g') \<Longrightarrow> length g' = length g"
  by (induction s c l n g rule: Guid_loop.induct) (auto split: if_splits)

lemma take_update: "n < length g \<Longrightarrow> take (Suc n) (g[n := v]) = take n g @ [v]"
  by (simp add: take_Suc_conv_app_nth)

lemma Guid_loop_digits:
  assumes "45 \<notin> set s" and "n \<le> 16" and "length g = 16"
  shows "(\<exists>g'. Guid_loop s c True n g = Some (16, g')) \<longleftrightarrow> list_all is_hex s \<and> length s = 2 * (16 - n)"
    and "Guid_loop s c True n g = Some (16, g') \<Longrightarrow> g' = take n g @ hex_pairs s"
  using assms
proof (induction s arbitrary: c n g rule: hex_pairs.induct)
  case (3 a b s)
  {
    case 1
    then show ?case using "3.IH"(1) [of "Suc n" "g[n := hexPairToChar a b]" a]
      by (cases "n = 16") (auto simp: valid_iff)
  next
    case 2
    then have n: "n < 16" by (cases "n = 16") auto
    then show ?case using "3.IH"(2) [of a "Suc n" "g[n := hexPairToChar a b]"] 2
      by (auto simp: take_update split: if_splits)
  }
next
  case (2 a)
  {
    case 1
    then show ?case by (auto simp: valid_iff)
  next
    case 2
    then show ?case by (auto split: if_splits)
  }
next
  case 1
  {
    case 1
    then show ?case by auto
  next
    case 2
    then show ?case by auto
  }
qed

lemma Guid_loop_bound: "Guid_loop s c l n g = Some (m, g') \<Longrightarrow> n \<le> 16 \<Longrightarrow> m \<le> 16"
  by (induction s c l n g rule: Guid_loop.induct) (auto split: if_splits)

text \<open>Dashes do not count; 32 digits are read as the hexadecimal dump they are, anything else is
  no GUID.\<close>

lemma Guid_of_string_eq:
  assumes "length raw = 16" and "d = filter (\<lambda>c. c \<noteq> 45) s"
  shows "Guid_of_string raw s = (if list_all is_hex d \<and> length d = 32 then hex_pairs d else empty_Guid)"
proof -
  have zero: "zeroify g = empty_Guid" if "length g = 16" for g
    using that by (simp add: zeroify_def empty_Guid_def map_replicate_const)
  have dash: "45 \<notin> set d" by (simp add: assms(2))
  note digits = Guid_loop_digits [OF dash _ assms(1), where n = 0, simplified]
  have loop: "Guid_loop s 0 True 0 raw = Guid_loop d 0 True 0 raw"
    unfolding assms(2) by (rule Guid_loop_filter)
  show ?thesis
  proof (cases "\<exists>g'. Guid_loop d 0 True 0 raw = Some (16, g')")
    case True
    then obtain g' where g': "Guid_loop d 0 True 0 raw = Some (16, g')" by blast
    then have "list_all is_hex d \<and> length d = 32" using digits(1) by blast
    then show ?thesis using digits(2) [OF g'] by (simp add: Guid_of_string_def loop g')
  next
    case False
    then have "\<not> (list_all is_hex d \<and> length d = 32)" using digits(1) by blast
    moreover have "Guid_of_string raw s = empty_Guid"
      using False Guid_loop_bound [of d 0 True 0 raw] length_Guid_loop [of d 0 True 0 raw]
      by (cases "Guid_loop d 0 True 0 raw")
        (auto simp: Guid_of_string_def loop assms(1) zero le_less)
    ultimately show ?thesis by (simp only: if_False)
  qed
qed

section \<open>Writing\<close>

lemma Guid_out_str: "Guid_out g = Guid_str g"
proof -
  have "hex ! 0 = 48" by (simp add: hex_def byte_simps)
  then have "setw_2 (hex_int c) = fmt_02x c" for c by (auto simp: setw_2_def hex_int_def fmt_02x_def)
  then show ?thesis by (simp add: Guid_out_def Guid_str_def snprintf_def fmt_02x_def Let_def bs_def)
qed

lemma is_hex_digit: "is_hex (hex ! unat (drop_bit 4 c))" "is_hex (hex ! unat (c AND 15))" for c :: byte
  using byte_nibbles(1,2) [of "[]" c] hex_nibble_cases by blast+

lemma fmt_02x_not_dash: "filter (\<lambda>c. c \<noteq> 45) (fmt_02x c) = fmt_02x c"
proof -
  have "\<not> is_hex 45" by (simp add: is_hex_def)
  then have "x \<noteq> 45" if "is_hex x" for x using that by blast
  then show ?thesis using is_hex_digit [of c] by (simp add: fmt_02x_def)
qed

lemma Guid_str_digits:
  assumes "length g = 16"
  shows "filter (\<lambda>c. c \<noteq> 45) (Guid_str g) = concat (map fmt_02x g)"
proof -
  have upt: "[0..<16] = [0, 1, 2, 3, 4, 5, 6, 7, 8, 9, 10, 11, 12, 13, 14, 15]"
    by (simp add: numeral_eq_Suc)
  have g: "g = map ((!) g) [0..<16]" using map_nth [of g] assms by simp
  have "concat (map fmt_02x g) = concat (map fmt_02x (map ((!) g) [0..<16]))" using g by simp
  also have "\<dots> = filter (\<lambda>c. c \<noteq> 45) (Guid_str g)"
  proof -
    have short: "snprintf 10 (fmt_02x a @ fmt_02x b @ fmt_02x c @ fmt_02x d) = fmt_02x a @ fmt_02x b @ fmt_02x c @ fmt_02x d"
      "snprintf 6 (fmt_02x a @ fmt_02x b) = fmt_02x a @ fmt_02x b"
      "snprintf 14 (fmt_02x a @ fmt_02x b @ fmt_02x c @ fmt_02x d @ fmt_02x e @ fmt_02x f)
        = fmt_02x a @ fmt_02x b @ fmt_02x c @ fmt_02x d @ fmt_02x e @ fmt_02x f" for a b c d e f
      by (simp_all add: snprintf_def fmt_02x_def)
    show ?thesis
      by (simp add: Guid_str_def Let_def short fmt_02x_not_dash bs_def upt)
  qed
  finally show ?thesis by (rule sym)
qed

lemma hex_pairs_dump: "hex_pairs (concat (map fmt_02x g)) = g"
proof (induction g)
  case (Cons c g)
  have "hexPairToChar (hex ! unat (drop_bit 4 c)) (hex ! unat (c AND 15)) = c"
    using byte_nibbles(1,2) [of "[]" c] byte_nibbles(3) [of c] hex_nibble_digit [OF is_hex_digit(1) [of c], of "[]"]
      hex_nibble_digit [OF is_hex_digit(2) [of c], of "[]"]
    by (simp add: hexPairToChar_def push_bit_eq_mult mult.commute)
  with Cons show ?case by (simp add: fmt_02x_def)
qed simp

section \<open>Properties\<close>

text \<open>C40: The text of a GUID, from \<open>str\<close> or from the stream operator, is read back as the GUID. More
  generally the constructor ignores dashes, takes 32 hexadecimal digits to the bytes that
  \<open>HexStringToDump\<close> takes them to, and gives the empty GUID for every other text, whatever was in
  the memory before.\<close>

theorem guid_reads:
  assumes "length raw = 16" and "length g = 16"
  shows "(let d = filter (\<lambda>c. c \<noteq> 45) s
      in if list_all is_hex d \<and> length d = 32 then HexStringToDump d = Inr (Guid_of_string raw s)
         else Guid_of_string raw s = empty_Guid)
    \<and> Guid_of_string raw (Guid_str g) = g \<and> Guid_out g = Guid_str g"
proof -
  let ?d = "filter (\<lambda>c. c \<noteq> 45) s"
  have "HexStringToDump ?d = Inr (hex_pairs ?d)" if "list_all is_hex ?d" "length ?d = 32"
    using HexStringToDump_hex_pairs [OF that(1), of ?d "[]"] that by (simp add: HexStringToDump_eq)
  moreover have "Guid_of_string raw (Guid_str g) = g"
  proof -
    have "list_all is_hex (concat (map fmt_02x g))"
      by (auto simp: list_all_iff fmt_02x_def is_hex_digit)
    moreover have "length (concat (map fmt_02x g)) = 32"
      using assms(2) by (simp add: length_concat comp_def fmt_02x_def sum_list_triv)
    ultimately show ?thesis
      by (simp add: Guid_of_string_eq [OF assms(1) refl] Guid_str_digits [OF assms(2)] hex_pairs_dump)
  qed
  ultimately show ?thesis
    by (simp add: Guid_of_string_eq [OF assms(1) refl] Guid_out_str Let_def)
qed

theorem guid_reads_witness:
  "Guid_of_string (replicate 16 7) (Guid_str (replicate 16 0x1f)) = replicate 16 0x1f
   \<and> Guid_of_string (replicate 16 7) (bs ''not a guid'') = empty_Guid"
  using guid_reads [of "replicate 16 7" "replicate 16 0x1f", where s = "bs ''not a guid''"]
  by (simp add: byte_simps Let_def)

end
