(* ===== verification/Cert.thy ===== *)
theory Cert
  imports EthTx JsonRpc Wif SaltGen Guid
begin

text \<open>
  \<open>src/src/ethtx/cert.h\<close>, \<open>cert.cpp\<close> and \<open>cert2.cpp\<close>: the key files of Ethereum. \<open>EncodePrivKey\<close> encrypts a
  private key with a key derived from a password and writes the key file; \<open>DecodeCert\<close> reads such a
  file, derives the key again, checks the message authentication code and decrypts. Addresses are
  printed in the mixed case of EIP 55.

  CryptoPP (Keccak, AES in counter mode, the generation of keys) and secp256k1 are parameters, as are
  RapidJSON and the random device. \<open>None\<close> is a call that never returns, because the random device
  never delivers.
\<close>

unbundle bit_operations_syntax

section \<open>\<open>struct CertParams\<close> and the libraries\<close>

record CertParams =
  cert_version :: int
  cert_cipher :: bytes
  cert_ciphertext :: bytes
  cert_iv :: bytes
  cert_kdftype :: bytes
  cert_dklen :: int
  cert_n :: int
  cert_p :: int
  cert_r :: int
  cert_salt :: bytes
  cert_mac :: bytes
  cert_address :: bytes

record cert_lib = eth_lib +
  aes_ctr_encrypt :: "bytes \<Rightarrow> bytes \<Rightarrow> bytes \<Rightarrow> bytes"   \<comment> \<open>key, IV, text\<close>
  aes_ctr_decrypt :: "bytes \<Rightarrow> bytes \<Rightarrow> bytes \<Rightarrow> bytes"
  pubkey_data :: "bytes \<Rightarrow> bytes option"    \<comment> \<open>\<open>secp256k1_ec_pubkey_create\<close>, the field \<open>data\<close>\<close>

definition SCRYPT_DEFAULT_N :: int where "SCRYPT_DEFAULT_N = 262144"
definition SCRYPT_DEFAULT_r :: int where "SCRYPT_DEFAULT_r = 8"
definition SCRYPT_DEFAULT_p :: int where "SCRYPT_DEFAULT_p = 1"

text \<open>\<open>CryptoPP::Integer x(privkey, privkeysize)\<close>, the exponent of the key.\<close>

definition LoadPrivateKey :: "bytes \<Rightarrow> nat" where
  "LoadPrivateKey privkey = be_value privkey"

section \<open>\<open>cert.cpp\<close>: reading a key file\<close>

text \<open>The three kinds of \<open>CHECK_TYPED (doc.HasMember (name) && doc[name].Is...())\<close>, with the member.\<close>

definition cert_string :: "json \<Rightarrow> bytes \<Rightarrow> bytes \<Rightarrow> bytes res" where
  "cert_string doc name err =
     rbind (get name doc) (\<lambda>m.
     case m of Some (JString s) \<Rightarrow> Inr (c_str s) | _ \<Rightarrow> Inl (TypedException PRIVATE_KEY_ERROR err))"

definition cert_int :: "json \<Rightarrow> bytes \<Rightarrow> bytes \<Rightarrow> int res" where
  "cert_int doc name err =
     rbind (get name doc) (\<lambda>m.
     case m of
       Some (JInt i) \<Rightarrow> CHECK_TYPED (IsInt i) PRIVATE_KEY_ERROR err (Inr i)
     | _ \<Rightarrow> Inl (TypedException PRIVATE_KEY_ERROR err))"

definition cert_object :: "json \<Rightarrow> bytes \<Rightarrow> bytes \<Rightarrow> json res" where
  "cert_object doc name err =
     rbind (get name doc) (\<lambda>m.
     case m of Some (JObject ms) \<Rightarrow> Inr (JObject ms) | _ \<Rightarrow> Inl (TypedException PRIVATE_KEY_ERROR err))"

definition ParseCert :: "json_lib \<Rightarrow> bytes \<Rightarrow> CertParams res" where
  "ParseCert J certContent =
     (case reader_parse J certContent of
        None \<Rightarrow> Inl (StringException (bs ''rapidjson parse error. Data: '' @ c_str certContent))
      | Some root \<Rightarrow>
          rbind (cert_string root (bs ''address'') (bs ''address field not found in private key'')) (\<lambda>address.
          rbind (cert_int root (bs ''version'') (bs ''version field not found in private key'')) (\<lambda>version.
          rbind (cert_object root (bs ''crypto'') (bs ''crypto field not found in private key'')) (\<lambda>doc.
          rbind (cert_string doc (bs ''cipher'') (bs ''cipher field not found in private key'')) (\<lambda>cipher.
          rbind (cert_string doc (bs ''ciphertext'') (bs ''ciphertext field not found in private key'')) (\<lambda>ciphertext.
          rbind (cert_object doc (bs ''cipherparams'') (bs ''cipherparams field not found in private key'')) (\<lambda>doc2.
          rbind (cert_string doc2 (bs ''iv'') (bs ''iv field not found in private key'')) (\<lambda>iv.
          rbind (cert_string doc (bs ''kdf'') (bs ''kdf field not found in private key'')) (\<lambda>kdf.
          rbind (cert_object doc (bs ''kdfparams'') (bs ''kdfparams field not found in private key'')) (\<lambda>doc3.
          rbind (cert_int doc3 (bs ''dklen'') (bs ''dklen field not found in private key'')) (\<lambda>dklen.
          rbind (cert_int doc3 (bs ''n'') (bs ''n field not found in private key'')) (\<lambda>n.
          rbind (cert_int doc3 (bs ''p'') (bs ''p field not found in private key'')) (\<lambda>p.
          rbind (cert_int doc3 (bs ''r'') (bs ''r field not found in private key'')) (\<lambda>r.
          rbind (cert_string doc3 (bs ''salt'') (bs ''salt field not found in private key'')) (\<lambda>salt.
          rbind (cert_string doc (bs ''mac'') (bs ''mac field not found in private key'')) (\<lambda>mac.
          Inr \<lparr>cert_version = version, cert_cipher = cipher, cert_ciphertext = ciphertext, cert_iv = iv,
            cert_kdftype = kdf, cert_dklen = dklen, cert_n = n, cert_p = p, cert_r = r, cert_salt = salt,
            cert_mac = mac, cert_address = bs ''0x'' @ address\<rparr>))))))))))))))))"

definition DeriveAESKeyFromPassword :: "scrypt_env \<Rightarrow> bytes \<Rightarrow> CertParams \<Rightarrow> bytes res" where
  "DeriveAESKeyFromPassword env password params =
     rbind (HexStringToDump (cert_salt params)) (\<lambda>rawsalt.
     rbind (libscrypt_scrypt env password rawsalt (of_int (cert_n params)) (of_int (cert_r params))
       (of_int (cert_p params)) EC_KEY_LENGTH) (\<lambda>(result, out).
     let derivedKey = (case out of None \<Rightarrow> replicate EC_KEY_LENGTH 0 | Some key \<Rightarrow> key)
     in CHECK_TYPED (result = 0) INCORRECT_PASSWORD (bs ''Incorrect password'') (Inr derivedKey)))"

definition CheckPassword :: "cert_lib \<Rightarrow> bytes \<Rightarrow> CertParams \<Rightarrow> bool res" where
  "CheckPassword L derivedKey params =
     CHECK_TYPED (32 \<le> length derivedKey) PRIVATE_KEY_ERROR (bs ''Incorrect derivedKey'')
     (rbind (substr derivedKey 16 16) (\<lambda>part.
      rbind (HexStringToDump (cert_ciphertext params)) (\<lambda>ciphertext.
      let hs = keccak256 L (part @ ciphertext)
      in Inr (cert_mac params = DumpToHexString_buf hs 32))))"

text \<open>The library reads 16 bytes from the C string of the IV.\<close>

definition DecodePrivateKey :: "cert_lib \<Rightarrow> bytes \<Rightarrow> CertParams \<Rightarrow> bytes res" where
  "DecodePrivateKey L derivedkey params =
     rbind (HexStringToDump (cert_iv params)) (\<lambda>rawiv.
     if length (rawiv @ [0]) < 16 then Inl (Undefined (bs ''the IV is too short''))
     else rbind (HexStringToDump (cert_ciphertext params)) (\<lambda>ciphertext.
          Inr (aes_ctr_decrypt L (take 16 derivedkey) (take 16 (rawiv @ [0])) ciphertext)))"

text \<open>The key and the 32 bytes written to \<open>rawkey\<close>.\<close>

definition DecodeCert :: "json_lib \<Rightarrow> cert_lib \<Rightarrow> scrypt_env \<Rightarrow> bytes \<Rightarrow> bytes \<Rightarrow> (nat \<times> bytes) res" where
  "DecodeCert J L env certContent pass =
     rbind (ParseCert J certContent) (\<lambda>params.
     rbind (DeriveAESKeyFromPassword env pass params) (\<lambda>derivedkey.
     rbind (CheckPassword L derivedkey params) (\<lambda>b.
     CHECK_TYPED b INCORRECT_PASSWORD (bs ''incorrect password'')
     (rbind (DecodePrivateKey L derivedkey params) (\<lambda>privkey.
      CHECK_TYPED (32 \<le> length privkey) PRIVATE_KEY_ERROR (bs ''Incorrect privkey'')
      (CHECK (32 \<le> EC_KEY_LENGTH) (bs ''Ups'')
      (Inr (LoadPrivateKey privkey, take 32 privkey))))))))"

definition getAddressFromFile :: "json_lib \<Rightarrow> bytes \<Rightarrow> bytes res" where
  "getAddressFromFile J certContent = rbind (ParseCert J certContent) (\<lambda>params. Inr (cert_address params))"

section \<open>\<open>cert2.cpp\<close>: addresses\<close>

definition hexdigit_value :: "byte \<Rightarrow> byte" where
  "hexdigit_value a =
     (if 48 \<le> a \<and> a \<le> 57 then a - 48 else if 97 \<le> a \<and> a \<le> 102 then a - 97 + 10 else a)"

fun mixed_case_loop :: "bytes \<Rightarrow> bytes \<Rightarrow> nat \<Rightarrow> bytes \<Rightarrow> bytes res" where
  "mixed_case_loop hexhs [] i normalizedAddr = Inr normalizedAddr"
| "mixed_case_loop hexhs (c # hexaddress) i normalizedAddr =
     rbind (at hexhs i) (\<lambda>a.
     let a = hexdigit_value a
     in mixed_case_loop hexhs hexaddress (Suc i)
          (normalizedAddr @ [if 8 \<le> sint a then toupper c else c]))"

definition MixedCaseEncoding :: "cert_lib \<Rightarrow> bytes \<Rightarrow> bytes res" where
  "MixedCaseEncoding L binaryAddress =
     (let hexaddress = DumpToHexString binaryAddress;
          hs = keccak256 L hexaddress;
          hexhs = DumpToHexString_buf hs 32
      in CHECK (length hexaddress \<le> length hexhs) (bs ''Ups'')
         (mixed_case_loop hexhs hexaddress 0 []))"

definition AddressFromPrivateKey :: "cert_lib \<Rightarrow> bytes \<Rightarrow> bytes res" where
  "AddressFromPrivateKey L privkey =
     rbind (seckey privkey) (\<lambda>sk.
     case pubkey_data L sk of
       None \<Rightarrow> Inr []
     | Some pubkeybuf \<Rightarrow>
         (let new = replicate 64 0;
              new = foldl (\<lambda>b i. b[EC_KEY_LENGTH - 1 - i := pubkeybuf ! i]) new [0..<EC_KEY_LENGTH];
              new = foldl (\<lambda>b i. b[EC_KEY_LENGTH * 2 - 1 - i := pubkeybuf ! (EC_KEY_LENGTH + i)]) new [0..<EC_KEY_LENGTH];
              hs = keccak256 L (take (EC_PUB_KEY_LENGTH - 1) new)
          in Inr (take 20 (drop 12 hs))))"

section \<open>\<open>cert2.cpp\<close>: writing a key file\<close>

text \<open>The key and \<open>newsalt\<close>; the results of the salt generator and of \<open>libscrypt_scrypt\<close> are ignored.\<close>

definition DeriveAESKeyFromPasswordDefault :: "scrypt_env \<Rightarrow> urandom \<Rightarrow> bytes \<Rightarrow> (bytes \<times> bytes) res option" where
  "DeriveAESKeyFromPasswordDefault env u password =
     (if password = [] then Some (Inr ([], []))
      else case libscrypt_salt_gen u (replicate EC_KEY_LENGTH 0) EC_KEY_LENGTH of
        None \<Rightarrow> None
      | Some (_, salt) \<Rightarrow> Some (
          rbind (libscrypt_scrypt env password salt (of_int SCRYPT_DEFAULT_N) (of_int SCRYPT_DEFAULT_r)
            (of_int SCRYPT_DEFAULT_p) EC_KEY_LENGTH) (\<lambda>(_, out).
          let derivedKey = (case out of None \<Rightarrow> replicate EC_KEY_LENGTH 0 | Some key \<Rightarrow> key)
          in Inr (derivedKey, salt))))"

definition CreateKeyFile :: "bytes \<Rightarrow> CertParams \<Rightarrow> bytes" where
  "CreateKeyFile random certparams =
     (let uuid = Guid_str (newGuid random)
      in bs ''{\"address\": \"'' @ DumpToHexString_buf (cert_address certparams) (of_nat (length (cert_address certparams)))
         @ bs ''\",'' @ bs ''\"crypto\": {'' @ bs ''\"cipher\": \"aes-128-ctr\",''
         @ bs ''\"ciphertext\": \"'' @ DumpToHexString_buf (cert_ciphertext certparams) (of_nat (length (cert_ciphertext certparams)))
         @ bs ''\",'' @ bs ''\"cipherparams\": {''
         @ bs ''\"iv\": \"'' @ DumpToHexString_buf (cert_iv certparams) (of_nat (length (cert_iv certparams))) @ bs ''\"''
         @ bs ''},'' @ bs ''\"kdf\": \"scrypt\",'' @ bs ''\"kdfparams\": {''
         @ bs ''\"dklen\": '' @ to_string (cert_dklen certparams) @ bs '',''
         @ bs ''\"n\": '' @ to_string (cert_n certparams) @ bs '',''
         @ bs ''\"p\": '' @ to_string (cert_p certparams) @ bs '',''
         @ bs ''\"r\": '' @ to_string (cert_r certparams) @ bs '',''
         @ bs ''\"salt\": \"'' @ DumpToHexString_buf (cert_salt certparams) (of_nat (length (cert_salt certparams))) @ bs ''\"''
         @ bs ''},'' @ bs ''\"mac\": \"'' @ DumpToHexString_buf (cert_mac certparams) (of_nat (length (cert_mac certparams)))
         @ bs ''\"'' @ bs ''},'' @ bs ''\"id\": \"'' @ uuid @ bs ''\",'' @ bs ''\"version\": 3}'')"

text \<open>The random bytes of the two calls of the generator and those of the GUID.\<close>

record cert_random =
  salt_source :: urandom
  iv_source :: urandom
  guid_source :: bytes

definition EncodePrivKey ::
    "cert_lib \<Rightarrow> scrypt_env \<Rightarrow> cert_random \<Rightarrow> bytes \<Rightarrow> bytes \<Rightarrow> (bytes \<times> bytes) res option" where
  "EncodePrivKey L env Rnd privkey password =
     (let result = (\<lambda>address jsonkey. rbind (MixedCaseEncoding L address) (\<lambda>a. Inr (bs ''0x'' @ a, jsonkey)))
      in if privkey \<noteq> [] \<and> password \<noteq> []
         then case DeriveAESKeyFromPasswordDefault env (salt_source Rnd) password of
           None \<Rightarrow> None
         | Some (Inl e) \<Rightarrow> Some (Inl e)
         | Some (Inr (derivedkey, newsalt)) \<Rightarrow>
             (if derivedkey \<noteq> []
              then case libscrypt_salt_gen (iv_source Rnd) (replicate (EC_KEY_LENGTH div 2) 0) (EC_KEY_LENGTH div 2) of
                None \<Rightarrow> None
              | Some (_, iv) \<Rightarrow> Some (
                  let ciphertext = aes_ctr_encrypt L (take (EC_KEY_LENGTH div 2) derivedkey) iv privkey
                  in rbind (substr derivedkey 16 16) (\<lambda>part.
                  let hsmac = keccak256 L (part @ ciphertext)
                  in rbind (AddressFromPrivateKey L privkey) (\<lambda>address.
                  let certparams = \<lparr>cert_version = 0, cert_cipher = [], cert_ciphertext = ciphertext, cert_iv = iv,
                        cert_kdftype = [], cert_dklen = int EC_KEY_LENGTH, cert_n = SCRYPT_DEFAULT_N,
                        cert_p = SCRYPT_DEFAULT_p, cert_r = SCRYPT_DEFAULT_r, cert_salt = newsalt,
                        cert_mac = hsmac, cert_address = address\<rparr>;
                      jsonkey = CreateKeyFile (guid_source Rnd) certparams
                  in result address jsonkey)))
              else Some (result [] []))
         else Some (result [] []))"

text \<open>The key generator: \<open>None\<close> when the key it made is not valid, else the text the stream operator
  prints for its exponent in hexadecimal.\<close>

function pad_key :: "bytes \<Rightarrow> bytes" where
  "pad_key hexkey = (if length hexkey < 32 * 2 then pad_key (48 # hexkey) else hexkey)"
  by auto

termination by (relation "measure (\<lambda>hexkey. 64 - length hexkey)") auto

declare pad_key.simps [simp del]

definition CreateRawECDSAKey :: "bytes option \<Rightarrow> bytes res" where
  "CreateRawECDSAKey printed =
     (let hexkey = (case printed of None \<Rightarrow> []
        | Some text \<Rightarrow> pad_key (take (size_sub (length text) 1) text))
      in if hexkey \<noteq> [] then HexStringToDump hexkey else Inr [])"

definition CreateNewKey ::
    "cert_lib \<Rightarrow> scrypt_env \<Rightarrow> cert_random \<Rightarrow> bytes option \<Rightarrow> bytes \<Rightarrow> (bytes \<times> bytes) res option" where
  "CreateNewKey L env Rnd printed password =
     (case CreateRawECDSAKey printed of
        Inl e \<Rightarrow> Some (Inl e)
      | Inr rawprivkey \<Rightarrow>
          if rawprivkey = [] then Some (Inl (StringException (bs ''rawprivkey empty'')))
          else EncodePrivKey L env Rnd rawprivkey password)"

end
