(* ===== verification/JsonText.thy ===== *)
theory JsonText
  imports JsonRpc
begin

text \<open>
  Texts of JSON: a writer for the values the key files are made of (objects, strings without escapes,
  natural numbers) and a reader for the grammar of these values, with white space between the
  tokens. The reader takes back what the writer wrote. It stands for the documented behaviour of
  RapidJSON on such texts: the library is assumed to parse what this reader reads to the same value, if its
  numbers fit 64 bits (\<open>parser_ok\<close> in \<open>CertSpec\<close>).
\<close>

section \<open>Writing\<close>

fun show_json :: "json \<Rightarrow> bytes" and show_members :: "(bytes \<times> json) list \<Rightarrow> bytes" where
  "show_json (JString s) = 34 # s @ [34]"
| "show_json (JInt i) = to_string i"
| "show_json (JObject ms) = 123 # show_members ms @ [125]"
| "show_json _ = []"
| "show_members [] = []"
| "show_members ((name, v) # ms) =
     34 # name @ [34, 58, 32] @ show_json v @ (if ms = [] then [] else 44 # show_members ms)"

text \<open>A text without escapes, and the values whose texts are plain.\<close>

definition plain_char :: "byte \<Rightarrow> bool" where
  "plain_char c \<longleftrightarrow> 32 \<le> c \<and> c < 127 \<and> c \<noteq> 34 \<and> c \<noteq> 92"

fun plain :: "json \<Rightarrow> bool" and plain_members :: "(bytes \<times> json) list \<Rightarrow> bool" where
  "plain (JString s) = list_all plain_char s"
| "plain (JInt i) = (0 \<le> i)"
| "plain (JObject ms) = (ms \<noteq> [] \<and> plain_members ms)"
| "plain _ = False"
| "plain_members [] = True"
| "plain_members ((name, v) # ms) = (list_all plain_char name \<and> plain v \<and> plain_members ms)"

section \<open>Reading\<close>

definition is_ws :: "byte \<Rightarrow> bool" where
  "is_ws c \<longleftrightarrow> c \<in> {32, 9, 10, 13}"

definition skip_ws :: "bytes \<Rightarrow> bytes" where
  "skip_ws = dropWhile is_ws"

fun read_chars :: "bytes \<Rightarrow> (bytes \<times> bytes) option" where
  "read_chars [] = None"
| "read_chars (c # r) =
     (if c = 34 then Some ([], r)
      else if plain_char c then map_option (\<lambda>(s, r'). (c # s, r')) (read_chars r)
      else None)"

definition read_digits :: "bytes \<Rightarrow> (json \<times> bytes) option" where
  "read_digits b =
     (let ds = takeWhile is_digit b; r = dropWhile is_digit b
      in if ds = [] \<or> hd ds = 48 \<and> 1 < length ds \<or> r \<noteq> [] \<and> hd r \<in> {46, 69, 101} then None
         else Some (JInt (foldl (\<lambda>n d. 10 * n + uint d - 48) 0 ds), r))"

text \<open>One token after white space.\<close>

definition expect :: "byte \<Rightarrow> bytes \<Rightarrow> bytes option" where
  "expect c b = (case skip_ws b of [] \<Rightarrow> None | d # r \<Rightarrow> if d = c then Some r else None)"

text \<open>The first argument bounds the nesting and the number of members; the length of the text is
  enough.\<close>

fun read_value :: "nat \<Rightarrow> bytes \<Rightarrow> (json \<times> bytes) option"
  and read_members :: "nat \<Rightarrow> bytes \<Rightarrow> ((bytes \<times> json) list \<times> bytes) option" where
  "read_value 0 b = None"
| "read_value (Suc f) b =
     (case expect 34 b of
        Some r \<Rightarrow> map_option (apfst JString) (read_chars r)
      | None \<Rightarrow>
        (case expect 123 b of
           Some r \<Rightarrow> map_option (apfst JObject) (read_members f r)
         | None \<Rightarrow> read_digits (skip_ws b)))"
| "read_members 0 b = None"
| "read_members (Suc f) b =
     Option.bind (expect 34 b) (\<lambda>r.
     Option.bind (read_chars r) (\<lambda>(name, r).
     Option.bind (expect 58 r) (\<lambda>r.
     Option.bind (read_value f r) (\<lambda>(v, r).
     case expect 44 r of
       Some r' \<Rightarrow> map_option (apfst ((#) (name, v))) (read_members f r')
     | None \<Rightarrow> map_option (Pair [(name, v)]) (expect 125 r)))))"

definition read_json :: "bytes \<Rightarrow> json option" where
  "read_json t =
     (case read_value (length t) t of
        Some (v, r) \<Rightarrow> if skip_ws r = [] then Some v else None
      | None \<Rightarrow> None)"

section \<open>What is written is read\<close>

lemma expect_Cons [simp]: "expect c (d # r) = (if is_ws d then expect c r else if d = c then Some r else None)"
  by (simp add: expect_def skip_ws_def)

lemma expect_Nil [simp]: "expect c [] = None"
  by (simp add: expect_def skip_ws_def)

lemma is_ws_tokens [simp]:
  "\<not> is_ws 34" "\<not> is_ws 44" "\<not> is_ws 58" "\<not> is_ws 123" "\<not> is_ws 125" "is_ws 32"
  by (simp_all add: is_ws_def)

lemma read_chars_plain: "list_all plain_char s \<Longrightarrow> read_chars (s @ 34 # r) = Some (s, r)"
  by (induction s) (auto simp: plain_char_def)

subsection \<open>Numbers\<close>

lemma digit_char:
  assumes "d < 10"
  shows "is_digit (of_nat (48 + d))" and "uint (of_nat (48 + d) :: byte) = 48 + int d"
    and "of_nat (48 + d) = (48 :: byte) \<longleftrightarrow> d = 0"
proof -
  have u: "unat (of_nat (48 + d) :: byte) = 48 + d" using assms by (intro unat_of_nat_byte) simp
  show "is_digit (of_nat (48 + d))" unfolding is_digit_def word_le_nat_alt u using assms by simp
  have "int (unat (of_nat (48 + d) :: byte)) = int (48 + d)" unfolding u ..
  then show "uint (of_nat (48 + d) :: byte) = 48 + int d" by (simp del: of_nat_add)
  show "of_nat (48 + d) = (48 :: byte) \<longleftrightarrow> d = 0" unfolding word_unat_eq_iff u by simp
qed

lemma to_string_nat_digits: "list_all is_digit (to_string_nat n)"
proof (induction n rule: to_string_nat.induct)
  case (1 n)
  show ?case
  proof (cases "n < 10")
    case True
    then show ?thesis using digit_char(1) [of n] unfolding to_string_nat.simps [of n] by (simp del: of_nat_add)
  next
    case False
    then show ?thesis using digit_char(1) [of "n mod 10"] 1 unfolding to_string_nat.simps [of n]
      by (simp del: of_nat_add)
  qed
qed

lemma to_string_nat_value: "foldl (\<lambda>k d. 10 * k + uint d - 48) 0 (to_string_nat n) = int n"
proof (induction n rule: to_string_nat.induct)
  case (1 n)
  show ?case
  proof (cases "n < 10")
    case True
    then show ?thesis using digit_char(2) [of n] unfolding to_string_nat.simps [of n] by (simp del: of_nat_add)
  next
    case False
    have "10 * int (n div 10) + int (n mod 10) = int n" by (metis div_mult_mod_eq mult.commute of_nat_add of_nat_mult of_nat_numeral)
    with False show ?thesis using digit_char(2) [of "n mod 10"] 1 unfolding to_string_nat.simps [of n]
      by (simp del: of_nat_add)
  qed
qed

lemma to_string_nat_lead: "to_string_nat n \<noteq> []" "n \<noteq> 0 \<Longrightarrow> hd (to_string_nat n) \<noteq> 48"
proof -
  show ne: "to_string_nat n \<noteq> []" for n by (subst to_string_nat.simps) simp
  show "n \<noteq> 0 \<Longrightarrow> hd (to_string_nat n) \<noteq> 48"
  proof (induction n rule: to_string_nat.induct)
    case (1 n)
    show ?case
    proof (cases "n < 10")
      case True
      then show ?thesis using digit_char(3) [of n] 1(2) unfolding to_string_nat.simps [of n] by (simp del: of_nat_add)
    next
      case False
      then have "n div 10 \<noteq> 0" by (simp add: div_eq_0_iff)
      with 1(1) [OF False] False show ?thesis unfolding to_string_nat.simps [of n] by (simp add: ne)
    qed
  qed
qed

lemma digit_not_ws: "is_digit c \<Longrightarrow> \<not> is_ws c" "is_digit c \<Longrightarrow> c \<noteq> 34" "is_digit c \<Longrightarrow> c \<noteq> 123"
  by (auto simp: is_digit_def is_ws_def)

text \<open>What may follow a value: a token that ends it.\<close>

definition ends :: "bytes \<Rightarrow> bool" where
  "ends r \<longleftrightarrow> r = [] \<or> hd r \<in> {44, 125}"

lemma ends_not_digit: "ends r \<Longrightarrow> takeWhile is_digit r = []" "ends r \<Longrightarrow> dropWhile is_digit r = r"
    "ends r \<Longrightarrow> r \<noteq> [] \<Longrightarrow> hd r \<notin> {46, 69, 101}"
  by (cases r; auto simp: ends_def is_digit_def)+

lemma read_digits_to_string:
  assumes "ends r"
  shows "read_digits (to_string_nat n @ r) = Some (JInt (int n), r)"
proof -
  have all: "\<forall>d \<in> set (to_string_nat n). is_digit d" using to_string_nat_digits by (simp add: list_all_iff)
  then have "takeWhile is_digit (to_string_nat n @ r) = to_string_nat n" "dropWhile is_digit (to_string_nat n @ r) = r"
    using ends_not_digit [OF assms] by (simp_all add: takeWhile_append2 dropWhile_append2)
  moreover have "\<not> (hd (to_string_nat n) = 48 \<and> 1 < length (to_string_nat n))"
  proof (cases "n = 0")
    case True
    then show ?thesis by (simp add: to_string_nat.simps)
  qed (simp add: to_string_nat_lead)
  ultimately show ?thesis
    using ends_not_digit(3) [OF assms] by (auto simp: read_digits_def to_string_nat_lead to_string_nat_value)
qed

subsection \<open>Values\<close>

lemma show_json_pos: "plain v \<Longrightarrow> 0 < length (show_json v)"
  by (cases v) (auto simp: to_string_def to_string_nat_lead)

lemma read_value_space: "read_value f (32 # b) = read_value f b"
proof -
  have "expect c (32 # b) = expect c b" "skip_ws (32 # b) = skip_ws b" for c by (simp_all add: skip_ws_def)
  then show ?thesis by (cases f) (simp_all only: read_value.simps)
qed

lemma read_show:
  "plain v \<Longrightarrow> ends r \<Longrightarrow> length (show_json v) \<le> f \<Longrightarrow> read_value f (show_json v @ r) = Some (v, r)"
  "plain_members ms \<Longrightarrow> ms \<noteq> [] \<Longrightarrow> length (show_members ms) \<le> f
    \<Longrightarrow> read_members f (show_members ms @ 125 # r) = Some (ms, r)"
proof (induction v and ms arbitrary: f r and f r rule: show_json_show_members.induct)
  case (1 s)
  then show ?case by (cases f) (auto simp: read_chars_plain)
next
  case (2 i)
  obtain n where i: "i = int n" using 2(1) by (auto elim: nonneg_int_cases)
  obtain g where f: "f = Suc g" using 2(3) show_json_pos [OF 2(1)] by (cases f) auto
  obtain c t where ct: "to_string_nat n = c # t" using to_string_nat_lead(1) [of n] by (cases "to_string_nat n") auto
  then have c: "is_digit c" using to_string_nat_digits [of n] by simp
  have "skip_ws (to_string_nat n @ r) = to_string_nat n @ r" using digit_not_ws(1) [OF c] by (simp add: skip_ws_def ct)
  moreover have "expect 34 (to_string_nat n @ r) = None" "expect 123 (to_string_nat n @ r) = None"
    using digit_not_ws [OF c] by (simp_all add: ct)
  ultimately show ?case using read_digits_to_string [OF 2(2)] by (simp add: i f to_string_def)
next
  case (3 ms)
  then show ?case by (cases f) auto
next
  case (6 name v ms)
  then obtain g where f: "f = Suc g" by (cases f) auto
  show ?case
  proof (cases "ms = []")
    case True
    have "ends (125 # r)" by (simp add: ends_def)
    then show ?thesis using 6 True by (simp add: f read_chars_plain read_value_space)
  next
    case False
    have "ends (44 # show_members ms @ 125 # r)" by (simp add: ends_def)
    then show ?thesis using 6 False by (simp add: f read_chars_plain read_value_space)
  qed
qed auto

theorem read_json_show_json: "plain v \<Longrightarrow> read_json (show_json v) = Some v"
  using read_show(1) [of v "[]" "length (show_json v)"] by (simp add: read_json_def ends_def skip_ws_def)

end
