(* ===== verification/CertSpec.thy ===== *)
theory CertSpec
  imports Cert JsonText
begin

text \<open>
  What the key files of \<open>cert.cpp\<close> and \<open>cert2.cpp\<close> promise: a new key is opened again by its password
  and by no other, its address is the Ethereum address of its public key, and the mixed case of a
  printed address is that of EIP 55.
\<close>

unbundle bit_operations_syntax

definition cert_lib_ok :: "cert_lib \<Rightarrow> bool" where
  "cert_lib_ok L \<longleftrightarrow> (\<forall>m. length (keccak256 L m) = 32)
     \<and> (\<forall>k iv m. length (aes_ctr_encrypt L k iv m) = length m
          \<and> aes_ctr_decrypt L k iv (aes_ctr_encrypt L k iv m) = m)
     \<and> (\<forall>sk d. pubkey_data L sk = Some d \<longrightarrow> length d = 64)"

lemma cert_lib_okD:
  assumes "cert_lib_ok L"
  shows "length (keccak256 L m) = 32" and "length (aes_ctr_encrypt L k iv m) = length m"
    and "aes_ctr_decrypt L k iv (aes_ctr_encrypt L k iv m) = m" and "pubkey_data L sk = Some d \<Longrightarrow> length d = 64"
  using assms by (auto simp: cert_lib_ok_def)

section \<open>Mixed case\<close>

text \<open>EIP 55: a digit is in upper case when the hexadecimal digit of the hash at its place is 8 or more.\<close>

definition nibble :: "bytes \<Rightarrow> nat \<Rightarrow> nat" where
  "nibble h i = (if even i then unat (h ! (i div 2)) div 16 else unat (h ! (i div 2)) mod 16)"

definition eip55 :: "cert_lib \<Rightarrow> bytes \<Rightarrow> bytes" where
  "eip55 L addr =
     (let h = DumpToHexString addr; hs = keccak256 L h
      in map (\<lambda>i. if 8 \<le> nibble hs i then toupper (h ! i) else h ! i) [0..<length h])"

lemma nth_concat_pairs:
  "i < 2 * length xs \<Longrightarrow> concat (map (\<lambda>c. [f c, g c]) xs) ! i = (if even i then f (xs ! (i div 2)) else g (xs ! (i div 2)))"
proof (induction xs arbitrary: i)
  case (Cons x xs)
  consider "i = 0" | "i = 1" | j where "i = Suc (Suc j)" by (metis One_nat_def not0_implies_Suc)
  then show ?case using Cons by cases auto
qed simp

lemma nth_dump:
  assumes "length hs = 32" and "i < 64"
  shows "DumpToHexString_buf hs 32 ! i = hex ! nibble hs i"
proof -
  have "unat (drop_bit 4 c) = unat c div 16" "unat (c AND 15) = unat c mod 16" for c :: byte
  proof -
    have mask: "c AND 15 = take_bit 4 c" by (simp add: take_bit_eq_mask mask_eq_exp_minus_1)
    show "unat (drop_bit 4 c) = unat c div 16" by (simp only: unat_drop_bit_eq) (simp add: drop_bit_eq_div)
    show "unat (c AND 15) = unat c mod 16" unfolding mask by (simp only: unsigned_take_bit_eq) (simp add: take_bit_eq_mod)
  qed
  then show ?thesis using assms by (simp add: DumpToHexString_buf_def nth_concat_pairs nibble_def)
qed

lemma nibble_less: "nibble h i < 16"
  by (auto simp: nibble_def less_mult_imp_div_less)

lemma hexdigit_value_hex: "k < 16 \<Longrightarrow> 8 \<le> sint (hexdigit_value (hex ! k)) \<longleftrightarrow> 8 \<le> k"
proof -
  assume k: "k < 16"
  have "list_all (\<lambda>k. 8 \<le> sint (hexdigit_value (hex ! k)) \<longleftrightarrow> 8 \<le> k) [0..<16]" by code_simp
  with k show ?thesis by (simp add: list_all_iff)
qed

lemma mixed_case_loop_eq:
  assumes "length hs = 32" and "i + length xs \<le> 64"
  shows "mixed_case_loop (DumpToHexString_buf hs 32) xs i acc
    = Inr (acc @ map (\<lambda>j. if 8 \<le> nibble hs (i + j) then toupper (xs ! j) else xs ! j) [0..<length xs])"
  using assms(2)
proof (induction xs arbitrary: i acc)
  case (Cons c xs)
  have "length (DumpToHexString_buf hs 32) = 64"
    using assms(1) by (simp add: DumpToHexString_buf_def length_concat comp_def sum_list_triv)
  then have "at (DumpToHexString_buf hs 32) i = Inr (hex ! nibble hs i)"
    using Cons.prems nth_dump [OF assms(1), of i] by (simp add: at_def)
  moreover have "[0..<Suc (length xs)] = 0 # map Suc [0..<length xs]" by (metis map_Suc_upt upt_conv_Cons zero_less_Suc)
  ultimately show ?case
    using Cons by (simp add: hexdigit_value_hex nibble_less comp_def del: upt_Suc)
qed simp

lemma MixedCaseEncoding_eip55:
  assumes "cert_lib_ok L" and "length addr \<le> 32"
  shows "MixedCaseEncoding L addr = Inr (eip55 L addr)"
proof -
  note len = cert_lib_okD(1) [OF assms(1), of "DumpToHexString addr"]
  have h: "length (DumpToHexString addr) = 2 * length addr" using assms(2) by (simp add: length_DumpToHexString)
  have hs: "length (DumpToHexString_buf (keccak256 L (DumpToHexString addr)) 32) = 64"
    using len by (simp add: DumpToHexString_buf_def length_concat comp_def sum_list_triv)
  show ?thesis
    using mixed_case_loop_eq [OF len, of 0 "DumpToHexString addr" "[]"] assms(2) h
    by (simp add: MixedCaseEncoding_def Let_def hs eip55_def)
qed

text \<open>The digits of a dump.\<close>

lemma hex_digits:
  "list_all (\<lambda>c. is_hex c \<and> tolower c = c \<and> plain_char c \<and> tolower (toupper c) = c \<and> is_hex (toupper c)) hex"
  by code_simp

lemma dump_digits:
  assumes "length d < 2 ^ 32" and "c \<in> set (DumpToHexString d)"
  shows "is_hex c" and "tolower c = c" and "plain_char c" and "tolower (toupper c) = c" and "is_hex (toupper c)"
proof -
  from assms have "\<exists>b :: byte. c = hex ! unat (drop_bit 4 b) \<or> c = hex ! unat (b AND 15)"
    by (auto simp: DumpToHexString_eq)
  then obtain b :: byte where "c = hex ! unat (drop_bit 4 b) \<or> c = hex ! unat (b AND 15)" by blast
  then obtain v h where "hex_nibble h c = Inr v" and "c = hex ! unat v"
    using byte_nibbles(1,2) [of "[]" b] by metis
  then have "unat v < 16" and c: "c = hex ! unat v" using tolower_hex(1) by blast+
  moreover have "length hex = 16" by (simp add: hex_def)
  ultimately have "c \<in> set hex" by (simp only: c nth_mem)
  then show "is_hex c" and "tolower c = c" and "plain_char c" and "tolower (toupper c) = c" and "is_hex (toupper c)"
    using hex_digits by (auto simp: list_all_iff)
qed

lemma eip55_digits:
  assumes "length addr \<le> 32"
  shows "map tolower (eip55 L addr) = DumpToHexString addr" and "list_all is_hex (eip55 L addr)"
    and "length (eip55 L addr) = 2 * length addr"
proof -
  let ?h = "DumpToHexString addr"
  have small: "length addr < 2 ^ 32" using assms by simp
  note d = dump_digits [OF small nth_mem]
  have "map tolower (eip55 L addr) = map (\<lambda>i. ?h ! i) [0..<length ?h]"
    unfolding eip55_def Let_def map_map by (rule map_cong) (auto simp: d)
  then show "map tolower (eip55 L addr) = ?h" by (simp add: map_nth)
  show "list_all is_hex (eip55 L addr)" by (auto simp: eip55_def list_all_iff Let_def d)
  show "length (eip55 L addr) = 2 * length addr" using small by (simp add: eip55_def Let_def length_DumpToHexString)
qed

lemma HexStringToDump_eip55:
  assumes "length addr \<le> 32"
  shows "HexStringToDump (eip55 L addr) = Inr addr"
proof -
  let ?t = "eip55 L addr"
  have len: "length ?t < 2 ^ 31" "even (length ?t)" using eip55_digits(3) [OF assms, of L] assms by simp_all
  obtain d where d: "HexStringToDump ?t = Inr d"
    using HexStringToDump_Inr [OF len(1)] eip55_digits(2) [OF assms] by (auto simp: list_all_iff)
  have "length d < 2 ^ 30" using length_HexStringToDump [OF len(1) d] eip55_digits(3) [OF assms, of L] assms by simp
  moreover have "length addr < 2 ^ 30" using assms by simp
  moreover have "DumpToHexString d = DumpToHexString addr"
    using DumpToHexString_HexStringToDump [OF d len(2,1)] eip55_digits(1) [OF assms] by simp
  ultimately have "d = addr" by (metis HexStringToDump_DumpToHexString sum.inject(2))
  then show ?thesis using d by simp
qed

definition mixed_case_example :: cert_lib where
  "mixed_case_example = \<lparr>keccak256 = (\<lambda>m. replicate 32 0x7a), sign_recoverable = (\<lambda>h k. None),
     serialize_compact = (\<lambda>s. None), aes_ctr_encrypt = (\<lambda>k iv m. m), aes_ctr_decrypt = (\<lambda>k iv m. m),
     pubkey_data = (\<lambda>k. None)\<rparr>"

text \<open>C25: The mixed case that \<open>MixedCaseEncoding\<close> prints is that of EIP 55, and it does not touch the
  address: the text decodes to the bytes of the address.\<close>

theorem mixed_case_is_eip55:
  assumes "cert_lib_ok L" and "length addr \<le> 32"
  shows "MixedCaseEncoding L addr = Inr (eip55 L addr) \<and> HexStringToDump (eip55 L addr) = Inr addr"
  using MixedCaseEncoding_eip55 [OF assms] HexStringToDump_eip55 [OF assms(2)] by blast

theorem mixed_case_is_eip55_witness:
  "MixedCaseEncoding mixed_case_example (bs ''an address'') = Inr (eip55 mixed_case_example (bs ''an address''))"
  using mixed_case_is_eip55 [of mixed_case_example "bs ''an address''"]
  by (simp add: cert_lib_ok_def mixed_case_example_def)

section \<open>Addresses\<close>

text \<open>The address of an Ethereum key: the last 20 bytes of the hash of the two coordinates of the
  public key, which secp256k1 keeps with the least byte first.\<close>

definition eth_address :: "cert_lib \<Rightarrow> bytes \<Rightarrow> bytes" where
  "eth_address L sk =
     (case pubkey_data L sk of
        None \<Rightarrow> []
      | Some d \<Rightarrow> drop 12 (keccak256 L (rev (take 32 d) @ rev (drop 32 d))))"

lemma foldl_update_rev:
  assumes "k \<le> n" and "a + n \<le> length b"
  shows "foldl (\<lambda>b i. b[a + n - 1 - i := f i]) b [0..<k]
    = take (a + n - k) b @ rev (map f [0..<k]) @ drop (a + n) b"
  using assms(1)
proof (induction k)
  case 0
  then show ?case by simp
next
  case (Suc k)
  let ?l = "take (a + n - k) b"
  from Suc.prems assms(2) have l: "a + n - k = Suc (a + n - Suc k)" "a + n - Suc k < length b" by simp_all
  then have "?l = take (a + n - Suc k) b @ [b ! (a + n - Suc k)]" by (simp add: take_Suc_conv_app_nth)
  with Suc l show ?case by (simp add: list_update_append)
qed

lemma AddressFromPrivateKey_eq:
  assumes "cert_lib_ok L" and "32 \<le> length sk"
  shows "AddressFromPrivateKey L sk = Inr (eth_address L (take 32 sk))"
proof (cases "pubkey_data L (take 32 sk)")
  case None
  then show ?thesis using assms(2) by (simp add: AddressFromPrivateKey_def seckey_def eth_address_def)
next
  case (Some d)
  then have d: "length d = 64" by (rule cert_lib_okD(4) [OF assms(1)])
  have x: "map ((!) d) [0..<32] = take 32 d" using d by (intro nth_equalityI) simp_all
  have y: "map (\<lambda>i. d ! (32 + i)) [0..<32] = drop 32 d" using d by (intro nth_equalityI) simp_all
  have 1: "foldl (\<lambda>b i. b[32 - 1 - i := d ! i]) (replicate 64 0) [0..<32] = rev (take 32 d) @ replicate 32 0"
    using foldl_update_rev [of 32 32 0 "replicate 64 0" "(!) d"] by (simp add: x)
  have 2: "foldl (\<lambda>b i. b[32 * 2 - 1 - i := d ! (32 + i)]) (rev (take 32 d) @ replicate 32 0) [0..<32]
      = rev (take 32 d) @ rev (drop 32 d)"
    using foldl_update_rev [of 32 32 32 "rev (take 32 d) @ replicate 32 0" "\<lambda>i. d ! (32 + i)"] d by (simp add: y)
  show ?thesis
    using assms(2) d cert_lib_okD(1) [OF assms(1)] 2
    by (simp add: AddressFromPrivateKey_def seckey_def Some eth_address_def EC_KEY_LENGTH_def EC_PUB_KEY_LENGTH_def
        1 [simplified])
qed

lemma length_eth_address: "cert_lib_ok L \<Longrightarrow> length (eth_address L sk) \<le> 20"
  by (simp add: eth_address_def cert_lib_okD(1) split: option.split)

section \<open>The text of a key file\<close>

definition key_doc :: "bytes \<Rightarrow> CertParams \<Rightarrow> json" where
  "key_doc random p =
     JObject [(bs ''address'', JString (DumpToHexString (cert_address p))),
       (bs ''crypto'', JObject [
          (bs ''cipher'', JString (bs ''aes-128-ctr'')),
          (bs ''ciphertext'', JString (DumpToHexString (cert_ciphertext p))),
          (bs ''cipherparams'', JObject [(bs ''iv'', JString (DumpToHexString (cert_iv p)))]),
          (bs ''kdf'', JString (bs ''scrypt'')),
          (bs ''kdfparams'', JObject [(bs ''dklen'', JInt (cert_dklen p)), (bs ''n'', JInt (cert_n p)),
             (bs ''p'', JInt (cert_p p)), (bs ''r'', JInt (cert_r p)),
             (bs ''salt'', JString (DumpToHexString (cert_salt p)))]),
          (bs ''mac'', JString (DumpToHexString (cert_mac p)))]),
       (bs ''id'', JString (Guid_str (newGuid random))), (bs ''version'', JInt 3)]"

lemma CreateKeyFile_show: "CreateKeyFile random p = show_json (key_doc random p)"
proof -
  have "to_string 3 = [51]" by (simp add: to_string_def to_string_nat.simps)
  then show ?thesis
    by (simp add: CreateKeyFile_def key_doc_def DumpToHexString_def [symmetric] Let_def byte_simps)
qed

text \<open>What the code needs of the sizes: every field fits a hexadecimal dump.\<close>

definition small_params :: "CertParams \<Rightarrow> bool" where
  "small_params p \<longleftrightarrow> length (cert_address p) < 2 ^ 30 \<and> length (cert_ciphertext p) < 2 ^ 30 \<and> length (cert_iv p) < 2 ^ 30
     \<and> length (cert_salt p) < 2 ^ 30 \<and> length (cert_mac p) < 2 ^ 30
     \<and> 0 \<le> cert_dklen p \<and> IsInt (cert_dklen p) \<and> 0 \<le> cert_n p \<and> IsInt (cert_n p)
     \<and> 0 \<le> cert_p p \<and> IsInt (cert_p p) \<and> 0 \<le> cert_r p \<and> IsInt (cert_r p)"

lemma plain_dump: "length d < 2 ^ 30 \<Longrightarrow> list_all plain_char (DumpToHexString d)"
  using dump_digits(3) [of d] by (simp add: list_all_iff)

lemma plain_Guid: "list_all plain_char (Guid_str g)"
proof -
  have digits: "list_all plain_char (fmt_02x c)" for c
    using dump_digits(3) [of "[c]"] by (simp add: list_all_iff fmt_02x_def DumpToHexString_eq)
  have take: "list_all plain_char (snprintf n s)" if "list_all plain_char s" for n s
    using that by (auto simp: snprintf_def list_all_iff dest: in_set_takeD)
  have "list_all plain_char (bs ''-'')" by (simp add: byte_simps plain_char_def)
  then show ?thesis by (simp add: Guid_str_def Let_def take digits)
qed

lemma plain_key_doc: "small_params p \<Longrightarrow> plain (key_doc random p)"
  by (simp add: key_doc_def small_params_def plain_dump plain_Guid byte_simps plain_char_def)

lemma plain_no_NUL: "list_all plain_char s \<Longrightarrow> 0 \<notin> set s"
  by (auto simp: list_all_iff plain_char_def)

lemma show_json_no_NUL:
  "plain v \<Longrightarrow> 0 \<notin> set (show_json v)" "plain_members ms \<Longrightarrow> 0 \<notin> set (show_members ms)"
proof (induction v and ms rule: show_json_show_members.induct)
  case (2 i)
  have "\<not> is_digit 0" by (simp add: is_digit_def)
  with 2 show ?case using to_string_nat_digits [of "nat i"] by (auto simp: to_string_def list_all_iff)
qed (auto dest: plain_no_NUL)

text \<open>The parser of the library reads the texts that the reader of \<open>JsonText\<close> reads, if their numbers fit
  64 bits (it keeps greater ones as floating point).\<close>

fun numbers_fit :: "json \<Rightarrow> bool" and members_fit :: "(bytes \<times> json) list \<Rightarrow> bool" where
  "numbers_fit (JInt i) = (i < 2 ^ 64)"
| "numbers_fit (JObject ms) = members_fit ms"
| "numbers_fit _ = True"
| "members_fit [] = True"
| "members_fit ((name, v) # ms) = (numbers_fit v \<and> members_fit ms)"

definition parser_ok :: "json_lib \<Rightarrow> bool" where
  "parser_ok J \<longleftrightarrow> (\<forall>t v. read_json t = Some v \<and> numbers_fit v \<longrightarrow> parse_json J t = Some v)"

lemma numbers_fit_key_doc: "small_params p \<Longrightarrow> numbers_fit (key_doc random p)"
  by (simp add: key_doc_def small_params_def IsInt_def)

definition hex_params :: "CertParams \<Rightarrow> CertParams" where
  "hex_params p = \<lparr>cert_version = 3, cert_cipher = bs ''aes-128-ctr'',
     cert_ciphertext = DumpToHexString (cert_ciphertext p), cert_iv = DumpToHexString (cert_iv p),
     cert_kdftype = bs ''scrypt'', cert_dklen = cert_dklen p, cert_n = cert_n p, cert_p = cert_p p, cert_r = cert_r p,
     cert_salt = DumpToHexString (cert_salt p), cert_mac = DumpToHexString (cert_mac p),
     cert_address = bs ''0x'' @ DumpToHexString (cert_address p)\<rparr>"

lemma ParseCert_CreateKeyFile:
  assumes "parser_ok J" and "small_params p"
  shows "ParseCert J (CreateKeyFile random p) = Inr (hex_params p)"
proof -
  let ?v = "key_doc random p"
  have "plain ?v" by (rule plain_key_doc [OF assms(2)])
  then have "parse_json J (show_json ?v) = Some ?v"
    using assms(1) read_json_show_json numbers_fit_key_doc [OF assms(2)] by (simp add: parser_ok_def)
  then have parse: "reader_parse J (CreateKeyFile random p) = Some ?v"
    using show_json_no_NUL(1) [OF \<open>plain ?v\<close>] by (simp add: reader_parse_def CreateKeyFile_show c_str_id)
  have dump: "c_str (DumpToHexString d) = DumpToHexString d" if "length d < 2 ^ 30" for d
    using plain_no_NUL [OF plain_dump [OF that]] by (rule c_str_id)
  have c: "c_str [] = []" "c_str (a # s) = (if a = 0 then [] else a # c_str s)" for a s by (simp_all add: c_str_def)
  have "IsInt 3" by (simp add: IsInt_def)
  then show ?thesis
    using assms(2)
    by (simp add: ParseCert_def parse key_doc_def cert_string_def cert_int_def cert_object_def get_def small_params_def
        dump hex_params_def byte_simps c)
qed

section \<open>Encrypting and opening\<close>

text \<open>The key of a password: scrypt of RFC 7914 with the parameters of the code.\<close>

definition derived :: "bytes \<Rightarrow> bytes \<Rightarrow> bytes" where
  "derived password salt = scrypt password salt 262144 8 1 32"

lemma length_derived [simp]: "length (derived password salt) = 32"
  by (simp add: derived_def length_scrypt)

lemma libscrypt_default:
  assumes "scrypt_env_ok env"
  shows "libscrypt_scrypt env password salt 262144 8 1 32 = Inr (0, Some (derived password salt))"
proof -
  have "unat (262144 :: u64) = 2 ^ 18" by simp
  then have "\<exists>k. 0 < k \<and> unat (262144 :: u64) = 2 ^ k" by (metis zero_less_numeral)
  then have params: "scrypt_params 262144 8 1 32" by (simp only: scrypt_params_def) simp
  have "libscrypt_scrypt env password salt 262144 8 1 32
      = Inr (0, Some (scrypt password salt (unat (262144 :: u64)) (unat (8 :: u32)) (unat (1 :: u32)) 32))"
    by (rule libscrypt_scrypt_result [OF params]) (use assms in \<open>auto simp: scrypt_env_ok_def smix_mem_ok_def\<close>)
  then show ?thesis by (simp add: derived_def)
qed

definition key_params :: "cert_lib \<Rightarrow> bytes \<Rightarrow> bytes \<Rightarrow> bytes \<Rightarrow> bytes \<Rightarrow> CertParams" where
  "key_params L privkey password salt iv =
     (let ct = aes_ctr_encrypt L (take 16 (derived password salt)) iv privkey
      in \<lparr>cert_version = 0, cert_cipher = [], cert_ciphertext = ct, cert_iv = iv, cert_kdftype = [], cert_dklen = 32,
          cert_n = 262144, cert_p = 1, cert_r = 8, cert_salt = salt,
          cert_mac = keccak256 L (drop 16 (derived password salt) @ ct), cert_address = eth_address L (take 32 privkey)\<rparr>)"

lemma EncodePrivKey_eq:
  assumes "cert_lib_ok L" and "scrypt_env_ok env" and "32 \<le> length privkey" and "password \<noteq> []"
    and "libscrypt_salt_gen (salt_source Rnd) (replicate 32 0) 32 = Some (r1, salt)"
    and "libscrypt_salt_gen (iv_source Rnd) (replicate 16 0) 16 = Some (r2, iv)"
  shows "EncodePrivKey L env Rnd privkey password
    = Some (Inr (bs ''0x'' @ eip55 L (eth_address L (take 32 privkey)),
        CreateKeyFile (guid_source Rnd) (key_params L privkey password salt iv)))"
proof -
  have len: "length (derived password salt) = 32" by (rule length_derived)
  then have ne: "derived password salt \<noteq> []" by (metis list.size(3) zero_neq_numeral)
  have part: "substr (derived password salt) 16 16 = Inr (drop 16 (derived password salt))"
    by (simp add: substr_def)
  have "length (eth_address L (take 32 privkey)) \<le> 32" using length_eth_address [OF assms(1), of "take 32 privkey"] by simp
  then have mixed: "MixedCaseEncoding L (eth_address L (take 32 privkey)) = Inr (eip55 L (eth_address L (take 32 privkey)))"
    by (rule MixedCaseEncoding_eip55 [OF assms(1)])
  have privkey: "privkey \<noteq> []" using assms(3) by auto
  have D: "DeriveAESKeyFromPasswordDefault env (salt_source Rnd) password = Some (Inr (derived password salt, salt))"
    using assms(4,5) libscrypt_default [OF assms(2)]
    by (simp add: DeriveAESKeyFromPasswordDefault_def SCRYPT_DEFAULT_N_def SCRYPT_DEFAULT_r_def SCRYPT_DEFAULT_p_def
        EC_KEY_LENGTH_def)
  show ?thesis
    using assms(4,6) privkey
    by (simp add: EncodePrivKey_def D ne part AddressFromPrivateKey_eq [OF assms(1,3)] mixed key_params_def
        SCRYPT_DEFAULT_N_def SCRYPT_DEFAULT_r_def SCRYPT_DEFAULT_p_def EC_KEY_LENGTH_def Let_def)
qed

lemma small_key_params:
  assumes "cert_lib_ok L" and "length privkey < 2 ^ 30" and "length salt = 32" and "length iv = 16"
  shows "small_params (key_params L privkey password salt iv)"
proof -
  have "length (eth_address L (take 32 privkey)) < 2 ^ 30"
    using length_eth_address [OF assms(1), of "take 32 privkey"] by simp
  then show ?thesis
    using assms by (simp add: small_params_def key_params_def Let_def cert_lib_okD(1,2) IsInt_def)
qed

lemma dump_eq_iff:
  assumes "length a = 32" and "length b = 32"
  shows "DumpToHexString a = DumpToHexString b \<longleftrightarrow> a = b"
proof
  assume "DumpToHexString a = DumpToHexString b"
  moreover have "HexStringToDump (DumpToHexString a) = Inr a" "HexStringToDump (DumpToHexString b) = Inr b"
    using assms by (simp_all add: HexStringToDump_DumpToHexString)
  ultimately show "a = b" by (metis sum.inject(2))
qed (rule arg_cong)

lemma dump_buf: "length a = 32 \<Longrightarrow> DumpToHexString_buf a 32 = DumpToHexString a"
  by (simp add: DumpToHexString_def)

text \<open>Opening with any password: the derived key decides.\<close>

lemma DecodeCert_eq:
  fixes pass
  defines "d \<equiv> derived pass"
  assumes "cert_lib_ok L" and "parser_ok J" and "scrypt_env_ok env" and small: "small_params p"
    and "cert_n p = 262144" "cert_r p = 8" "cert_p p = 1" and "length (cert_iv p) = 16" and "length (cert_mac p) = 32"
  shows "DecodeCert J L env (CreateKeyFile random p) pass =
    (if cert_mac p = keccak256 L (drop 16 (d (cert_salt p)) @ cert_ciphertext p)
     then (let key = aes_ctr_decrypt L (take 16 (d (cert_salt p))) (cert_iv p) (cert_ciphertext p)
           in CHECK_TYPED (32 \<le> length key) PRIVATE_KEY_ERROR (bs ''Incorrect privkey'')
              (Inr (LoadPrivateKey key, take 32 key)))
     else Inl (TypedException INCORRECT_PASSWORD (bs ''incorrect password'')))"
proof -
  have len: "length (d salt) = 32" for salt unfolding d_def by (rule length_derived)
  have part: "substr (d salt) 16 16 = Inr (drop 16 (d salt))" for salt by (simp add: substr_def len)
  note undump = HexStringToDump_DumpToHexString
  have derive: "DeriveAESKeyFromPassword env pass (hex_params p) = Inr (d (cert_salt p))"
    using small assms(6-8) libscrypt_default [OF assms(4)]
    by (simp add: DeriveAESKeyFromPassword_def hex_params_def undump small_params_def EC_KEY_LENGTH_def d_def)
  have mac: "CheckPassword L (d (cert_salt p)) (hex_params p)
      = Inr (cert_mac p = keccak256 L (drop 16 (d (cert_salt p)) @ cert_ciphertext p))"
    using small assms(10) cert_lib_okD(1) [OF assms(2)] len
    by (simp add: CheckPassword_def part hex_params_def undump small_params_def dump_eq_iff dump_buf)
  have dec: "DecodePrivateKey L (d (cert_salt p)) (hex_params p)
      = Inr (aes_ctr_decrypt L (take 16 (d (cert_salt p))) (cert_iv p) (cert_ciphertext p))"
    using small assms(9) by (simp add: DecodePrivateKey_def hex_params_def undump small_params_def)
  show ?thesis
    by (simp add: DecodeCert_def ParseCert_CreateKeyFile [OF assms(3) small] derive mac dec EC_KEY_LENGTH_def Let_def)
qed

section \<open>New keys\<close>

lemma pad_key_eq: "pad_key h = replicate (64 - length h) 48 @ h"
proof (induction h rule: pad_key.induct)
  case (1 h)
  show ?case
  proof (cases "length h < 64")
    case True
    then have "64 - length h = Suc (64 - length (48 # h))" by simp
    with 1 True show ?thesis unfolding pad_key.simps [of h] by (simp add: replicate_append_same)
  next
    case False
    then show ?thesis unfolding pad_key.simps [of h] by simp
  qed
qed

lemma CreateRawECDSAKey_eq:
  assumes "list_all is_hex digits" and "length digits \<le> 64"
  obtains key where "CreateRawECDSAKey (Some (digits @ [c])) = Inr key" and "length key = 32"
    and "DumpToHexString key = replicate (64 - length digits) 48 @ map tolower digits"
proof -
  let ?t = "replicate (64 - length digits) 48 @ digits"
  have len: "length ?t = 64" using assms(2) by simp
  have "size_sub (length (digits @ [c])) 1 = length digits" using assms(2) by (simp add: size_sub_def)
  then have t: "CreateRawECDSAKey (Some (digits @ [c])) = HexStringToDump ?t"
    using len by (auto simp: CreateRawECDSAKey_def pad_key_eq)
  have small: "length ?t < 2 ^ 31" "even (length ?t)" unfolding len by simp_all
  have "is_hex 48" by (simp add: is_hex_def)
  then have "\<forall>c \<in> set ?t. is_hex c" using assms(1) by (auto simp: list_all_iff)
  then obtain key where key: "HexStringToDump ?t = Inr key" using HexStringToDump_Inr [OF small(1)] by blast
  have "length key = 32" using length_HexStringToDump [OF small(1) key] unfolding len by simp
  moreover have "DumpToHexString key = replicate (64 - length digits) 48 @ map tolower digits"
    using DumpToHexString_HexStringToDump [OF key small(2,1)] by (simp add: tolower_def)
  ultimately show thesis using that t key by simp
qed

text \<open>C5: A new key: when the key generator prints an exponent and the random device answers,
  \<open>CreateNewKey\<close> returns the Ethereum address of the key in the mixed case of EIP 55 and a key file,
  which is well-formed JSON. \<open>getAddressFromFile\<close> reads that address from it, and \<open>DecodeCert\<close> with the
  password reads exactly the key that was generated, also when the memory scrypt gets is another. Any
  other password is refused, unless its derived key gives the same authentication code.\<close>

theorem new_key_opens:
  assumes "cert_lib_ok L" and "parser_ok J" and "scrypt_env_ok env" and "scrypt_env_ok env'"
    and "list_all is_hex digits" and "length digits \<le> 64" and "password \<noteq> []"
    and "libscrypt_salt_gen (salt_source Rnd) (replicate 32 0) 32 = Some (r1, salt)"
    and "libscrypt_salt_gen (iv_source Rnd) (replicate 16 0) 16 = Some (r2, iv)"
  shows "\<exists>key address file. DumpToHexString key = replicate (64 - length digits) 48 @ map tolower digits
    \<and> CreateNewKey L env Rnd (Some (digits @ bs ''h'')) password = Some (Inr (address, file))
    \<and> address = bs ''0x'' @ eip55 L (eth_address L key)
    \<and> getAddressFromFile J file = Inr (map tolower address)
    \<and> DecodeCert J L env' file password = Inr (be_value key, key)
    \<and> (let mac = (\<lambda>pass. keccak256 L (drop 16 (derived pass salt)
               @ aes_ctr_encrypt L (take 16 (derived password salt)) iv key))
       in \<forall>other. mac other \<noteq> mac password \<longrightarrow>
            DecodeCert J L env' file other = Inl (TypedException INCORRECT_PASSWORD (bs ''incorrect password'')))"
proof -
  obtain key where key: "CreateRawECDSAKey (Some (digits @ bs ''h'')) = Inr key" "length key = 32"
      "DumpToHexString key = replicate (64 - length digits) 48 @ map tolower digits"
    using CreateRawECDSAKey_eq [OF assms(5,6)] by (metis bs_simps)
  define p where "p = key_params L key password salt iv"
  define address where "address = bs ''0x'' @ eip55 L (eth_address L key)"
  define doc where "doc = CreateKeyFile (guid_source Rnd) p"
  have len: "32 \<le> length key" "length key < 2 ^ 30" "key \<noteq> []" "take 32 key = key" using key(2) by auto
  have ivsalt: "length salt = 32" "length iv = 16"
    using salt_gen_length [OF assms(8)] salt_gen_length [OF assms(9)] by simp_all
  have small: "small_params p" unfolding p_def by (rule small_key_params [OF assms(1) len(2) ivsalt])
  have p: "cert_n p = 262144" "cert_r p = 8" "cert_p p = 1" "length (cert_iv p) = 16" "length (cert_mac p) = 32"
    "cert_salt p = salt" "cert_iv p = iv"
    "cert_ciphertext p = aes_ctr_encrypt L (take 16 (derived password salt)) iv key"
    "cert_mac p = keccak256 L (drop 16 (derived password salt) @ cert_ciphertext p)"
    "cert_address p = eth_address L key"
    using ivsalt(2) len(4) by (simp_all add: p_def key_params_def Let_def cert_lib_okD(1) [OF assms(1)])
  note opens = DecodeCert_eq [OF assms(1,2,4) small p(1-5), of "guid_source Rnd", folded doc_def]
  have create: "CreateNewKey L env Rnd (Some (digits @ bs ''h'')) password = Some (Inr (address, doc))"
    using EncodePrivKey_eq [OF assms(1,3) len(1) assms(7-9)] len(3,4)
    by (simp add: CreateNewKey_def key(1) address_def doc_def p_def)
  have "length (eth_address L key) \<le> 32" using length_eth_address [OF assms(1), of key] by simp
  then have addr: "getAddressFromFile J doc = Inr (map tolower address)"
    using ParseCert_CreateKeyFile [OF assms(2) small, of "guid_source Rnd"]
    by (simp add: getAddressFromFile_def doc_def hex_params_def p(10) address_def eip55_digits(1) byte_simps tolower_def)
  have good: "DecodeCert J L env' doc password = Inr (be_value key, key)"
    unfolding opens using p(9) len key(2)
    by (simp add: p(6-8) cert_lib_okD(3) [OF assms(1)] LoadPrivateKey_def)
  have bad: "DecodeCert J L env' doc other = Inl (TypedException INCORRECT_PASSWORD (bs ''incorrect password''))"
    if "keccak256 L (drop 16 (derived other salt) @ cert_ciphertext p) \<noteq> cert_mac p" for other
    unfolding opens p(6) using that by (metis (full_types))
  show ?thesis
    using key(3) create addr good bad unfolding p(8,9) address_def Let_def by blast
qed

definition example_cert :: cert_lib where
  "example_cert = \<lparr>keccak256 = (\<lambda>m. replicate 32 (of_nat (length m))), sign_recoverable = (\<lambda>h k. None),
     serialize_compact = (\<lambda>s. None), aes_ctr_encrypt = (\<lambda>k iv m. map (\<lambda>b. b XOR hd (k @ iv)) m),
     aes_ctr_decrypt = (\<lambda>k iv m. map (\<lambda>b. b XOR hd (k @ iv)) m), pubkey_data = (\<lambda>k. Some (replicate 64 (hd k)))\<rparr>"

lemma example_cert_ok: "cert_lib_ok example_cert"
  by (simp add: cert_lib_ok_def example_cert_def comp_def xor.assoc)

definition example_parser :: json_lib where
  "example_parser = \<lparr>parse_json = read_json, print_json = show_json, mpz_parse = (\<lambda>_. None), mpz_hex = (\<lambda>_. [])\<rparr>"

lemma example_parser_ok: "parser_ok example_parser"
  by (simp add: parser_ok_def example_parser_def)

definition example_random :: cert_random where
  "example_random = \<lparr>salt_source = \<lparr>opened = True, answer = (\<lambda>i. if i = 0 then Interrupted else Bytes [5, 6])\<rparr>,
     iv_source = \<lparr>opened = True, answer = (\<lambda>i. Bytes [7])\<rparr>, guid_source = replicate 16 9\<rparr>"

lemma salt_gen_returns:
  assumes "opened u" and "ends_at (answer u) len k" and "length salt = len"
  shows "\<exists>r salt'. libscrypt_salt_gen u salt len = Some (r, salt')"
  using assms by (auto simp: libscrypt_salt_gen_def salt_loop_exact Let_def)

theorem new_key_opens_witness:
  "\<exists>key address file. CreateNewKey example_cert example_scrypt_env example_random (Some (bs ''1f'' @ bs ''h'')) (bs ''pw'')
      = Some (Inr (address, file))
    \<and> length key = 32 \<and> DecodeCert example_parser example_cert example_scrypt_env file (bs ''pw'') = Inr (be_value key, key)"
proof -
  have a: "length (delivered (answer (salt_source example_random)) 17) = 32"
    by (simp add: delivered_def example_random_def comp_def upt_rec)
  have b: "length (delivered (answer (iv_source example_random)) 16) = 16"
    by (simp add: delivered_def example_random_def comp_def upt_rec)
  obtain r1 salt where s: "libscrypt_salt_gen (salt_source example_random) (replicate 32 0) 32 = Some (r1, salt)"
    using salt_gen_returns [of "salt_source example_random" 32 17 "replicate 32 0"] a
    by (auto simp: ends_at_def example_random_def)
  obtain r2 iv where i: "libscrypt_salt_gen (iv_source example_random) (replicate 16 0) 16 = Some (r2, iv)"
    using salt_gen_returns [of "iv_source example_random" 16 16 "replicate 16 0"] b
    by (auto simp: ends_at_def example_random_def)
  have digits: "list_all is_hex (bs ''1f'')" "length (bs ''1f'') \<le> 64" "bs ''pw'' \<noteq> []"
    by (simp_all add: byte_simps is_hex_def)
  from new_key_opens [OF example_cert_ok example_parser_ok scrypt_env_ok_example scrypt_env_ok_example digits s i]
  obtain key address f where k: "DumpToHexString key = replicate (64 - length (bs ''1f'')) 48 @ map tolower (bs ''1f'')"
    "CreateNewKey example_cert example_scrypt_env example_random (Some (bs ''1f'' @ bs ''h'')) (bs ''pw'')
      = Some (Inr (address, f))"
    "DecodeCert example_parser example_cert example_scrypt_env f (bs ''pw'') = Inr (be_value key, key)"
    by blast
  have "length key = 32"
    using k(3) by (auto simp: DecodeCert_def CHECK_TYPED_def res_simps split: if_splits)
  with k show ?thesis by blast
qed

end
