(* ===== verification/Spec2Isabelle.thy ===== *)
theory Spec2Isabelle
  imports WalletSpec EthTx TxSpec FetchSpec GenerateSpec Replies CertSpec
begin

text \<open>
  The light node client: a service that answers JSON-RPC requests over HTTP. It keeps the keys of its
  user in encrypted files, builds and signs transactions, and asks a remote server for balances,
  histories and the parameters of a transaction. This development models the program under
  \<open>src/src\<close> (the code under \<open>src/3rd_party\<close> is not the program's own) and proves what its parts promise.

  \<^bold>\<open>How the program is modelled.\<close> A byte buffer or a \<open>std::string\<close> is a list of 8-bit words, a fixed-width
  integer is a word of its width, a struct or class is a record, and a call that can throw returns
  \<open>Inl\<close> the exception or \<open>Inr\<close> its value (\<open>Errors\<close>). Undefined behaviour and failing assertions are outcomes
  of their own, so a theorem that a call returns \<open>Inr\<close> excludes them. One undefined read is a parameter: that of the
  element before the first in \<open>greedyAlg\<close> either ends the run or yields a value, as \<open>wallet_env\<close> says, and the theorems
  hold for both; where they speak of a wallet that returned, this read may have happened. An operation that changes
  files returns what it left of them even when it throws. What the program gets from
  elsewhere is an argument: CryptoPP, secp256k1, RapidJSON, GMP and Boost are records of functions;
  the memory behind an allocation, the random device, the file system and the answers of the network
  are values. What a theorem needs of them is a hypothesis with a name (\<open>crypto_ok\<close>, \<open>cert_lib_ok\<close>,
  \<open>eth_lib_ok\<close>, \<open>parser_ok\<close>, \<open>wallet_env_ok\<close>, \<open>scrypt_env_ok\<close>), and each theorem with hypotheses has
  an instance where they hold.

  \<^bold>\<open>The theories, from the bottom.\<close>

  \<^item> \<open>Prelude\<close>: bytes, the C and C++ string functions, positional numerals. \<open>Errors\<close>:
    \<open>btc_wallet/TypedException.h\<close>, \<open>check.h\<close>, \<open>exception/except.h\<close>.
  \<^item> \<open>Utils2\<close> (\<open>ethtx/utils2.cpp\<close>): little-endian buffers, Bitcoin's variable-length integers and
    hexadecimal dumps. Its locale \<open>prefix_code\<close> is the contract of an encoding that can be read back in
    front of anything; the formats of transactions are built from its instances. \<open>Sysendian\<close>
    (\<open>ethtx/scrypt/sysendian.h\<close>).
  \<^item> \<open>Base58\<close> (\<open>btctx/Base58.cpp\<close>): the two conversions in their work buffers, whose size is
    narrowed to \<open>int\<close>, against the value of the
    digits: up to the lengths that this allows, decoding is exactly the inverse of encoding.
  \<^item> \<open>Sha256\<close>, \<open>Hmac\<close> (\<open>ethtx/scrypt/sha256.cpp\<close>), \<open>Scrypt\<close> (\<open>crypto_scrypt-nosse.cpp\<close>): the streaming
    contexts and the optimised block operations refine the functions of FIPS 180, RFC 2104, RFC 2898 and
    RFC 7914, whatever the memory held before. \<open>SaltGen\<close> (\<open>crypto_scrypt_saltgen.cpp\<close>): when the loop
    over \<open>/dev/urandom\<close> returns, and with what.
  \<^item> \<open>Wif\<close> (\<open>btctx/wif.cpp\<close>): keys in wallet import format, addresses, output scripts, encryption under a
    password.
  \<^item> \<open>TxFormat\<close>: the format of a transaction, as a specification. \<open>Btctx\<close> (\<open>btctx/btctx.cpp\<close>): the
    program, which signs a dump by cutting the scripts of the other inputs out of it. \<open>BtctxSpec\<close>: it
    writes exactly the transaction of the format, with the signatures of the standard digests, and
    neither makes nor loses money.
  \<^item> \<open>StrUtils\<close> (\<open>btc_wallet/utils.h\<close>, \<open>stringUtils.h\<close>), \<open>FileSystem\<close> (\<open>btc_wallet/FileSystem.cpp\<close>,
    \<open>ReadFile\<close>), \<open>BtcWallet\<close> (\<open>btc_wallet/BtcWallet.cpp\<close>): files and folders, key files, the choice of outputs
    and the loop that finds a fee. \<open>WalletSpec\<close>: a generated key is found again, the chosen outputs cover the amount,
    the fee covers the size.
  \<^item> \<open>EthTx\<close> (\<open>ethtx/rlp.cpp\<close>, \<open>ethtx.cpp\<close>): RLP against the reader of the yellow paper, and the signed
    transaction that reads back field by field. \<open>Guid\<close> (\<open>ethtx/crossguid/Guid.cpp\<close>), \<open>Cert\<close> (\<open>ethtx/cert.cpp\<close>,
    \<open>cert2.cpp\<close>), \<open>JsonText\<close>, \<open>CertSpec\<close>: the key files of Ethereum, opened by their password only, and
    the mixed case of EIP 55.
  \<^item> \<open>JsonRpc\<close> (\<open>json_rpc.cpp\<close>): the reader and the writer of the envelope. \<open>TaskUtils\<close>
    (\<open>task_handlers/utils.cpp\<close>), \<open>HttpRequest\<close> (\<open>http_json_rpc_request.cpp\<close>): one request to the server as a
    step relation between the completion handlers and the timers. \<open>Settings\<close> (\<open>settings/settings.cpp\<close>,
    \<open>main.cpp\<close>).
  \<^item> \<open>Handlers\<close>, \<open>TxHandlers\<close> (\<open>task_handlers/*.cpp\<close>), \<open>Session\<close> (\<open>http_session.cpp\<close>, \<open>http_server.cpp\<close>):
    the handler of every method as a state transformer over its record, and the dispatch of a request to
    it. What a handler posts to the event loop is a list in its state. \<open>ServiceSpec\<close>, \<open>GenerateSpec\<close>,
    \<open>TxSpec\<close>, \<open>FetchSpec\<close>, \<open>BadId\<close>: what a request is answered.
  \<^item> \<open>Server\<close> (\<open>main.cpp\<close>, \<open>http_server.cpp\<close>, the loop of \<open>http_session.cpp\<close>): the process. Its state has the
    main and the console thread, the connections, the handlers that are alive, their requests to the server
    and what the thread pool has to run; \<open>act\<close> is one handler of one thread, or a signal, \<open>reaches\<close> a run in any order.
    \<open>ServerSpec\<close>: who is served in every run, what ends the process, what a single client can do to it, and
    which requests of a segment are read; its locale \<open>run_invariant\<close> carries a property over all runs.
    \<open>PlainRequests\<close>, \<open>Replies\<close>: in every run without transactions, failing sockets and answers of the
    remote server that are JSON but no object, each request is answered exactly once.

  \<^bold>\<open>How the parts meet.\<close> \<open>process_request\<close> parses the body, finds the handler by its method and runs
  \<open>perform\<close>: \<open>prepare\<close> reads the parameters, \<open>execute\<close> computes the result or starts a request to the
  server. The process calls \<open>process_request\<close> for what a session has read, runs the steps of \<open>HttpRequest\<close>
  for the requests that are under way, and what was posted. The answer of the server comes back through \<open>resume\<close> to \<open>on_complete\<close> or
  \<open>on_get_transaction_params\<close>. \<open>generate\<close> calls \<open>genPrivateKey\<close> of the wallet, which rests on \<open>Wif\<close>, which
  rests on \<open>Base58\<close> and \<open>Scrypt\<close>; \<open>create-tx\<close> and \<open>send-tx\<close> call \<open>buildTransaction\<close>, which rests on
  \<open>BuildBTCTransaction\<close>. The theorems follow these calls: \<open>wallet_reopens\<close> uses the round trip of the
  encrypted key, \<open>fee_covers_size\<close> the conservation of the transaction builder, \<open>new_key_opens\<close> the
  refinement of scrypt and the salt generator.

  \<^bold>\<open>Bounds and fuel.\<close> \<open>build_loop\<close> counts the 10 rounds that \<open>buildTransaction\<close> makes; running out is
  the error the code throws then. The reader \<open>read_items\<close> of \<open>EthTx\<close> and the reader of \<open>JsonText\<close> take
  the length of their text as fuel, and each step consumes at least one byte. A run of \<open>HttpRequest\<close>
  has no fuel: the relation is unbounded, and a theorem shows that no run has more than 40 steps.
  \<open>salt_loop\<close> is a partial function, \<open>None\<close> being a call that never returns. All other loops are
  structural or have a measure.

  \<^bold>\<open>Not modelled.\<close> \<open>log/log.cpp\<close> only writes. \<open>btc_wallet/jsonUtils.cpp\<close> wraps RapidJSON and is called by
  nothing. \<open>-json_rpc.h\<close> and \<open>-json_rpc.cpp\<close> are older copies that no build file names. Of \<open>FileSystem.cpp\<close>,
  listing a directory and \<open>getBasename\<close> are called by nothing; paths are compared as texts, so links and different
  spellings of one path are not seen. Allocation can fail only where the code looks at the result (scrypt). The sockets and the
  HTTP parser belong to Boost: that a call on a socket fails is a choice of the action, what a parser makes
  of a buffer is a parameter, and a response is what is handed to the socket. The handlers of \<open>Server\<close> run
  one at a time, in any order: two threads inside their handlers at once (as when a posted reply and the
  next reply write to the same socket) are not modelled, nor is the end of a connection's objects. The
  variants for Windows, Apple and Android are not compiled.
\<close>

end
